(* ===== verification/Prelude.thy ===== *)
theory Prelude
  imports Main "HOL-Library.AList"
begin

text \<open>
  What every component of the development shares.

  \<^item> The two computation types of a NestJS service: \<open>tx\<close>, the body of a
    \<^verbatim>\<open>prisma.$transaction\<close> callback, which either throws (and then changes nothing) or
    returns a value and the new tables; and \<open>req\<close>, a request handler, which may throw after
    some of its transactions have already been committed, so that an error comes together with a
    state. \<open>commit\<close> runs the first inside the second.
  \<^item> Tables as lists of rows in insertion order, with the SQL statements the services use:
    \<open>update_where\<close>, \<open>delete_where\<close>, \<open>count_where\<close>, \<open>sum_by\<close>.
  \<^item> The JavaScript string helpers the services call (\<open>trim\<close>, \<open>toLowerCase\<close>, \<open>split\<close>,
    \<open>join\<close>), on ASCII strings.
  \<^item> Two interfaces of general use: a compare-and-set claim on a table and a transition system
    with an invariant.
\<close>

named_theorems tx_simps "unfolding of transaction bodies that returned"
named_theorems row_simps "facts about updated, deleted and counted rows"

section \<open>Transactions and request handlers\<close>

type_synonym ('s, 'e, 'a) tx = "'s \<Rightarrow> 'e + 'a \<times> 's"
type_synonym ('s, 'e, 'a) req = "'s \<Rightarrow> ('e + 'a) \<times> 's"

definition returnT :: "'a \<Rightarrow> ('s, 'e, 'a) tx" where
  "returnT a s = Inr (a, s)"

definition throwT :: "'e \<Rightarrow> ('s, 'e, 'a) tx" where
  "throwT e s = Inl e"

definition bindT :: "('s, 'e, 'a) tx \<Rightarrow> ('a \<Rightarrow> ('s, 'e, 'b) tx) \<Rightarrow> ('s, 'e, 'b) tx" where
  "bindT m f s = (case m s of Inl e \<Rightarrow> Inl e | Inr (a, s') \<Rightarrow> f a s')"

definition guardT :: "bool \<Rightarrow> 'e \<Rightarrow> ('s, 'e, unit) tx" where
  "guardT b e s = (if b then Inr ((), s) else Inl e)"

definition readT :: "('s \<Rightarrow> 'a) \<Rightarrow> ('s, 'e, 'a) tx" where
  "readT f s = Inr (f s, s)"

definition writeT :: "('s \<Rightarrow> 's) \<Rightarrow> ('s, 'e, unit) tx" where
  "writeT f s = Inr ((), f s)"

definition whenT :: "bool \<Rightarrow> ('s, 'e, unit) tx \<Rightarrow> ('s, 'e, unit) tx" where
  "whenT b m s = (if b then m s else Inr ((), s))"

definition someT :: "'e \<Rightarrow> 'a option \<Rightarrow> ('s, 'e, 'a) tx" where
  "someT e x s = (case x of None \<Rightarrow> Inl e | Some a \<Rightarrow> Inr (a, s))"

fun for_eachT :: "('x \<Rightarrow> ('s, 'e, unit) tx) \<Rightarrow> 'x list \<Rightarrow> ('s, 'e, unit) tx" where
  "for_eachT f [] s = Inr ((), s)"
| "for_eachT f (x # xs) s =
     (case f x s of Inl e \<Rightarrow> Inl e | Inr (u, s') \<Rightarrow> for_eachT f xs s')"

lemma returnT_Inr [tx_simps]: "returnT a s = Inr (b, s') \<longleftrightarrow> b = a \<and> s' = s"
  by (auto simp: returnT_def)

lemma throwT_Inr [tx_simps]: "throwT e s = Inr x \<longleftrightarrow> False"
  by (simp add: throwT_def)

lemma bindT_Inr [tx_simps]:
  "bindT m f s = Inr (b, s'') \<longleftrightarrow> (\<exists>a s'. m s = Inr (a, s') \<and> f a s' = Inr (b, s''))"
  by (auto simp: bindT_def split: sum.splits)

lemma guardT_Inr [tx_simps]: "guardT b e s = Inr (u, s') \<longleftrightarrow> b \<and> s' = s"
  by (auto simp: guardT_def)

lemma readT_Inr [tx_simps]: "readT f s = Inr (a, s') \<longleftrightarrow> a = f s \<and> s' = s"
  by (auto simp: readT_def)

lemma writeT_Inr [tx_simps]: "writeT f s = Inr (u, s') \<longleftrightarrow> s' = f s"
  by (auto simp: writeT_def)

lemma whenT_Inr [tx_simps]:
  "whenT b m s = Inr (u, s') \<longleftrightarrow> (b \<and> m s = Inr (u, s') \<or> \<not> b \<and> s' = s)"
  by (auto simp: whenT_def)

lemma someT_Inr [tx_simps]: "someT e x s = Inr (a, s') \<longleftrightarrow> x = Some a \<and> s' = s"
  by (auto simp: someT_def split: option.splits)

lemma for_eachT_Cons_Inr [tx_simps]:
  "for_eachT f (x # xs) s = Inr (u, s'') \<longleftrightarrow>
     (\<exists>v s'. f x s = Inr (v, s') \<and> for_eachT f xs s' = Inr (u, s''))"
  by (auto split: sum.splits)

text \<open>A request handler: the state stays whatever was committed before the error.\<close>

definition returnR :: "'a \<Rightarrow> ('s, 'e, 'a) req" where
  "returnR a s = (Inr a, s)"

definition throwR :: "'e \<Rightarrow> ('s, 'e, 'a) req" where
  "throwR e s = (Inl e, s)"

definition bindR :: "('s, 'e, 'a) req \<Rightarrow> ('a \<Rightarrow> ('s, 'e, 'b) req) \<Rightarrow> ('s, 'e, 'b) req" where
  "bindR m f s = (case m s of (Inl e, s') \<Rightarrow> (Inl e, s') | (Inr a, s') \<Rightarrow> f a s')"

definition guardR :: "bool \<Rightarrow> 'e \<Rightarrow> ('s, 'e, unit) req" where
  "guardR b e s = (if b then (Inr (), s) else (Inl e, s))"

definition someR :: "'e \<Rightarrow> 'a option \<Rightarrow> ('s, 'e, 'a) req" where
  "someR e x s = (case x of None \<Rightarrow> (Inl e, s) | Some a \<Rightarrow> (Inr a, s))"

definition readR :: "('s \<Rightarrow> 'a) \<Rightarrow> ('s, 'e, 'a) req" where
  "readR f s = (Inr (f s), s)"

definition writeR :: "('s \<Rightarrow> 's) \<Rightarrow> ('s, 'e, unit) req" where
  "writeR f s = (Inr (), f s)"

definition whenR :: "bool \<Rightarrow> ('s, 'e, unit) req \<Rightarrow> ('s, 'e, unit) req" where
  "whenR b m s = (if b then m s else (Inr (), s))"

definition tryR :: "('s, 'e, 'a) req \<Rightarrow> ('e \<Rightarrow> ('s, 'e, 'a) req) \<Rightarrow> ('s, 'e, 'a) req" where
  "tryR m h s = (case m s of (Inl e, s') \<Rightarrow> h e s' | (Inr a, s') \<Rightarrow> (Inr a, s'))"

fun for_eachR :: "('x \<Rightarrow> ('s, 'e, unit) req) \<Rightarrow> 'x list \<Rightarrow> ('s, 'e, unit) req" where
  "for_eachR f [] s = (Inr (), s)"
| "for_eachR f (x # xs) s =
     (case f x s of (Inl e, s') \<Rightarrow> (Inl e, s') | (Inr u, s') \<Rightarrow> for_eachR f xs s')"

lemmas req_defs = returnR_def throwR_def bindR_def guardR_def someR_def readR_def writeR_def
  whenR_def tryR_def

section \<open>Invariants of transactions and of handlers\<close>

definition keepsT :: "('s \<Rightarrow> bool) \<Rightarrow> ('s, 'e, 'a) tx \<Rightarrow> bool" where
  "keepsT P m \<longleftrightarrow> (\<forall>s a s'. P s \<longrightarrow> m s = Inr (a, s') \<longrightarrow> P s')"

definition keepsR :: "('s \<Rightarrow> bool) \<Rightarrow> ('s, 'e, 'a) req \<Rightarrow> bool" where
  "keepsR P m \<longleftrightarrow> (\<forall>s. P s \<longrightarrow> P (snd (m s)))"

named_theorems keeps "rules that build an invariant proof along a program"

lemma keepsTD: "keepsT P m \<Longrightarrow> P s \<Longrightarrow> m s = Inr (a, s') \<Longrightarrow> P s'"
  by (auto simp: keepsT_def)

lemma keepsRD: "keepsR P m \<Longrightarrow> P s \<Longrightarrow> m s = (r, s') \<Longrightarrow> P s'"
  by (metis keepsR_def snd_conv)

lemma keepsT_return [keeps]: "keepsT P (returnT a)"
  by (auto simp: keepsT_def tx_simps)

lemma keepsT_throw [keeps]: "keepsT P (throwT e)"
  by (auto simp: keepsT_def tx_simps)

lemma keepsT_guard [keeps]: "keepsT P (guardT b e)"
  by (auto simp: keepsT_def tx_simps)

lemma keepsT_read [keeps]: "keepsT P (readT f)"
  by (auto simp: keepsT_def tx_simps)

lemma keepsT_some [keeps]: "keepsT P (someT e x)"
  by (auto simp: keepsT_def tx_simps)

lemma keepsT_bind [keeps]:
  assumes "keepsT P m" and "\<And>a. keepsT P (f a)"
  shows "keepsT P (bindT m f)"
proof (unfold keepsT_def, intro allI impI)
  fix s b s'' assume "P s" and "bindT m f s = Inr (b, s'')"
  then obtain a s' where "m s = Inr (a, s')" and "f a s' = Inr (b, s'')"
    by (auto simp only: bindT_Inr)
  with \<open>P s\<close> show "P s''" by (blast intro: keepsTD [OF assms(1)] keepsTD [OF assms(2)])
qed

lemma keepsT_when [keeps]: "(b \<Longrightarrow> keepsT P m) \<Longrightarrow> keepsT P (whenT b m)"
  by (auto simp: keepsT_def tx_simps)

lemma keepsT_for_each [keeps]:
  assumes "\<And>x. x \<in> set xs \<Longrightarrow> keepsT P (f x)"
  shows "keepsT P (for_eachT f xs)"
  using assms
proof (induction xs)
  case Nil
  then show ?case by (auto simp: keepsT_def)
next
  case (Cons x xs)
  then have "keepsT P (f x)" and "keepsT P (for_eachT f xs)" by auto
  note step = keepsTD [OF this(1)] and rest = keepsTD [OF this(2)]
  show ?case
  proof (unfold keepsT_def, intro allI impI)
    fix s u s'' assume "P s" and "for_eachT f (x # xs) s = Inr (u, s'')"
    then obtain v s' where "f x s = Inr (v, s')" and "for_eachT f xs s' = Inr (u, s'')"
      by (auto simp only: for_eachT_Cons_Inr)
    with \<open>P s\<close> show "P s''" by (blast intro: step rest)
  qed
qed

lemma keepsR_return [keeps]: "keepsR P (returnR a)"
  by (simp add: keepsR_def returnR_def)

lemma keepsR_throw [keeps]: "keepsR P (throwR e)"
  by (simp add: keepsR_def throwR_def)

lemma keepsR_guard [keeps]: "keepsR P (guardR b e)"
  by (simp add: keepsR_def guardR_def)

lemma keepsR_some [keeps]: "keepsR P (someR e x)"
  by (simp add: keepsR_def someR_def split: option.splits)

lemma keepsR_read [keeps]: "keepsR P (readR f)"
  by (simp add: keepsR_def readR_def)

lemma keepsR_bind [keeps]:
  assumes "keepsR P m" and "\<And>a. keepsR P (f a)"
  shows "keepsR P (bindR m f)"
proof (unfold keepsR_def, intro allI impI)
  fix s assume "P s"
  with assms(1) have "P (snd (m s))" by (simp add: keepsR_def)
  with assms(2) show "P (snd (bindR m f s))"
    by (auto simp: bindR_def keepsR_def split: prod.splits sum.splits)
qed

lemma keepsR_when [keeps]: "(b \<Longrightarrow> keepsR P m) \<Longrightarrow> keepsR P (whenR b m)"
  by (simp add: keepsR_def whenR_def)

lemma keepsR_try [keeps]:
  assumes "keepsR P m" and "\<And>e. keepsR P (h e)"
  shows "keepsR P (tryR m h)"
proof (unfold keepsR_def, intro allI impI)
  fix s assume "P s"
  with assms(1) have "P (snd (m s))" by (simp add: keepsR_def)
  with assms(2) show "P (snd (tryR m h s))"
    by (auto simp: tryR_def keepsR_def split: prod.splits sum.splits)
qed

lemma keepsR_for_each [keeps]:
  "(\<And>x. x \<in> set xs \<Longrightarrow> keepsR P (f x)) \<Longrightarrow> keepsR P (for_eachR f xs)"
proof (induction xs)
  case Nil
  then show ?case by (simp add: keepsR_def)
next
  case (Cons x xs)
  then have x: "keepsR P (f x)" and xs: "keepsR P (for_eachR f xs)" by auto
  show ?case
  proof (unfold keepsR_def, intro allI impI)
    fix s assume "P s"
    with x have "P (snd (f x s))" by (simp add: keepsR_def)
    with xs show "P (snd (for_eachR f (x # xs) s))"
      by (auto simp: keepsR_def split: prod.splits sum.splits)
  qed
qed

section \<open>Tables\<close>

text \<open>\<^verbatim>\<open>UPDATE t SET f WHERE p\<close>, \<^verbatim>\<open>DELETE FROM t WHERE p\<close>, \<^verbatim>\<open>SELECT count(*) FROM t WHERE p\<close>.\<close>

definition update_where :: "('r \<Rightarrow> bool) \<Rightarrow> ('r \<Rightarrow> 'r) \<Rightarrow> 'r list \<Rightarrow> 'r list" where
  "update_where p f rs = map (\<lambda>r. if p r then f r else r) rs"

definition delete_where :: "('r \<Rightarrow> bool) \<Rightarrow> 'r list \<Rightarrow> 'r list" where
  "delete_where p rs = filter (\<lambda>r. \<not> p r) rs"

definition count_where :: "('r \<Rightarrow> bool) \<Rightarrow> 'r list \<Rightarrow> nat" where
  "count_where p rs = length (filter p rs)"

definition sum_by :: "('r \<Rightarrow> int) \<Rightarrow> 'r list \<Rightarrow> int" where
  "sum_by g rs = sum_list (map g rs)"

lemma update_where_Nil [simp]: "update_where p f [] = []"
  by (simp add: update_where_def)

lemma update_where_Cons [simp]:
  "update_where p f (r # rs) = (if p r then f r else r) # update_where p f rs"
  by (simp add: update_where_def)

lemma update_where_append [simp]:
  "update_where p f (rs @ qs) = update_where p f rs @ update_where p f qs"
  by (simp add: update_where_def)

lemma length_update_where [simp]: "length (update_where p f rs) = length rs"
  by (simp add: update_where_def)

lemma set_update_where [row_simps]:
  "set (update_where p f rs) = (\<lambda>r. if p r then f r else r) ` set rs"
  by (auto simp: update_where_def)

lemma in_update_where:
  "q \<in> set (update_where p f rs) \<Longrightarrow> \<exists>r \<in> set rs. q = (if p r then f r else r)"
  unfolding set_update_where by blast

lemma map_update_where [simp]:
  "(\<And>r. g (f r) = g r) \<Longrightarrow> map g (update_where p f rs) = map g rs"
  by (induction rs) auto

lemma update_where_id: "(\<And>r. r \<in> set rs \<Longrightarrow> \<not> p r) \<Longrightarrow> update_where p f rs = rs"
  by (induction rs) auto

lemma count_where_Nil [simp]: "count_where p [] = 0"
  by (simp add: count_where_def)

lemma count_where_Cons [simp]:
  "count_where p (r # rs) = (if p r then Suc (count_where p rs) else count_where p rs)"
  by (simp add: count_where_def)

lemma count_where_append [simp]:
  "count_where p (rs @ qs) = count_where p rs + count_where p qs"
  by (simp add: count_where_def)

lemma count_where_0 [row_simps]: "count_where p rs = 0 \<longleftrightarrow> (\<forall>r \<in> set rs. \<not> p r)"
  by (induction rs) auto

lemma count_where_pos [row_simps]: "0 < count_where p rs \<longleftrightarrow> (\<exists>r \<in> set rs. p r)"
  by (induction rs) auto

lemma set_delete_where [row_simps]: "set (delete_where p rs) = {r \<in> set rs. \<not> p r}"
  by (auto simp: delete_where_def)

lemma delete_where_id: "(\<And>r. r \<in> set rs \<Longrightarrow> \<not> p r) \<Longrightarrow> delete_where p rs = rs"
  by (simp add: delete_where_def)

lemma sum_by_Nil [simp]: "sum_by g [] = 0"
  by (simp add: sum_by_def)

lemma sum_by_Cons [simp]: "sum_by g (r # rs) = g r + sum_by g rs"
  by (simp add: sum_by_def)

lemma sum_by_append [simp]: "sum_by g (rs @ qs) = sum_by g rs + sum_by g qs"
  by (simp add: sum_by_def)

lemma sum_by_cong: "(\<And>r. r \<in> set rs \<Longrightarrow> g r = h r) \<Longrightarrow> sum_by g rs = sum_by h rs"
  by (induction rs) auto

lemma sum_by_zero: "(\<And>r. r \<in> set rs \<Longrightarrow> g r = 0) \<Longrightarrow> sum_by g rs = 0"
  by (induction rs) auto

lemma sum_by_nonneg: "(\<And>r. r \<in> set rs \<Longrightarrow> 0 \<le> g r) \<Longrightarrow> 0 \<le> sum_by g rs"
  by (induction rs) auto

lemma sum_by_mono: "(\<And>r. r \<in> set rs \<Longrightarrow> g r \<le> h r) \<Longrightarrow> sum_by g rs \<le> sum_by h rs"
  by (induction rs) (auto simp: add_mono)

lemma sum_by_add: "sum_by (\<lambda>r. g r + h r) rs = sum_by g rs + sum_by h rs"
  by (induction rs) auto

lemma sum_by_diff: "sum_by (\<lambda>r. g r - h r) rs = sum_by g rs - sum_by h rs"
  by (induction rs) auto

lemma sum_by_scale: "sum_by (\<lambda>r. c * g r) rs = c * sum_by g rs"
  by (induction rs) (auto simp: algebra_simps)

lemma sum_by_filter: "sum_by g (filter p rs) = sum_by (\<lambda>r. if p r then g r else 0) rs"
  by (induction rs) auto

lemma sum_by_map: "sum_by g (map h rs) = sum_by (\<lambda>r. g (h r)) rs"
  by (induction rs) auto

lemma sum_by_concat: "sum_by g (concat rss) = sum_by (\<lambda>rs. sum_by g rs) rss"
  by (induction rss) auto

lemma sum_by_replicate: "sum_by g (replicate n r) = int n * g r"
  by (induction n) (auto simp: algebra_simps)

lemma sum_by_member_le: "(\<And>r. r \<in> set rs \<Longrightarrow> 0 \<le> g r) \<Longrightarrow> r \<in> set rs \<Longrightarrow> g r \<le> sum_by g rs"
proof (induction rs)
  case Nil
  then show ?case by simp
next
  case (Cons q rs)
  then have "0 \<le> sum_by g rs" by (intro sum_by_nonneg) simp
  with Cons show ?case by fastforce
qed

lemma count_where_sum_by: "int (count_where p rs) = sum_by (\<lambda>r. if p r then 1 else 0) rs"
  by (induction rs) auto

text \<open>What an update adds to a column sum: the change at the rows it touches.\<close>

lemma sum_by_update_where:
  "sum_by g (update_where p f rs) = sum_by g rs + sum_by (\<lambda>r. g (f r) - g r) (filter p rs)"
  by (induction rs) auto

lemma sum_by_delete_where: "sum_by g (delete_where p rs) = sum_by g rs - sum_by g (filter p rs)"
  by (induction rs) (auto simp: delete_where_def)

lemma sum_by_update_same: "(\<And>r. g (f r) = g r) \<Longrightarrow> sum_by g (update_where p f rs) = sum_by g rs"
  by (induction rs) auto

text \<open>Row lookup: \<^verbatim>\<open>findUnique\<close> and \<^verbatim>\<open>findFirst\<close> return the first row that matches.\<close>

lemma find_SomeD: "List.find p rs = Some r \<Longrightarrow> r \<in> set rs \<and> p r"
  by (auto simp: find_Some_iff)

lemma find_NoneD: "List.find p rs = None \<Longrightarrow> r \<in> set rs \<Longrightarrow> \<not> p r"
  by (auto simp: find_None_iff)

lemma find_key:
  "distinct (map k rs) \<Longrightarrow> r \<in> set rs \<Longrightarrow> List.find (\<lambda>q. k q = k r) rs = Some r"
  by (induction rs) auto

lemma filter_key:
  "distinct (map k rs) \<Longrightarrow> r \<in> set rs \<Longrightarrow> filter (\<lambda>q. k q = k r) rs = [r]"
proof (induction rs)
  case Nil
  then show ?case by simp
next
  case (Cons q rs)
  show ?case
  proof (cases "q = r")
    case True
    with Cons.prems(1) have "k r \<notin> k ` set rs" by simp
    then have "filter (\<lambda>q. k q = k r) rs = []" by (metis (mono_tags, lifting) filter_empty_conv imageI)
    with True show ?thesis by simp
  next
    case False
    with Cons.prems have "r \<in> set rs" and "k q \<noteq> k r" by force+
    with Cons show ?thesis by simp
  qed
qed

lemma distinct_map_key_eq:
  "distinct (map k rs) \<Longrightarrow> r \<in> set rs \<Longrightarrow> q \<in> set rs \<Longrightarrow> k r = k q \<Longrightarrow> r = q"
  by (induction rs) (auto simp: rev_image_eqI)

lemma update_one:
  assumes "distinct (map k rs)" and "r \<in> set rs" and "\<And>q. p q \<Longrightarrow> k q = k r" and "p r"
  shows "filter p rs = [r]"
proof -
  have "filter p rs = filter p (filter (\<lambda>q. k q = k r) rs)"
    by (simp add: filter_filter) (metis (mono_tags, lifting) assms(3) filter_cong)
  with filter_key [OF assms(1,2)] assms(4) show ?thesis by simp
qed

lemma find_update_where:
  assumes "\<And>r. q (f r) = q r"
  shows "List.find q (update_where p f rs) =
    map_option (\<lambda>r. if p r then f r else r) (List.find q rs)"
  using assms by (induction rs) auto

lemma find_append:
  "List.find p (rs @ qs) = (case List.find p rs of None \<Rightarrow> List.find p qs | Some r \<Rightarrow> Some r)"
  by (induction rs) auto

lemma map_filter_snoc: "List.map_filter f (xs @ [x]) =
    List.map_filter f xs @ (case f x of None \<Rightarrow> [] | Some y \<Rightarrow> [y])"
  by (induction xs) (auto simp: List.map_filter_def split: option.splits)

lemma set_map_filter_iff: "y \<in> set (List.map_filter f xs) \<longleftrightarrow> (\<exists>x \<in> set xs. f x = Some y)"
  by (force simp: List.map_filter_def)

section \<open>JavaScript maps\<close>

text \<open>
  A \<^verbatim>\<open>Map\<close> is an association list in insertion order; \<^verbatim>\<open>set\<close> is \<open>AList.update\<close>, which
  overwrites in place. \<open>tally\<close> counts occurrences and \<open>group_rows\<close> collects them, as the loops
  with \<^verbatim>\<open>(m.get(k) ?? 0) + 1\<close> and \<^verbatim>\<open>m.get(k) ?? []\<close> do.
\<close>

definition bump :: "'k \<Rightarrow> ('k \<times> int) list \<Rightarrow> ('k \<times> int) list" where
  "bump k m = AList.update k ((case map_of m k of None \<Rightarrow> 0 | Some n \<Rightarrow> n) + 1) m"

definition tally :: "'k list \<Rightarrow> ('k \<times> int) list" where
  "tally ks = fold bump ks []"

definition group_rows :: "('k \<times> 'v) list \<Rightarrow> ('k \<times> 'v list) list" where
  "group_rows kvs =
     fold (\<lambda>(k, v) m. AList.update k ((case map_of m k of None \<Rightarrow> [] | Some vs \<Rightarrow> vs) @ [v]) m) kvs []"

lemma map_of_alist_update: "map_of (AList.update k v m) = (map_of m)(k \<mapsto> v)"
  by (rule update_conv')

lemma distinct_fold_bump:
  "distinct (map fst m) \<Longrightarrow> distinct (map fst (fold bump ks m))"
  by (induction ks arbitrary: m) (auto simp: bump_def distinct_update)

lemma map_of_fold_bump:
  "map_of (fold bump ks m) k =
     (if k \<in> set ks then Some ((case map_of m k of None \<Rightarrow> 0 | Some n \<Rightarrow> n) + int (count_list ks k))
      else map_of m k)"
proof (induction ks arbitrary: m)
  case Nil
  then show ?case by simp
next
  case (Cons j ks)
  have "map_of (bump j m) k = (if k = j then Some ((case map_of m k of None \<Rightarrow> 0 | Some n \<Rightarrow> n) + 1)
      else map_of m k)"
    by (auto simp: bump_def map_of_alist_update)
  then show ?case
    by (cases "k \<in> set ks"; cases "j = k") (simp_all add: Cons.IH count_list_0_iff)
qed

lemma distinct_tally [simp]: "distinct (map fst (tally ks))"
  by (simp add: tally_def distinct_fold_bump)

lemma map_of_tally: "map_of (tally ks) k = (if k \<in> set ks then Some (int (count_list ks k)) else None)"
  by (simp add: tally_def map_of_fold_bump)

lemma fst_set_tally: "fst ` set (tally ks) = set ks"
proof -
  have "fst ` set (tally ks) = dom (map_of (tally ks))" by (rule dom_map_of_conv_image_fst [symmetric])
  also have "\<dots> = set ks" by (auto simp: dom_def map_of_tally split: if_splits)
  finally show ?thesis .
qed

lemma sum_by_alist:
  "distinct (map fst m) \<Longrightarrow>
     sum_by (\<lambda>(j, n). if j = k then n else 0) m = (case map_of m k of None \<Rightarrow> 0 | Some n \<Rightarrow> n)"
proof (induction m)
  case Nil
  then show ?case by simp
next
  case (Cons a m)
  obtain j n where a: "a = (j, n)" by (cases a)
  show ?case
  proof (cases "j = k")
    case True
    with Cons.prems have "sum_by (\<lambda>(j, n). if j = k then n else 0) m = 0"
      by (intro sum_by_zero) (force simp: a)
    with True show ?thesis by (simp add: a)
  next
    case False
    with Cons show ?thesis by (simp add: a)
  qed
qed

lemma sum_by_tally:
  "sum_by (\<lambda>(j, n). if j = k then n else 0) (tally ks) = sum_by (\<lambda>j. if j = k then 1 else 0) ks"
proof -
  have "int (count_list ks k) = sum_by (\<lambda>j. if j = k then 1 else 0) ks" by (induction ks) auto
  then show ?thesis
    by (auto simp: sum_by_alist map_of_tally)
qed

section \<open>Strings\<close>

text \<open>
  JavaScript strings, restricted to ASCII: \<^verbatim>\<open>String.prototype.trim\<close> strips white space at both
  ends, \<^verbatim>\<open>toLowerCase\<close> maps the capital letters, \<^verbatim>\<open>split\<close> with a one-character separator always
  returns at least one part.
\<close>

definition is_space :: "char \<Rightarrow> bool" where
  "is_space c \<longleftrightarrow> c \<in> {CHR 0x09, CHR 0x0A, CHR 0x0B, CHR 0x0C, CHR 0x0D, CHR '' ''}"

definition trim :: "string \<Rightarrow> string" where
  "trim s = rev (dropWhile is_space (rev (dropWhile is_space s)))"

definition lower_char :: "char \<Rightarrow> char" where
  "lower_char c = (let n = of_char c :: nat in if 65 \<le> n \<and> n \<le> 90 then char_of (n + 32) else c)"

definition to_lower :: "string \<Rightarrow> string" where
  "to_lower = map lower_char"

text \<open>A string that may be missing counts as true when it is there and not empty.\<close>

definition truthy :: "string option \<Rightarrow> bool" where
  "truthy x \<longleftrightarrow> x \<noteq> None \<and> x \<noteq> Some []"

fun split_on :: "char \<Rightarrow> string \<Rightarrow> string list" where
  "split_on c [] = [[]]"
| "split_on c (x # xs) =
     (if x = c then [] # split_on c xs
      else (case split_on c xs of [] \<Rightarrow> [[x]] | w # ws \<Rightarrow> (x # w) # ws))"

fun join_with :: "string \<Rightarrow> string list \<Rightarrow> string" where
  "join_with sep [] = []"
| "join_with sep [w] = w"
| "join_with sep (w # v # ws) = w @ sep @ join_with sep (v # ws)"

fun decimal :: "nat \<Rightarrow> string" where
  "decimal n = (if n < 10 then [char_of (48 + n)] else decimal (n div 10) @ [char_of (48 + n mod 10)])"

declare decimal.simps [simp del]

lemma split_on_not_Nil [simp]: "split_on c s \<noteq> []"
  by (induction s) (auto split: list.splits)

lemma split_on_sep: "c \<notin> set a \<Longrightarrow> split_on c (a @ c # b) = a # split_on c b"
  by (induction a) auto

lemma split_on_none: "c \<notin> set a \<Longrightarrow> split_on c a = [a]"
  by (induction a) auto

lemma join_with_Cons: "ws \<noteq> [] \<Longrightarrow> join_with sep (w # ws) = w @ sep @ join_with sep ws"
  by (cases ws) auto

lemma join_with_first: "join_with sep ((x # w) # ws) = x # join_with sep (w # ws)"
  by (cases ws) auto

lemma split_on_join: "join_with [c] (split_on c s) = s"
proof (induction s)
  case Nil
  then show ?case by simp
next
  case (Cons x s)
  obtain w ws where w: "split_on c s = w # ws" by (cases "split_on c s") auto
  with Cons show ?case by (simp add: join_with_Cons join_with_first)
qed

lemma split_on_no_sep: "w \<in> set (split_on c s) \<Longrightarrow> c \<notin> set w"
  by (induction s arbitrary: w) (auto split: list.splits if_splits)

lemma dropWhile_idem [simp]: "dropWhile p (dropWhile p xs) = dropWhile p xs"
  by (induction xs) auto

lemma lower_char_idem [simp]: "lower_char (lower_char c) = lower_char c"
proof (cases "65 \<le> (of_char c :: nat) \<and> (of_char c :: nat) \<le> 90")
  case True
  then have "(of_char (char_of (of_char c + 32 :: nat)) :: nat) = of_char c + 32"
    by (simp add: of_char_of)
  with True show ?thesis by (simp add: lower_char_def Let_def)
next
  case False
  then show ?thesis by (auto simp: lower_char_def Let_def)
qed

lemma to_lower_idem [simp]: "to_lower (to_lower s) = to_lower s"
  by (simp add: to_lower_def)

section \<open>A compare-and-set claim\<close>

text \<open>
  \<^verbatim>\<open>updateMany\<close> with a \<^verbatim>\<open>where\<close> that names the state a row is leaving is the way every
  handler of the services claims the right to act (ADR 0014): two executions race, the first
  matches rows, the second matches none. All the contract asks is that a claimed row no longer
  satisfies the guard.
\<close>

locale claim =
  fixes open_row :: "'r \<Rightarrow> bool" and close_row :: "'r \<Rightarrow> 'r"
  assumes closed: "open_row r \<Longrightarrow> \<not> open_row (close_row r)"
begin

lemma none_left: "count_where open_row (update_where open_row close_row rs) = 0"
  by (induction rs) (auto simp: closed)

lemma twice: "update_where open_row close_row (update_where open_row close_row rs) =
    update_where open_row close_row rs"
  by (induction rs) (auto simp: closed)

lemma lost_claim_changes_nothing:
  "count_where open_row rs = 0 \<Longrightarrow> update_where open_row close_row rs = rs"
  by (rule update_where_id) (simp add: count_where_0)

end

section \<open>A list without one position\<close>

definition without :: "nat \<Rightarrow> 'a list \<Rightarrow> 'a list" where
  "without k xs = take k xs @ drop (Suc k) xs"

lemma without_split: "k < length xs \<Longrightarrow> xs = take k xs @ xs ! k # drop (Suc k) xs"
  by (rule id_take_nth_drop)

section \<open>A transition system with an invariant\<close>

locale invariant_system =
  fixes start :: "'s \<Rightarrow> bool" and step :: "'s \<Rightarrow> 's \<Rightarrow> bool" and inv :: "'s \<Rightarrow> bool"
  assumes inv_start: "start s \<Longrightarrow> inv s"
    and inv_step: "step s t \<Longrightarrow> inv s \<Longrightarrow> inv t"
begin

lemma inv_steps: "step\<^sup>*\<^sup>* s t \<Longrightarrow> inv s \<Longrightarrow> inv t"
  by (induction rule: rtranclp_induct) (auto intro: inv_step)

lemma inv_reachable: "start s \<Longrightarrow> step\<^sup>*\<^sup>* s t \<Longrightarrow> inv t"
  by (blast intro: inv_start inv_steps)

end

end
