(* ===== verification/Schema.thy ===== *)
theory Schema
  imports Prelude
begin

text \<open>
  The data model of \<^verbatim>\<open>apps/api/prisma/schema.prisma\<close> with the constraints its migrations add:
  one record per table, one datatype per enum, the database as a record of tables, and the
  inserts and column updates that can fail on a constraint. Identifiers, guest tokens and QR
  tokens come from \<^verbatim>\<open>uuid()\<close> and \<^verbatim>\<open>randomBytes\<close>; the model draws them from a counter
  in the database, which keeps the one thing the code relies on, that each is new.
  Every exception the services throw is a value of \<open>error\<close>.
\<close>

type_synonym id = nat
type_synonym millis = int
type_synonym satang = int

section \<open>Enums\<close>

datatype event_status = Draft | Published
datatype member_role = M_manager | M_staff
datatype ticket_kind = Ga | Seated
datatype order_status = Awaiting_payment | Paid | Expired | Canceled | Partially_refunded | Refunded
datatype payment_status = P_requires_action | P_succeeded | P_failed
datatype ticket_status = Issued | Checked_in | Void
datatype refund_status = R_pending | R_succeeded | R_failed

text \<open>\<^verbatim>\<open>orders/order-status.ts\<close>.\<close>

definition PAID_ORDER_STATUSES :: "order_status list" where
  "PAID_ORDER_STATUSES = [Paid, Partially_refunded, Refunded]"

definition REFUNDABLE_ORDER_STATUSES :: "order_status list" where
  "REFUNDABLE_ORDER_STATUSES = [Paid, Partially_refunded]"

definition UNFULFILLABLE_ORDER_STATUSES :: "order_status list" where
  "UNFULFILLABLE_ORDER_STATUSES = [Expired, Canceled]"

section \<open>Rows\<close>

record user =
  u_id :: id
  u_email :: string
  u_displayName :: string
  u_passwordHash :: "string option"
  u_googleId :: "string option"
  u_isDemo :: bool

record refresh_token =
  rt_id :: id
  rt_userId :: id
  rt_tokenHash :: string
  rt_expiresAt :: millis
  rt_revokedAt :: "millis option"

record event_row =
  ev_id :: id
  ev_organizerId :: id
  ev_slug :: string
  ev_title :: string
  ev_description :: string
  ev_venueName :: string
  ev_startsAt :: millis
  ev_endsAt :: "millis option"
  ev_status :: event_status
  ev_isDemo :: bool
  ev_dropMode :: bool
  ev_createdAt :: millis

record team_member =
  tm_id :: id
  tm_eventId :: id
  tm_email :: string
  tm_userId :: "id option"
  tm_role :: member_role
  tm_invitedById :: id
  tm_createdAt :: millis
  tm_linkedAt :: "millis option"

record ticket_type =
  tt_id :: id
  tt_eventId :: id
  tt_kind :: ticket_kind
  tt_name :: string
  tt_priceSatang :: satang
  tt_quantity :: int
  tt_remaining :: int
  tt_maxPerOrder :: int
  tt_createdAt :: millis

record section_meta =
  sm_name :: string
  sm_yStart :: int
  sm_rows :: int
  sm_cols :: int
  sm_xOffset :: int

record map_meta =
  mm_maxCols :: int
  mm_totalRows :: int
  mm_sections :: "section_meta list"

record seat_map =
  map_id :: id
  map_eventId :: id
  map_template :: string
  map_meta :: "map_meta option"

record seat =
  s_id :: id
  s_seatMapId :: id
  s_eventId :: id
  s_ticketTypeId :: id
  s_section :: string
  s_rowLabel :: char
  s_number :: int
  s_x :: int
  s_y :: int

record hold =
  h_id :: id
  h_eventId :: id
  h_seatId :: id
  h_holderKey :: string
  h_orderId :: "id option"
  h_expiresAt :: millis
  h_createdAt :: millis

record order_item =
  i_ticketTypeId :: id
  i_quantity :: int
  i_unitPriceSatang :: satang

record order =
  o_id :: id
  o_eventId :: id
  o_buyerUserId :: "id option"
  o_buyerEmail :: string
  o_buyerName :: string
  o_status :: order_status
  o_totalSatang :: satang
  o_refundedSatang :: satang
  o_idempotencyKey :: "string option"
  o_guestToken :: id
  o_expiresAt :: "millis option"
  o_createdAt :: millis
  o_items :: "order_item list"

record payment =
  p_orderId :: id
  p_providerIntentId :: string
  p_checkoutUrl :: string
  p_status :: payment_status
  p_amountSatang :: satang

record webhook_event =
  w_providerEventId :: string
  w_type :: string
  w_processedAt :: "millis option"

text \<open>The \<^verbatim>\<open>type\<close> and \<^verbatim>\<open>payload\<close> columns of an outbox row, as the writers fill them.\<close>

datatype outbox_payload =
    Ticket_issued id
  | Seats_sold id "id list"
  | Seats_released id "id list"
  | Order_updated id order_status
  | Order_refunded id satang
  | Other_event string

record outbox_event =
  ob_id :: id
  ob_payload :: outbox_payload
  ob_attempts :: nat
  ob_createdAt :: millis
  ob_processedAt :: "millis option"

record ticket =
  t_id :: id
  t_orderId :: id
  t_eventId :: id
  t_ticketTypeId :: id
  t_seatId :: "id option"
  t_attendeeEmail :: string
  t_attendeeName :: string
  t_qrToken :: id
  t_status :: ticket_status
  t_refundId :: "id option"
  t_checkedInAt :: "millis option"
  t_createdAt :: millis

record refund =
  r_id :: id
  r_orderId :: id
  r_providerRefundId :: "string option"
  r_amountSatang :: satang
  r_status :: refund_status
  r_idempotencyKey :: "string option"
  r_requestedById :: "id option"
  r_createdAt :: millis
  r_settledAt :: "millis option"

section \<open>The database\<close>

text \<open>
  \<^verbatim>\<open>order_items\<close> rows are created with their order and only read through it, so they are the
  \<open>o_items\<close> of the order; every other table is a list of rows.
\<close>

record db =
  users :: "user list"
  refreshTokens :: "refresh_token list"
  events :: "event_row list"
  teamMembers :: "team_member list"
  ticketTypes :: "ticket_type list"
  seatMaps :: "seat_map list"
  seats :: "seat list"
  holds :: "hold list"
  orders :: "order list"
  payments :: "payment list"
  webhookEvents :: "webhook_event list"
  outboxEvents :: "outbox_event list"
  tickets :: "ticket list"
  refunds :: "refund list"
  next_id :: id

definition empty_db :: db where
  "empty_db = \<lparr>users = [], refreshTokens = [], events = [], teamMembers = [], ticketTypes = [],
     seatMaps = [], seats = [], holds = [], orders = [], payments = [], webhookEvents = [],
     outboxEvents = [], tickets = [], refunds = [], next_id = 0\<rparr>"

section \<open>Exceptions\<close>

datatype bad_request =
    Pick_at_least_one | Hold_key_required | Unknown_ticket_type | Duplicate_ticket_type
  | At_most_per_order int | Unknown_seat | At_most_held nat | Hold_key_length
  | Unknown_ticket | Ticket_is_void | Missing_signature | Malformed_signature
  | Outside_tolerance | Invalid_signature | Missing_body | Malformed_event
  | Owner_already_on_team | No_ticket_types | Seated_capacity | Below_claimed int
  | Tier_names_distinct | Section_names_distinct | Invalid_dto

datatype conflict =
    Sold_out id | Hold_expired | Seat_held | Seat_sold | Order_not_refundable
  | Ticket_used_or_refunded | No_payment_to_retry | Only_failed_refund | Email_on_team
  | Email_registered | Has_seat_map | Sold_while_changing

datatype not_found =
    Event_not_found | Seat_not_found | Order_not_found | Refund_not_found | Ticket_not_found
  | Member_not_found | Ticket_type_not_found | No_seat_map

datatype unauthorized =
    Invalid_credentials | Invalid_google | Google_unverified | Invalid_refresh | Reuse_detected
  | Refresh_expired | Missing_refresh | No_such_user | Not_authenticated

datatype prisma_error = P2002 | P2025 | Check_violation

datatype error =
    Bad_request bad_request
  | Unauthorized unauthorized
  | Role_not_allowed
  | Admission_required
  | Not_found not_found
  | Conflict conflict
  | Provider_unavailable
  | Google_not_configured
  | Demo_not_seeded
  | Mail_failed
  | Prisma prisma_error

text \<open>The status code NestJS answers with; an uncaught Prisma error is a 500.\<close>

fun http_status :: "error \<Rightarrow> nat" where
  "http_status (Bad_request _) = 400"
| "http_status (Unauthorized _) = 401"
| "http_status Role_not_allowed = 403"
| "http_status Admission_required = 403"
| "http_status (Not_found _) = 404"
| "http_status (Conflict _) = 409"
| "http_status Provider_unavailable = 502"
| "http_status Google_not_configured = 503"
| "http_status Demo_not_seeded = 503"
| "http_status Mail_failed = 500"
| "http_status (Prisma _) = 500"

type_synonym 'a db_tx = "(db, error, 'a) tx"

section \<open>Identifiers\<close>

definition fresh_id :: "id db_tx" where
  "fresh_id s = Inr (next_id s, s\<lparr>next_id := Suc (next_id s)\<rparr>)"

lemma fresh_id_Inr [tx_simps]:
  "fresh_id s = Inr (i, s') \<longleftrightarrow> i = next_id s \<and> s' = s\<lparr>next_id := Suc (next_id s)\<rparr>"
  by (auto simp: fresh_id_def)

section \<open>Constrained writes\<close>

text \<open>\<^verbatim>\<open>orders_event_id_idempotency_key_key\<close>: a null key never collides.\<close>

definition order_key_taken :: "id \<Rightarrow> string option \<Rightarrow> db \<Rightarrow> bool" where
  "order_key_taken ev k s \<longleftrightarrow>
     k \<noteq> None \<and> (\<exists>r \<in> set (orders s). o_eventId r = ev \<and> o_idempotencyKey r = k)"

definition insert_order :: "order \<Rightarrow> unit db_tx" where
  "insert_order r s =
     (if order_key_taken (o_eventId r) (o_idempotencyKey r) s then Inl (Prisma P2002)
      else Inr ((), s\<lparr>orders := orders s @ [r]\<rparr>))"

text \<open>\<^verbatim>\<open>tickets_event_seat_unique\<close>: partial, over the rows that hold a seat and are not void.\<close>

definition live :: "ticket \<Rightarrow> bool" where
  "live t \<longleftrightarrow> t_status t \<noteq> Void"

definition seat_taken :: "id \<Rightarrow> id option \<Rightarrow> db \<Rightarrow> bool" where
  "seat_taken ev seat s \<longleftrightarrow>
     seat \<noteq> None \<and> (\<exists>t \<in> set (tickets s). t_eventId t = ev \<and> t_seatId t = seat \<and> live t)"

definition insert_ticket :: "ticket \<Rightarrow> unit db_tx" where
  "insert_ticket r s =
     (if live r \<and> seat_taken (t_eventId r) (t_seatId r) s then Inl (Prisma P2002)
      else Inr ((), s\<lparr>tickets := tickets s @ [r]\<rparr>))"

text \<open>\<^verbatim>\<open>payments_order_id_key\<close> and \<^verbatim>\<open>payments_provider_intent_id_key\<close>.\<close>

definition insert_payment :: "payment \<Rightarrow> unit db_tx" where
  "insert_payment r s =
     (if \<exists>p \<in> set (payments s). p_orderId p = p_orderId r \<or> p_providerIntentId p = p_providerIntentId r
      then Inl (Prisma P2002)
      else Inr ((), s\<lparr>payments := payments s @ [r]\<rparr>))"

text \<open>\<^verbatim>\<open>refunds_order_id_idempotency_key_key\<close>.\<close>

definition refund_key_taken :: "id \<Rightarrow> string option \<Rightarrow> db \<Rightarrow> bool" where
  "refund_key_taken ord k s \<longleftrightarrow>
     k \<noteq> None \<and> (\<exists>r \<in> set (refunds s). r_orderId r = ord \<and> r_idempotencyKey r = k)"

definition insert_refund :: "refund \<Rightarrow> unit db_tx" where
  "insert_refund r s =
     (if refund_key_taken (r_orderId r) (r_idempotencyKey r) s then Inl (Prisma P2002)
      else Inr ((), s\<lparr>refunds := refunds s @ [r]\<rparr>))"

text \<open>
  \<^verbatim>\<open>ticketType.update\<close> with an increment or a decrement of \<^verbatim>\<open>remaining\<close>: Prisma throws when no
  row has the id, Postgres when the result breaks \<^verbatim>\<open>CHECK (remaining >= 0)\<close>.
\<close>

definition add_remaining :: "id \<Rightarrow> int \<Rightarrow> unit db_tx" where
  "add_remaining tid d s =
     (case List.find (\<lambda>tt. tt_id tt = tid) (ticketTypes s) of
        None \<Rightarrow> Inl (Prisma P2025)
      | Some tt \<Rightarrow>
          if tt_remaining tt + d < 0 then Inl (Prisma Check_violation)
          else Inr ((), s\<lparr>ticketTypes := update_where (\<lambda>tt. tt_id tt = tid)
                 (\<lambda>tt. tt\<lparr>tt_remaining := tt_remaining tt + d\<rparr>) (ticketTypes s)\<rparr>))"

lemma insert_order_Inr [tx_simps]:
  "insert_order r s = Inr (u, s') \<longleftrightarrow>
     \<not> order_key_taken (o_eventId r) (o_idempotencyKey r) s \<and> s' = s\<lparr>orders := orders s @ [r]\<rparr>"
  by (auto simp: insert_order_def)

lemma insert_ticket_Inr [tx_simps]:
  "insert_ticket r s = Inr (u, s') \<longleftrightarrow>
     \<not> (live r \<and> seat_taken (t_eventId r) (t_seatId r) s) \<and> s' = s\<lparr>tickets := tickets s @ [r]\<rparr>"
  by (auto simp: insert_ticket_def)

lemma insert_payment_Inr [tx_simps]:
  "insert_payment r s = Inr (u, s') \<longleftrightarrow>
     (\<forall>p \<in> set (payments s). p_orderId p \<noteq> p_orderId r \<and> p_providerIntentId p \<noteq> p_providerIntentId r) \<and>
     s' = s\<lparr>payments := payments s @ [r]\<rparr>"
  by (auto simp: insert_payment_def)

lemma insert_refund_Inr [tx_simps]:
  "insert_refund r s = Inr (u, s') \<longleftrightarrow>
     \<not> refund_key_taken (r_orderId r) (r_idempotencyKey r) s \<and> s' = s\<lparr>refunds := refunds s @ [r]\<rparr>"
  by (auto simp: insert_refund_def)

lemma add_remaining_Inr [tx_simps]:
  "add_remaining tid d s = Inr (u, s') \<longleftrightarrow>
     (\<exists>tt. List.find (\<lambda>tt. tt_id tt = tid) (ticketTypes s) = Some tt \<and> 0 \<le> tt_remaining tt + d) \<and>
     s' = s\<lparr>ticketTypes := update_where (\<lambda>tt. tt_id tt = tid)
            (\<lambda>tt. tt\<lparr>tt_remaining := tt_remaining tt + d\<rparr>) (ticketTypes s)\<rparr>"
  by (auto simp: add_remaining_def split: option.splits)

section \<open>Reads\<close>

definition find_order :: "id \<Rightarrow> db \<Rightarrow> order option" where
  "find_order i s = List.find (\<lambda>r. o_id r = i) (orders s)"

definition find_event :: "id \<Rightarrow> db \<Rightarrow> event_row option" where
  "find_event i s = List.find (\<lambda>r. ev_id r = i) (events s)"

definition find_ticket_type :: "id \<Rightarrow> db \<Rightarrow> ticket_type option" where
  "find_ticket_type i s = List.find (\<lambda>r. tt_id r = i) (ticketTypes s)"

definition find_refund :: "id \<Rightarrow> db \<Rightarrow> refund option" where
  "find_refund i s = List.find (\<lambda>r. r_id r = i) (refunds s)"

definition payment_of :: "id \<Rightarrow> db \<Rightarrow> payment option" where
  "payment_of ord s = List.find (\<lambda>p. p_orderId p = ord) (payments s)"

definition is_ga_item :: "db \<Rightarrow> order_item \<Rightarrow> bool" where
  "is_ga_item s it \<longleftrightarrow> map_option tt_kind (find_ticket_type (i_ticketTypeId it) s) = Some Ga"

definition seat_label :: "seat \<Rightarrow> string" where
  "seat_label st = s_section st @ '' '' @ [s_rowLabel st] @ decimal (nat (s_number st))"

section \<open>The process around the database\<close>

text \<open>
  A handler runs in an API process: beside the database it touches the state of
  \<^verbatim>\<open>RealtimeService\<close> (the pending batches, whether the flush timer runs, whether a socket server
  is attached), what was emitted to sockets, the requests sent to the payment provider, the
  mail handed to the transport and the expiry jobs put on the queue.
\<close>

record seat_batch =
  b_held :: "id list"
  b_released :: "id list"
  b_sold :: "id list"

datatype message =
    Seats_message id seat_batch
  | Order_message id order_status

datatype provider_call =
    Create_intent id satang id
  | Create_refund string satang id

datatype mail =
    Order_confirmation string id "string list"
  | Refund_notice string id satang

record world =
  w_db :: db
  w_pending :: "(id \<times> seat_batch) list"
  w_timer :: bool
  w_server :: bool
  w_emitted :: "message list"
  w_calls :: "provider_call list"
  w_mails :: "mail list"
  w_jobs :: "(id \<times> millis) list"

type_synonym 'a handler = "(world, error, 'a) req"

text \<open>Running a transaction: commit on a value, roll back on an exception.\<close>

definition commit :: "'a db_tx \<Rightarrow> 'a handler" where
  "commit m w = (case m (w_db w) of
     Inl e \<Rightarrow> (Inl e, w)
   | Inr (a, s) \<Rightarrow> (Inr a, w\<lparr>w_db := s\<rparr>))"

text \<open>A read of the tables outside a transaction, and one that may throw.\<close>

definition queryR :: "(db \<Rightarrow> 'a) \<Rightarrow> 'a handler" where
  "queryR f w = (Inr (f (w_db w)), w)"

definition askR :: "(db \<Rightarrow> error + 'a) \<Rightarrow> 'a handler" where
  "askR f w = (f (w_db w), w)"

lemma commit_keeps [keeps]: "keepsT P m \<Longrightarrow> keepsR (\<lambda>w. P (w_db w)) (commit m)"
  by (auto simp: keepsR_def keepsT_def commit_def split: sum.splits)

lemma queryR_keeps [keeps]: "keepsR P (queryR f)"
  by (simp add: keepsR_def queryR_def)

lemma askR_keeps [keeps]: "keepsR P (askR f)"
  by (simp add: keepsR_def askR_def)

lemmas handler_defs = req_defs commit_def queryR_def askR_def

text \<open>The two clocks a request reads: \<^verbatim>\<open>Date.now()\<close> and Postgres' \<^verbatim>\<open>now()\<close>.\<close>

record clock =
  app_now :: millis
  db_now :: millis

end
