(* ===== verification/Samples.thy ===== *)
theory Samples
  imports Schema
begin

text \<open>
  One small concrete event that the examples of the development start from: a published event
  with a general admission tier, a seated tier of two seats, an owner, a manager and a door
  helper.
\<close>

definition demo_event :: event_row where
  "demo_event = \<lparr>ev_id = 1, ev_organizerId = 2, ev_slug = ''gig'', ev_title = ''Gig'',
     ev_description = '''', ev_venueName = ''Hall'', ev_startsAt = 0, ev_endsAt = None,
     ev_status = Published, ev_isDemo = False, ev_dropMode = True, ev_createdAt = 0\<rparr>"

definition demo_seat :: "id \<Rightarrow> seat" where
  "demo_seat i = \<lparr>s_id = i, s_seatMapId = 4, s_eventId = 1, s_ticketTypeId = 5,
     s_section = ''Front'', s_rowLabel = CHR ''A'', s_number = int i, s_x = int i, s_y = 0\<rparr>"

definition demo_ga :: ticket_type where
  "demo_ga = \<lparr>tt_id = 3, tt_eventId = 1, tt_kind = Ga, tt_name = ''Floor'', tt_priceSatang = 500,
     tt_quantity = 10, tt_remaining = 10, tt_maxPerOrder = 4, tt_createdAt = 0\<rparr>"

definition demo_seated :: ticket_type where
  "demo_seated = \<lparr>tt_id = 5, tt_eventId = 1, tt_kind = Seated, tt_name = ''Front zone'',
     tt_priceSatang = 1000, tt_quantity = 2, tt_remaining = 2, tt_maxPerOrder = 8, tt_createdAt = 1\<rparr>"

definition demo_user :: "id \<Rightarrow> string \<Rightarrow> user" where
  "demo_user i e = \<lparr>u_id = i, u_email = e, u_displayName = e, u_passwordHash = Some ''hash'',
     u_googleId = None, u_isDemo = False\<rparr>"

definition demo_member :: "id \<Rightarrow> id \<Rightarrow> string \<Rightarrow> member_role \<Rightarrow> team_member" where
  "demo_member i u e r = \<lparr>tm_id = i, tm_eventId = 1, tm_email = e, tm_userId = Some u, tm_role = r,
     tm_invitedById = 2, tm_createdAt = 0, tm_linkedAt = Some 0\<rparr>"

definition demo_db :: db where
  "demo_db = empty_db\<lparr>users := [demo_user 2 ''owner@x'', demo_user 6 ''manager@x'', demo_user 7 ''staff@x''],
     events := [demo_event],
     teamMembers := [demo_member 8 6 ''manager@x'' M_manager, demo_member 9 7 ''staff@x'' M_staff],
     ticketTypes := [demo_ga, demo_seated], seats := [demo_seat 10, demo_seat 11], next_id := 100\<rparr>"

definition demo_world :: "db \<Rightarrow> world" where
  "demo_world s = \<lparr>w_db = s, w_pending = [], w_timer = False, w_server = True, w_emitted = [],
     w_calls = [], w_mails = [], w_jobs = []\<rparr>"

definition demo_clock :: clock where
  "demo_clock = \<lparr>app_now = 1000, db_now = 1000\<rparr>"

text \<open>An order for two floor tickets that awaits payment, its payment, and the tickets once paid.\<close>

definition demo_order :: order where
  "demo_order = \<lparr>o_id = 20, o_eventId = 1, o_buyerUserId = None, o_buyerEmail = ''ann@x'',
     o_buyerName = ''Ann'', o_status = Awaiting_payment, o_totalSatang = 1000, o_refundedSatang = 0,
     o_idempotencyKey = Some ''key-1'', o_guestToken = 21, o_expiresAt = Some 901000, o_createdAt = 1000,
     o_items = [\<lparr>i_ticketTypeId = 3, i_quantity = 2, i_unitPriceSatang = 500\<rparr>]\<rparr>"

definition demo_payment :: payment where
  "demo_payment = \<lparr>p_orderId = 20, p_providerIntentId = ''pi_1'', p_checkoutUrl = ''/pay'',
     p_status = P_requires_action, p_amountSatang = 1000\<rparr>"

definition demo_ticket :: "id \<Rightarrow> ticket_status \<Rightarrow> ticket" where
  "demo_ticket i st = \<lparr>t_id = i, t_orderId = 20, t_eventId = 1, t_ticketTypeId = 3, t_seatId = None,
     t_attendeeEmail = ''ann@x'', t_attendeeName = ''Ann'', t_qrToken = i + 1, t_status = st,
     t_refundId = None, t_checkedInAt = (if st = Checked_in then Some 0 else None), t_createdAt = 1000\<rparr>"

definition awaiting_db :: db where
  "awaiting_db = demo_db\<lparr>ticketTypes := [demo_ga\<lparr>tt_remaining := 8\<rparr>, demo_seated],
     orders := [demo_order], payments := [demo_payment]\<rparr>"

definition paid_db :: db where
  "paid_db = demo_db\<lparr>ticketTypes := [demo_ga\<lparr>tt_remaining := 8\<rparr>, demo_seated],
     orders := [demo_order\<lparr>o_status := Paid\<rparr>], payments := [demo_payment\<lparr>p_status := P_succeeded\<rparr>],
     tickets := [demo_ticket 30 Issued, demo_ticket 32 Issued]\<rparr>"

lemmas demo_rows = demo_event_def demo_seat_def demo_ga_def demo_seated_def demo_user_def demo_member_def
  demo_order_def demo_payment_def demo_ticket_def

lemmas demo_defs = demo_rows demo_db_def demo_world_def demo_clock_def empty_db_def awaiting_db_def paid_db_def

end
