(* ===== verification/Realtime.thy ===== *)
theory Realtime
  imports Samples
begin

text \<open>
  \<^verbatim>\<open>realtime/realtime.service.ts\<close>: seat changes are batched per event and flushed every 250 ms.
  A \<^verbatim>\<open>Set\<close> is a list without repetitions in insertion order, the \<^verbatim>\<open>Map\<close> of pending batches an
  association list in insertion order. The interface \<open>seat_notifier\<close> says what coalescing
  changes must mean: the last change of a seat wins.
\<close>

record seat_change =
  c_held :: "id list"
  c_released :: "id list"
  c_sold :: "id list"

text \<open>\<^verbatim>\<open>Set.add\<close>, \<^verbatim>\<open>Set.delete\<close> and \<^verbatim>\<open>[...new Set(xs)]\<close>.\<close>

definition set_add :: "'a \<Rightarrow> 'a list \<Rightarrow> 'a list" where
  "set_add x xs = (if x \<in> set xs then xs else xs @ [x])"

definition set_del :: "'a \<Rightarrow> 'a list \<Rightarrow> 'a list" where
  "set_del x xs = filter (\<lambda>y. y \<noteq> x) xs"

definition js_set :: "'a list \<Rightarrow> 'a list" where
  "js_set xs = fold set_add xs []"

definition empty_batch :: seat_batch where
  "empty_batch = \<lparr>b_held = [], b_released = [], b_sold = []\<rparr>"

definition mark_held :: "id \<Rightarrow> seat_batch \<Rightarrow> seat_batch" where
  "mark_held x b = b\<lparr>b_held := set_add x (b_held b), b_released := set_del x (b_released b),
     b_sold := set_del x (b_sold b)\<rparr>"

definition mark_released :: "id \<Rightarrow> seat_batch \<Rightarrow> seat_batch" where
  "mark_released x b = b\<lparr>b_released := set_add x (b_released b), b_held := set_del x (b_held b),
     b_sold := set_del x (b_sold b)\<rparr>"

definition mark_sold :: "id \<Rightarrow> seat_batch \<Rightarrow> seat_batch" where
  "mark_sold x b = b\<lparr>b_sold := set_add x (b_sold b), b_held := set_del x (b_held b),
     b_released := set_del x (b_released b)\<rparr>"

definition apply_change :: "seat_change \<Rightarrow> seat_batch \<Rightarrow> seat_batch" where
  "apply_change ch b =
     fold mark_sold (c_sold ch) (fold mark_released (c_released ch) (fold mark_held (c_held ch) b))"

definition pending_batch :: "id \<Rightarrow> world \<Rightarrow> seat_batch" where
  "pending_batch ev w = (case map_of (w_pending w) ev of None \<Rightarrow> empty_batch | Some b \<Rightarrow> b)"

definition seatsChanged :: "id \<Rightarrow> seat_change \<Rightarrow> world \<Rightarrow> world" where
  "seatsChanged ev ch w =
     w\<lparr>w_pending := AList.update ev (apply_change ch (pending_batch ev w)) (w_pending w),
       w_timer := True\<rparr>"

definition flush :: "world \<Rightarrow> world" where
  "flush w =
     (if w_pending w = [] then w\<lparr>w_timer := False\<rparr>
      else if \<not> w_server w then w
      else w\<lparr>w_emitted := w_emitted w @ map (\<lambda>(ev, b). Seats_message ev b) (w_pending w),
             w_pending := []\<rparr>)"

definition orderChanged :: "id \<Rightarrow> order_status \<Rightarrow> world \<Rightarrow> world" where
  "orderChanged ord st w =
     (if w_server w then w\<lparr>w_emitted := w_emitted w @ [Order_message ord st]\<rparr> else w)"

definition attachServer :: "world \<Rightarrow> world" where
  "attachServer w = w\<lparr>w_server := True\<rparr>"

definition held_change :: "id list \<Rightarrow> seat_change" where
  "held_change xs = \<lparr>c_held = xs, c_released = [], c_sold = []\<rparr>"

definition released_change :: "id list \<Rightarrow> seat_change" where
  "released_change xs = \<lparr>c_held = [], c_released = xs, c_sold = []\<rparr>"

definition sold_change :: "id list \<Rightarrow> seat_change" where
  "sold_change xs = \<lparr>c_held = [], c_released = [], c_sold = xs\<rparr>"

section \<open>What coalescing means\<close>

datatype seat_mark = Held_mark | Released_mark | Sold_mark

text \<open>The loops of one change run over held, released and sold in this order.\<close>

definition change_mark :: "seat_change \<Rightarrow> id \<Rightarrow> seat_mark option" where
  "change_mark ch x =
     (if x \<in> set (c_sold ch) then Some Sold_mark
      else if x \<in> set (c_released ch) then Some Released_mark
      else if x \<in> set (c_held ch) then Some Held_mark else None)"

fun last_mark :: "seat_change list \<Rightarrow> id \<Rightarrow> seat_mark option" where
  "last_mark [] x = None"
| "last_mark (ch # chs) x =
     (case last_mark chs x of None \<Rightarrow> change_mark ch x | Some m \<Rightarrow> Some m)"

locale seat_notifier =
  fixes push :: "seat_change \<Rightarrow> 'b \<Rightarrow> 'b"
    and view :: "'b \<Rightarrow> id \<Rightarrow> seat_mark option"
    and ok :: "'b \<Rightarrow> bool"
  assumes view_push: "ok b \<Longrightarrow> view (push ch b) x =
      (case change_mark ch x of None \<Rightarrow> view b x | Some m \<Rightarrow> Some m)"
    and ok_push: "ok b \<Longrightarrow> ok (push ch b)"
begin

lemma ok_fold: "ok b \<Longrightarrow> ok (fold push chs b)"
  by (induction chs arbitrary: b) (auto simp: ok_push)

lemma last_wins:
  "ok b \<Longrightarrow> view (fold push chs b) x =
     (case last_mark chs x of None \<Rightarrow> view b x | Some m \<Rightarrow> Some m)"
  by (induction chs arbitrary: b) (auto simp: ok_push view_push split: option.splits)

end

definition batch_mark :: "seat_batch \<Rightarrow> id \<Rightarrow> seat_mark option" where
  "batch_mark b x =
     (if x \<in> set (b_held b) then Some Held_mark
      else if x \<in> set (b_released b) then Some Released_mark
      else if x \<in> set (b_sold b) then Some Sold_mark else None)"

definition batch_ok :: "seat_batch \<Rightarrow> bool" where
  "batch_ok b \<longleftrightarrow>
     distinct (b_held b @ b_released b @ b_sold b)"

lemma set_set_add [simp]: "set (set_add x xs) = insert x (set xs)"
  by (auto simp: set_add_def)

lemma set_set_del [simp]: "set (set_del x xs) = set xs - {x}"
  by (auto simp: set_del_def)

lemma distinct_set_add [simp]: "distinct (set_add x xs) \<longleftrightarrow> distinct xs"
  by (auto simp: set_add_def)

lemma distinct_set_del [simp]: "distinct xs \<Longrightarrow> distinct (set_del x xs)"
  by (simp add: set_del_def)

lemma set_fold_add: "set (fold set_add xs ys) = set ys \<union> set xs"
  by (induction xs arbitrary: ys) auto

lemma set_js_set [simp]: "set (js_set xs) = set xs"
  by (simp add: js_set_def set_fold_add)

lemma distinct_js_set [simp]: "distinct (js_set xs)"
proof -
  have "distinct ys \<Longrightarrow> distinct (fold set_add xs ys)" for ys
    by (induction xs arbitrary: ys) auto
  then show ?thesis by (simp add: js_set_def)
qed

lemma batch_ok_empty [simp]: "batch_ok empty_batch"
  by (simp add: batch_ok_def empty_batch_def)

lemma batch_mark_empty [simp]: "batch_mark empty_batch x = None"
  by (simp add: batch_mark_def empty_batch_def)

lemma batch_ok_marks [simp]:
  "batch_ok b \<Longrightarrow> batch_ok (mark_held x b)"
  "batch_ok b \<Longrightarrow> batch_ok (mark_released x b)"
  "batch_ok b \<Longrightarrow> batch_ok (mark_sold x b)"
  by (auto simp: batch_ok_def mark_held_def mark_released_def mark_sold_def)

lemma batch_mark_marks:
  "batch_ok b \<Longrightarrow> batch_mark (mark_held x b) y = (if y = x then Some Held_mark else batch_mark b y)"
  "batch_ok b \<Longrightarrow> batch_mark (mark_released x b) y =
     (if y = x then Some Released_mark else batch_mark b y)"
  "batch_ok b \<Longrightarrow> batch_mark (mark_sold x b) y = (if y = x then Some Sold_mark else batch_mark b y)"
  by (auto simp: batch_ok_def batch_mark_def mark_held_def mark_released_def mark_sold_def)

lemma batch_ok_fold_marks [simp]:
  "batch_ok b \<Longrightarrow> batch_ok (fold mark_held xs b)"
  "batch_ok b \<Longrightarrow> batch_ok (fold mark_released xs b)"
  "batch_ok b \<Longrightarrow> batch_ok (fold mark_sold xs b)"
  by (induction xs arbitrary: b) auto

lemma batch_mark_fold_marks:
  "batch_ok b \<Longrightarrow> batch_mark (fold mark_held xs b) y =
     (if y \<in> set xs then Some Held_mark else batch_mark b y)"
  "batch_ok b \<Longrightarrow> batch_mark (fold mark_released xs b) y =
     (if y \<in> set xs then Some Released_mark else batch_mark b y)"
  "batch_ok b \<Longrightarrow> batch_mark (fold mark_sold xs b) y =
     (if y \<in> set xs then Some Sold_mark else batch_mark b y)"
  by (induction xs arbitrary: b) (auto simp: batch_mark_marks)

interpretation batch: seat_notifier apply_change batch_mark batch_ok
  by unfold_locales
    (auto simp: apply_change_def batch_mark_fold_marks change_mark_def)

section \<open>Batches across events\<close>

definition rt_ok :: "world \<Rightarrow> bool" where
  "rt_ok w \<longleftrightarrow> distinct (map fst (w_pending w)) \<and> (\<forall>(ev, b) \<in> set (w_pending w). batch_ok b) \<and>
     (w_pending w \<noteq> [] \<longrightarrow> w_timer w)"

lemma pending_batch_ok [simp]: "rt_ok w \<Longrightarrow> batch_ok (pending_batch ev w)"
  by (auto simp: rt_ok_def pending_batch_def split: option.splits dest!: map_of_SomeD)

lemma pending_batch_seatsChanged:
  "pending_batch ev' (seatsChanged ev ch w) =
     (if ev' = ev then apply_change ch (pending_batch ev w) else pending_batch ev' w)"
  by (simp add: pending_batch_def seatsChanged_def map_of_alist_update)

lemma rt_ok_seatsChanged:
  assumes "rt_ok w"
  shows "rt_ok (seatsChanged ev ch w)"
proof -
  let ?b = "apply_change ch (pending_batch ev w)"
  have dist: "distinct (map fst (AList.update ev ?b (w_pending w)))"
    using assms by (intro distinct_update) (simp add: rt_ok_def)
  have "batch_ok b" if "(e, b) \<in> set (AList.update ev ?b (w_pending w))" for e b
  proof -
    have "map_of (AList.update ev ?b (w_pending w)) e = Some b"
      using dist that by simp
    then have "(if e = ev then Some ?b else map_of (w_pending w) e) = Some b"
      by (simp add: map_of_alist_update)
    then show "batch_ok b"
      using assms by (auto simp: batch.ok_push rt_ok_def split: if_splits dest!: map_of_SomeD)
  qed
  with dist show ?thesis by (auto simp: rt_ok_def seatsChanged_def)
qed

lemma rt_ok_flush: "rt_ok w \<Longrightarrow> rt_ok (flush w)"
  by (auto simp: rt_ok_def flush_def)

lemma rt_ok_orderChanged: "rt_ok w \<Longrightarrow> rt_ok (orderChanged ord st w)"
  by (auto simp: rt_ok_def orderChanged_def)

lemma seatsChanged_frame [simp]:
  "w_db (seatsChanged ev ch w) = w_db w" "w_calls (seatsChanged ev ch w) = w_calls w"
  "w_mails (seatsChanged ev ch w) = w_mails w" "w_emitted (seatsChanged ev ch w) = w_emitted w"
  "w_server (seatsChanged ev ch w) = w_server w" "w_jobs (seatsChanged ev ch w) = w_jobs w"
  by (simp_all add: seatsChanged_def)

lemma orderChanged_frame [simp]:
  "w_db (orderChanged ord st w) = w_db w" "w_calls (orderChanged ord st w) = w_calls w"
  "w_mails (orderChanged ord st w) = w_mails w" "w_pending (orderChanged ord st w) = w_pending w"
  by (simp_all add: orderChanged_def)

lemma flush_frame [simp]:
  "w_db (flush w) = w_db w" "w_calls (flush w) = w_calls w" "w_mails (flush w) = w_mails w"
  by (simp_all add: flush_def)

text \<open>The changes of one event in a sequence, and the world after all of them.\<close>

definition changes_of :: "id \<Rightarrow> (id \<times> seat_change) list \<Rightarrow> seat_change list" where
  "changes_of ev evs = map snd (filter (\<lambda>(e, ch). e = ev) evs)"

definition after_changes :: "(id \<times> seat_change) list \<Rightarrow> world \<Rightarrow> world" where
  "after_changes evs w = fold (\<lambda>(ev, ch). seatsChanged ev ch) evs w"

lemma after_changes_Nil [simp]: "after_changes [] w = w"
  by (simp add: after_changes_def)

lemma after_changes_Cons [simp]:
  "after_changes ((ev, ch) # evs) w = after_changes evs (seatsChanged ev ch w)"
  by (simp add: after_changes_def)

lemma after_changes_frame [simp]:
  "w_server (after_changes evs w) = w_server w" "w_emitted (after_changes evs w) = w_emitted w"
  by (induction evs arbitrary: w) (auto simp: after_changes_def)

lemma rt_ok_after_changes: "rt_ok w \<Longrightarrow> rt_ok (after_changes evs w)"
  by (induction evs arbitrary: w) (auto simp: rt_ok_seatsChanged)

lemma pending_batch_after_changes:
  "pending_batch ev (after_changes evs w) = fold apply_change (changes_of ev evs) (pending_batch ev w)"
  by (induction evs arbitrary: w)
    (auto simp: changes_of_def pending_batch_seatsChanged)

lemma dom_after_changes:
  "fst ` set (w_pending (after_changes evs w)) = fst ` set (w_pending w) \<union> fst ` set evs"
proof (induction evs arbitrary: w)
  case Nil
  then show ?case by simp
next
  case (Cons a evs)
  obtain ev ch where a: "a = (ev, ch)" by (cases a)
  have "fst ` set (w_pending (seatsChanged ev ch w)) = insert ev (fst ` set (w_pending w))"
    by (simp add: seatsChanged_def dom_update)
  then show ?case by (simp add: a Cons.IH)
qed

section \<open>Properties\<close>

text \<open>
  C30: Whatever seat changes arrive in one window, for whatever events, the next flush sends exactly one
  message per event that changed, each seat stands in at most one of its three lists, and the list
  a seat stands in is the last thing that happened to it. Nothing is left pending.
\<close>

theorem flush_last_word:
  assumes "w_server w" and "w_pending w = []" and "evs \<noteq> []"
  shows "\<exists>ms. w_emitted (flush (after_changes evs w)) = w_emitted w @ map (\<lambda>(ev, b). Seats_message ev b) ms \<and>
    w_pending (flush (after_changes evs w)) = [] \<and>
    distinct (map fst ms) \<and> set (map fst ms) = set (map fst evs) \<and>
    list_all (\<lambda>(ev, b). batch_ok b \<and> (\<forall>x. batch_mark b x = last_mark (changes_of ev evs) x)) ms"
proof -
  let ?w = "w\<lparr>w_timer := True\<rparr>" and ?v = "after_changes evs w"
  obtain ev ch evs' where evs: "evs = (ev, ch) # evs'" using assms(3) by (cases evs) auto
  have start: "rt_ok (seatsChanged ev ch w)"
    using assms(2) batch.ok_push [of empty_batch ch]
    by (simp add: rt_ok_def seatsChanged_def pending_batch_def)
  have ok: "rt_ok ?v" using rt_ok_after_changes [OF start, of evs'] by (simp add: evs)
  have dom: "set (map fst (w_pending ?v)) = set (map fst evs)"
    using dom_after_changes [of evs w] assms(2) by simp
  hence "w_pending ?v \<noteq> []" using evs by auto
  moreover have "pending_batch e ?v = fold apply_change (changes_of e evs) empty_batch" for e
    using pending_batch_after_changes [of e evs w] assms(2) by (simp add: pending_batch_def)
  hence mark: "batch_mark (pending_batch e ?v) x = last_mark (changes_of e evs) x" for e x
    using batch.last_wins [of empty_batch "changes_of e evs" x] by (auto split: option.splits)
  have "list_all (\<lambda>(ev, b). batch_ok b \<and> (\<forall>x. batch_mark b x = last_mark (changes_of ev evs) x)) (w_pending ?v)"
  proof (unfold list_all_iff, intro ballI, clarify)
    fix e b assume m: "(e, b) \<in> set (w_pending ?v)"
    with ok have "pending_batch e ?v = b" by (auto simp: rt_ok_def pending_batch_def)
    with m ok mark [of e] show "batch_ok b \<and> (\<forall>x. batch_mark b x = last_mark (changes_of e evs) x)"
      by (auto simp: rt_ok_def)
  qed
  ultimately show ?thesis
    using assms(1) ok dom by (intro exI [of _ "w_pending ?v"]) (auto simp: flush_def rt_ok_def)
qed

theorem flush_last_word_witness:
  "\<exists>ms. w_emitted (flush (after_changes [(1, held_change [10]), (1, sold_change [10])] (demo_world demo_db))) =
      w_emitted (demo_world demo_db) @ map (\<lambda>(ev, b). Seats_message ev b) ms \<and>
    w_pending (flush (after_changes [(1, held_change [10]), (1, sold_change [10])] (demo_world demo_db))) = [] \<and>
    distinct (map fst ms) \<and> set (map fst ms) = set (map fst [(1, held_change [10]), (1, sold_change [10])]) \<and>
    list_all (\<lambda>(ev, b). batch_ok b \<and> (\<forall>x. batch_mark b x =
      last_mark (changes_of ev [(1, held_change [10]), (1, sold_change [10])]) x)) ms"
  by (rule flush_last_word) (simp_all add: demo_world_def)

end
