(* ===== verification/Outbox.thy ===== *)
theory Outbox
  imports Realtime
begin

text \<open>
  \<^verbatim>\<open>outbox/outbox.service.ts\<close>: events written in the transaction of the state change they
  announce, dispatched later in batches of 50 with an optimistic claim on the attempt counter.
  The mail transport is a parameter \<open>mail_ok\<close>: whether it accepts a given mail. The second half
  runs any number of dispatchers at once, each with the batch it read earlier, as a step
  relation.
\<close>

definition MAX_ATTEMPTS :: nat where "MAX_ATTEMPTS = 8"
definition BATCH_SIZE :: nat where "BATCH_SIZE = 50"

definition writeInTx :: "millis \<Rightarrow> outbox_payload \<Rightarrow> unit db_tx" where
  "writeInTx now p = bindT fresh_id (\<lambda>i. writeT (\<lambda>s. s\<lparr>outboxEvents := outboxEvents s @
     [\<lparr>ob_id = i, ob_payload = p, ob_attempts = 0, ob_createdAt = now, ob_processedAt = None\<rparr>]\<rparr>))"

lemma writeInTx_Inr [tx_simps]:
  "writeInTx now p s = Inr (u, s') \<longleftrightarrow>
     s' = s\<lparr>next_id := Suc (next_id s), outboxEvents := outboxEvents s @
       [\<lparr>ob_id = next_id s, ob_payload = p, ob_attempts = 0, ob_createdAt = now,
         ob_processedAt = None\<rparr>]\<rparr>"
  by (auto simp: writeInTx_def tx_simps)

section \<open>Handling one event\<close>

text \<open>The name of a ticket in the mail; a seated ticket adds its seat.\<close>

definition ticket_name :: "db \<Rightarrow> ticket \<Rightarrow> string" where
  "ticket_name s t =
     (let tier = (case find_ticket_type (t_ticketTypeId t) s of None \<Rightarrow> '''' | Some tt \<Rightarrow> tt_name tt)
      in case t_seatId t of
           None \<Rightarrow> tier
         | Some i \<Rightarrow> (case List.find (\<lambda>st. s_id st = i) (seats s) of
               None \<Rightarrow> tier
             | Some st \<Rightarrow> tier @ '' - '' @ seat_label st))"

definition send_mail :: "(mail \<Rightarrow> bool) \<Rightarrow> mail \<Rightarrow> unit handler" where
  "send_mail mail_ok m w =
     (if mail_ok m then (Inr (), w\<lparr>w_mails := w_mails w @ [m]\<rparr>) else (Inl Mail_failed, w))"

definition sendTicketEmail :: "(mail \<Rightarrow> bool) \<Rightarrow> id \<Rightarrow> unit handler" where
  "sendTicketEmail mail_ok orderId =
     bindR (queryR (find_order orderId)) (\<lambda>order. case order of
       None \<Rightarrow> returnR ()
     | Some r \<Rightarrow> bindR (queryR (\<lambda>s. map (ticket_name s) (filter (\<lambda>t. t_orderId t = o_id r) (tickets s))))
         (\<lambda>names. send_mail mail_ok (Order_confirmation (o_buyerEmail r) (o_id r) names)))"

definition sendRefundNotice :: "(mail \<Rightarrow> bool) \<Rightarrow> id \<Rightarrow> satang \<Rightarrow> unit handler" where
  "sendRefundNotice mail_ok orderId amount =
     bindR (queryR (find_order orderId)) (\<lambda>order. case order of
       None \<Rightarrow> returnR ()
     | Some r \<Rightarrow> send_mail mail_ok (Refund_notice (o_buyerEmail r) (o_id r) amount))"

definition handle :: "(mail \<Rightarrow> bool) \<Rightarrow> outbox_payload \<Rightarrow> unit handler" where
  "handle mail_ok p = (case p of
     Seats_sold ev xs \<Rightarrow> writeR (seatsChanged ev (sold_change xs))
   | Seats_released ev xs \<Rightarrow> writeR (seatsChanged ev (released_change xs))
   | Order_updated ord st \<Rightarrow> writeR (orderChanged ord st)
   | Ticket_issued ord \<Rightarrow> sendTicketEmail mail_ok ord
   | Order_refunded ord amount \<Rightarrow> sendRefundNotice mail_ok ord amount
   | Other_event _ \<Rightarrow> returnR ())"

section \<open>Dispatching a batch\<close>

definition pending :: "outbox_event \<Rightarrow> bool" where
  "pending e \<longleftrightarrow> ob_processedAt e = None \<and> ob_attempts e < MAX_ATTEMPTS"

definition pending_batch_rows :: "db \<Rightarrow> outbox_event list" where
  "pending_batch_rows s = take BATCH_SIZE (sort_key ob_createdAt (filter pending (outboxEvents s)))"

text \<open>The claim: \<^verbatim>\<open>updateMany\<close> on the id, unprocessed, with the attempt count that was read.\<close>

definition claimable :: "outbox_event \<Rightarrow> outbox_event \<Rightarrow> bool" where
  "claimable ev e \<longleftrightarrow> ob_id e = ob_id ev \<and> ob_processedAt e = None \<and> ob_attempts e = ob_attempts ev"

definition count_attempt :: "outbox_event \<Rightarrow> outbox_event" where
  "count_attempt e = e\<lparr>ob_attempts := ob_attempts e + 1\<rparr>"

definition claim_event :: "outbox_event \<Rightarrow> nat db_tx" where
  "claim_event ev s = Inr (count_where (claimable ev) (outboxEvents s),
     s\<lparr>outboxEvents := update_where (claimable ev) count_attempt (outboxEvents s)\<rparr>)"

definition finish_event :: "millis \<Rightarrow> id \<Rightarrow> unit db_tx" where
  "finish_event now i = writeT (\<lambda>s. s\<lparr>outboxEvents :=
     update_where (\<lambda>e. ob_id e = i) (\<lambda>e. e\<lparr>ob_processedAt := Some now\<rparr>) (outboxEvents s)\<rparr>)"

definition dispatch_one :: "millis \<Rightarrow> (mail \<Rightarrow> bool) \<Rightarrow> outbox_event \<Rightarrow> bool handler" where
  "dispatch_one now mail_ok ev =
     bindR (commit (claim_event ev)) (\<lambda>count.
     if count = 0 then returnR False
     else tryR
       (bindR (handle mail_ok (ob_payload ev)) (\<lambda>_.
        bindR (commit (finish_event now (ob_id ev))) (\<lambda>_. returnR True)))
       (\<lambda>e. returnR False))"

fun dispatch_all :: "millis \<Rightarrow> (mail \<Rightarrow> bool) \<Rightarrow> outbox_event list \<Rightarrow> nat handler" where
  "dispatch_all now mail_ok [] = returnR 0"
| "dispatch_all now mail_ok (ev # evs) =
     bindR (dispatch_one now mail_ok ev) (\<lambda>done1.
     bindR (dispatch_all now mail_ok evs) (\<lambda>n. returnR ((if done1 then 1 else 0) + n)))"

definition dispatchPending :: "millis \<Rightarrow> (mail \<Rightarrow> bool) \<Rightarrow> nat handler" where
  "dispatchPending now mail_ok =
     bindR (queryR pending_batch_rows) (\<lambda>evs. dispatch_all now mail_ok evs)"

interpretation event_claim: claim "claimable ev" count_attempt for ev
  by unfold_locales (auto simp: claimable_def count_attempt_def)

section \<open>One dispatcher\<close>

lemma handle_db [simp]: "w_db (snd (handle mail_ok p w)) = w_db w"
  by (cases p) (auto simp: handle_def handler_defs sendTicketEmail_def sendRefundNotice_def
      send_mail_def split: option.splits)

lemma handle_Inl: "fst (handle mail_ok p w) = Inl e \<Longrightarrow> e = Mail_failed"
  by (cases p) (auto simp: handle_def handler_defs sendTicketEmail_def sendRefundNotice_def
      send_mail_def split: option.splits if_splits)

lemma handle_ok: "(\<And>m. mail_ok m) \<Longrightarrow> fst (handle mail_ok p w) = Inr ()"
  by (cases p) (auto simp: handle_def handler_defs sendTicketEmail_def sendRefundNotice_def
      send_mail_def split: option.splits)

text \<open>
  What a dispatch does to the table, whatever the handler does: the claim, and the finish when
  the handler returned.
\<close>

definition dispatched :: "millis \<Rightarrow> bool \<Rightarrow> outbox_event \<Rightarrow> db \<Rightarrow> db" where
  "dispatched now good ev s = s\<lparr>outboxEvents :=
     (let rows = update_where (claimable ev) count_attempt (outboxEvents s)
      in if good \<and> count_where (claimable ev) (outboxEvents s) \<noteq> 0
         then update_where (\<lambda>e. ob_id e = ob_id ev) (\<lambda>e. e\<lparr>ob_processedAt := Some now\<rparr>) rows
         else rows)\<rparr>"

lemma dispatch_one_eq:
  obtains good where
    "w_db (snd (dispatch_one now mail_ok ev w)) = dispatched now good ev (w_db w)"
    and "fst (dispatch_one now mail_ok ev w) =
      Inr (good \<and> count_where (claimable ev) (outboxEvents (w_db w)) \<noteq> 0)"
    and "(\<And>m. mail_ok m) \<Longrightarrow> good"
proof -
  let ?w = "w\<lparr>w_db := (w_db w)\<lparr>outboxEvents :=
     update_where (claimable ev) count_attempt (outboxEvents (w_db w))\<rparr>\<rparr>"
  let ?r = "handle mail_ok (ob_payload ev) ?w"
  let ?good = "fst ?r = Inr ()"
  obtain r v where rv: "?r = (r, v)" by (cases ?r)
  then have v: "w_db v = w_db ?w" using handle_db [of mail_ok "ob_payload ev" ?w] by simp
  have "w_db (snd (dispatch_one now mail_ok ev w)) = dispatched now ?good ev (w_db w)"
    using v rv by (cases r) (auto simp: dispatch_one_def handler_defs claim_event_def finish_event_def
        writeT_def dispatched_def Let_def event_claim.lost_claim_changes_nothing split: sum.splits)
  moreover have "fst (dispatch_one now mail_ok ev w) =
      Inr (?good \<and> count_where (claimable ev) (outboxEvents (w_db w)) \<noteq> 0)"
    using v rv by (cases r) (auto simp: dispatch_one_def handler_defs claim_event_def finish_event_def
        writeT_def split: sum.splits)
  moreover have "(\<And>m. mail_ok m) \<Longrightarrow> ?good" by (rule handle_ok)
  ultimately show ?thesis using that by blast
qed

definition attempts_bounded :: "db \<Rightarrow> bool" where
  "attempts_bounded s \<longleftrightarrow> (\<forall>e \<in> set (outboxEvents s). ob_attempts e \<le> MAX_ATTEMPTS)"

lemma attempts_bounded_dispatched:
  assumes "attempts_bounded s" and "ob_attempts ev < MAX_ATTEMPTS"
  shows "attempts_bounded (dispatched now good ev s)"
  using assms
  by (auto simp: attempts_bounded_def dispatched_def Let_def row_simps claimable_def
      count_attempt_def)

lemma pending_batch_rows_pending: "e \<in> set (pending_batch_rows s) \<Longrightarrow> pending e \<and> e \<in> set (outboxEvents s)"
  by (auto simp: pending_batch_rows_def dest!: in_set_takeD)

lemma dispatch_all_attempts:
  assumes "\<And>e. e \<in> set evs \<Longrightarrow> ob_attempts e < MAX_ATTEMPTS"
  shows "keepsR (\<lambda>w. attempts_bounded (w_db w)) (dispatch_all now mail_ok evs)"
  using assms
proof (induction evs)
  case Nil
  then show ?case by (simp add: keepsR_return)
next
  case (Cons ev evs)
  have "keepsR (\<lambda>w. attempts_bounded (w_db w)) (dispatch_one now mail_ok ev)"
  proof (unfold keepsR_def, intro allI impI)
    fix w :: world assume "attempts_bounded (w_db w)"
    with Cons.prems show "attempts_bounded (w_db (snd (dispatch_one now mail_ok ev w)))"
      by (rule_tac dispatch_one_eq [of now mail_ok ev w]) (simp add: attempts_bounded_dispatched)
  qed
  with Cons show ?case by (auto intro!: keeps)
qed

lemma dispatchPending_attempts:
  "keepsR (\<lambda>w. attempts_bounded (w_db w)) (dispatchPending now mail_ok)"
proof (unfold keepsR_def, intro allI impI)
  fix w :: world assume "attempts_bounded (w_db w)"
  moreover have "keepsR (\<lambda>w. attempts_bounded (w_db w))
      (dispatch_all now mail_ok (pending_batch_rows (w_db w)))"
    by (rule dispatch_all_attempts) (auto dest: pending_batch_rows_pending simp: pending_def)
  ultimately show "attempts_bounded (w_db (snd (dispatchPending now mail_ok w)))"
    by (auto simp: keepsR_def dispatchPending_def handler_defs)
qed

text \<open>With a working transport a batch is processed completely.\<close>

definition outbox_keys :: "db \<Rightarrow> bool" where
  "outbox_keys s \<longleftrightarrow> distinct (map ob_id (outboxEvents s))"

lemma outbox_keys_dispatched: "outbox_keys s \<Longrightarrow> outbox_keys (dispatched now good ev s)"
  by (auto simp: outbox_keys_def dispatched_def Let_def count_attempt_def)

lemma claimable_self: "pending e \<Longrightarrow> claimable e e"
  by (simp add: pending_def claimable_def)

text \<open>A dispatch of one event leaves the rows of the others alone.\<close>

lemma dispatched_other:
  "e \<in> set (outboxEvents s) \<Longrightarrow> ob_id e \<noteq> ob_id ev \<Longrightarrow> e \<in> set (outboxEvents (dispatched now good ev s))"
  by (auto simp: dispatched_def Let_def row_simps claimable_def rev_image_eqI)

lemma dispatched_self:
  assumes "ev \<in> set (outboxEvents s)" and "pending ev"
  shows "\<exists>e \<in> set (outboxEvents (dispatched now True ev s)).
    ob_id e = ob_id ev \<and> ob_payload e = ob_payload ev \<and> ob_processedAt e = Some now"
proof -
  let ?rows = "update_where (claimable ev) count_attempt (outboxEvents s)"
  have cl: "claimable ev ev" using assms(2) by (rule claimable_self)
  with assms(1) have "count_where (claimable ev) (outboxEvents s) \<noteq> 0"
    by (auto simp: row_simps)
  then have out: "outboxEvents (dispatched now True ev s) =
      update_where (\<lambda>e. ob_id e = ob_id ev) (\<lambda>e. e\<lparr>ob_processedAt := Some now\<rparr>) ?rows"
    by (simp add: dispatched_def Let_def)
  have "count_attempt ev \<in> set ?rows"
    using assms(1) cl by (auto simp: row_simps rev_image_eqI)
  then have "(count_attempt ev)\<lparr>ob_processedAt := Some now\<rparr> \<in>
      set (outboxEvents (dispatched now True ev s))"
    by (auto simp: out row_simps count_attempt_def intro!: rev_image_eqI)
  then show ?thesis by (intro bexI) (auto simp: count_attempt_def)
qed

lemma dispatched_keeps_processed:
  assumes "e \<in> set (outboxEvents s)" and "ob_processedAt e \<noteq> None" and "outbox_keys s"
  shows "\<exists>e' \<in> set (outboxEvents (dispatched now good ev s)).
    ob_id e' = ob_id e \<and> ob_payload e' = ob_payload e \<and> ob_processedAt e' \<noteq> None"
proof (cases "ob_id e = ob_id ev")
  case False
  with assms(1) have "e \<in> set (outboxEvents (dispatched now good ev s))"
    by (rule dispatched_other)
  with assms(2) show ?thesis by blast
next
  case True
  have "\<not> claimable ev e'" if "e' \<in> set (outboxEvents s)" for e'
  proof
    assume "claimable ev e'"
    with True that assms have "e' = e"
      by (metis claimable_def distinct_map_key_eq outbox_keys_def)
    with \<open>claimable ev e'\<close> assms(2) show False by (simp add: claimable_def)
  qed
  then have "count_where (claimable ev) (outboxEvents s) = 0" by (simp add: row_simps)
  then have "dispatched now good ev s = s"
    by (simp add: dispatched_def event_claim.lost_claim_changes_nothing)
  with assms show ?thesis by auto
qed

section \<open>Any number of dispatchers\<close>

text \<open>
  Each dispatcher is an API process: it reads a batch, then for each event of it claims, runs the
  handler and finishes. The steps of different dispatchers interleave freely. \<open>runs\<close> counts, for
  each event, how often a handler was started: what the attempt counter is there to bound.
\<close>

record race =
  r_rows :: "outbox_event list"
  r_snap :: "nat \<Rightarrow> outbox_event list"
  r_run :: "nat \<Rightarrow> id option"
  runs :: "id \<Rightarrow> nat"

inductive race_step :: "race \<Rightarrow> race \<Rightarrow> bool" where
  read: "race_step s (s\<lparr>r_snap := (r_snap s)(d := take BATCH_SIZE (sort_key ob_createdAt
           (filter pending (r_rows s))))\<rparr>)"
| claim_won: "r_snap s d = ev # evs \<Longrightarrow> r_run s d = None \<Longrightarrow>
    count_where (claimable ev) (r_rows s) \<noteq> 0 \<Longrightarrow>
    race_step s (s\<lparr>r_rows := update_where (claimable ev) count_attempt (r_rows s),
      r_snap := (r_snap s)(d := evs), r_run := (r_run s)(d := Some (ob_id ev)),
      runs := (runs s)(ob_id ev := Suc (runs s (ob_id ev)))\<rparr>)"
| claim_lost: "r_snap s d = ev # evs \<Longrightarrow> r_run s d = None \<Longrightarrow>
    count_where (claimable ev) (r_rows s) = 0 \<Longrightarrow>
    race_step s (s\<lparr>r_snap := (r_snap s)(d := evs)\<rparr>)"
| handled: "r_run s d = Some i \<Longrightarrow>
    race_step s (s\<lparr>r_rows := update_where (\<lambda>e. ob_id e = i) (\<lambda>e. e\<lparr>ob_processedAt := Some now\<rparr>) (r_rows s),
      r_run := (r_run s)(d := None)\<rparr>)"
| failed: "r_run s d = Some i \<Longrightarrow> race_step s (s\<lparr>r_run := (r_run s)(d := None)\<rparr>)"

inductive_cases race_stepE: "race_step s t"

text \<open>A table just written, before any dispatcher ran.\<close>

definition race_start :: "race \<Rightarrow> bool" where
  "race_start s \<longleftrightarrow> distinct (map ob_id (r_rows s)) \<and> (\<forall>e \<in> set (r_rows s). ob_attempts e = 0) \<and>
     r_snap s = (\<lambda>_. []) \<and> r_run s = (\<lambda>_. None) \<and> runs s = (\<lambda>_. 0)"

definition race_inv :: "race \<Rightarrow> bool" where
  "race_inv s \<longleftrightarrow> distinct (map ob_id (r_rows s)) \<and>
     (\<forall>e \<in> set (r_rows s). runs s (ob_id e) = ob_attempts e \<and> ob_attempts e \<le> MAX_ATTEMPTS) \<and>
     (\<forall>d. \<forall>e \<in> set (r_snap s d). ob_attempts e < MAX_ATTEMPTS) \<and>
     (\<forall>i. i \<notin> ob_id ` set (r_rows s) \<longrightarrow> runs s i = 0)"

lemma map_id_claim [simp]:
  "map ob_id (update_where p count_attempt rows) = map ob_id rows"
  "map ob_id (update_where p (\<lambda>e. e\<lparr>ob_processedAt := t\<rparr>) rows) = map ob_id rows"
  by (simp_all add: count_attempt_def)

lemma image_id_claim [simp]:
  "ob_id ` set (update_where p count_attempt rows) = ob_id ` set rows"
  "ob_id ` set (update_where p (\<lambda>e. e\<lparr>ob_processedAt := t\<rparr>) rows) = ob_id ` set rows"
  by (metis list.set_map map_id_claim(1), metis list.set_map map_id_claim(2))

text \<open>Winning the claim starts one run and adds one attempt, to the one row with that id.\<close>

lemma race_inv_claim:
  assumes "race_inv s" and "r_snap s d = ev # evs" and "count_where (claimable ev) (r_rows s) \<noteq> 0"
    and "e \<in> set (update_where (claimable ev) count_attempt (r_rows s))"
  shows "((runs s)(ob_id ev := Suc (runs s (ob_id ev)))) (ob_id e) = ob_attempts e \<and>
    ob_attempts e \<le> MAX_ATTEMPTS"
proof -
  from assms(3) obtain c where c: "c \<in> set (r_rows s)" "claimable ev c"
    by (auto simp: row_simps)
  from assms(4) obtain e0 where e0: "e0 \<in> set (r_rows s)"
      "e = (if claimable ev e0 then count_attempt e0 else e0)"
    by (auto simp: row_simps)
  from assms(2) have "ev \<in> set (r_snap s d)" by simp
  with assms(1) have small: "ob_attempts ev < MAX_ATTEMPTS" by (simp add: race_inv_def)
  have run0: "runs s (ob_id e0) = ob_attempts e0" "ob_attempts e0 \<le> MAX_ATTEMPTS"
    using assms(1) e0(1) by (auto simp: race_inv_def)
  show ?thesis
  proof (cases "claimable ev e0")
    case True
    with e0 small run0 show ?thesis by (auto simp: claimable_def count_attempt_def)
  next
    case False
    with c e0(1) assms(1) have "ob_id e0 \<noteq> ob_id ev"
      by (metis claimable_def distinct_map_key_eq race_inv_def)
    with False e0 run0 show ?thesis by simp
  qed
qed

lemma snap_tail:
  assumes "race_inv s" and "r_snap s d = ev # evs" and "e \<in> set (((r_snap s)(d := evs)) d')"
  shows "ob_attempts e < MAX_ATTEMPTS"
proof -
  from assms(2,3) have "e \<in> set (r_snap s d) \<or> e \<in> set (r_snap s d')"
    by (auto split: if_splits)
  with assms(1) show ?thesis by (auto simp only: race_inv_def)
qed

lemma race_inv_step: "race_step s t \<Longrightarrow> race_inv s \<Longrightarrow> race_inv t"
proof (induction rule: race_step.induct)
  case (read s d)
  then show ?case
    by (auto simp: race_inv_def pending_def dest: in_set_takeD)
next
  case (claim_won s d ev evs)
  from claim_won(3) obtain c where c: "c \<in> set (r_rows s)" "claimable ev c"
    by (auto simp: row_simps)
  then have "ob_id ev \<in> ob_id ` set (r_rows s)" by (metis claimable_def imageI)
  with claim_won(4) race_inv_claim [OF claim_won(4,1,3)] snap_tail [OF claim_won(4,1)]
  show ?case by (simp add: race_inv_def)
next
  case (claim_lost s d ev evs)
  with snap_tail [OF claim_lost(4,1)] show ?case by (simp add: race_inv_def)
next
  case (handled s d i now)
  let ?rows = "update_where (\<lambda>e. ob_id e = i) (\<lambda>e. e\<lparr>ob_processedAt := Some now\<rparr>) (r_rows s)"
  have "runs s (ob_id e) = ob_attempts e \<and> ob_attempts e \<le> MAX_ATTEMPTS" if "e \<in> set ?rows" for e
    using that handled(2) by (auto simp: race_inv_def row_simps)
  with handled(2) show ?case by (simp add: race_inv_def)
next
  case (failed s d i)
  then show ?case by (auto simp: race_inv_def)
qed

interpretation outbox_race: invariant_system race_start race_step race_inv
proof unfold_locales
  show "race_start s \<Longrightarrow> race_inv s" for s
    by (auto simp: race_start_def race_inv_def)
qed (rule race_inv_step)

section \<open>Properties\<close>

text \<open>
  C6: However many dispatchers run and however their reads, claims, completions and crashes interleave,
  the handler of one outbox event is run at most eight times.
\<close>

theorem outbox_runs_bounded:
  assumes "race_start s" and "race_step\<^sup>*\<^sup>* s t"
  shows "runs t i \<le> 8"
proof -
  have "race_inv t" by (rule outbox_race.inv_reachable [OF assms])
  thus ?thesis by (cases "i \<in> ob_id ` set (r_rows t)") (auto simp: race_inv_def MAX_ATTEMPTS_def)
qed

definition demo_event_row :: outbox_event where
  "demo_event_row = \<lparr>ob_id = 40, ob_payload = Order_updated 20 Paid, ob_attempts = 0, ob_createdAt = 0,
     ob_processedAt = None\<rparr>"

definition demo_race :: race where
  "demo_race = \<lparr>r_rows = [demo_event_row], r_snap = (\<lambda>_. []), r_run = (\<lambda>_. None), runs = (\<lambda>_. 0)\<rparr>"

text \<open>Two dispatchers read the same row; the first claims it.\<close>

definition demo_raced :: race where
  "demo_raced = \<lparr>r_rows = [count_attempt demo_event_row],
     r_snap = (((\<lambda>_. [])(0 := [demo_event_row]))(1 := [demo_event_row]))(0 := []),
     r_run = (\<lambda>_. None)(0 := Some 40), runs = (\<lambda>_. 0)(40 := Suc 0)\<rparr>"

lemma demo_race_runs: "race_step\<^sup>*\<^sup>* demo_race demo_raced"
proof -
  have snap: "take BATCH_SIZE (sort_key ob_createdAt (filter pending [demo_event_row])) = [demo_event_row]"
    by (simp add: BATCH_SIZE_def pending_def demo_event_row_def MAX_ATTEMPTS_def)
  let ?a = "demo_race\<lparr>r_snap := (r_snap demo_race)(0 := [demo_event_row])\<rparr>"
  let ?b = "?a\<lparr>r_snap := (r_snap ?a)(1 := [demo_event_row])\<rparr>"
  have "race_step demo_race ?a" using race_step.read [of demo_race 0] snap by (simp add: demo_race_def)
  moreover have "race_step ?a ?b" using race_step.read [of ?a 1] snap by (simp add: demo_race_def)
  moreover have "race_step ?b demo_raced"
    using race_step.claim_won [of ?b 0 demo_event_row "[]"]
    by (simp add: demo_race_def demo_raced_def demo_event_row_def claimable_def)
  ultimately show ?thesis by (meson r_into_rtranclp rtranclp_trans)
qed

theorem outbox_runs_bounded_witness: "runs demo_raced 40 \<le> 8"
  by (rule outbox_runs_bounded [OF _ demo_race_runs]) (simp add: race_start_def demo_race_def demo_event_row_def)

lemma dispatch_all_good:
  assumes "\<And>m. mail_ok m" and "distinct (map ob_id evs)"
    and "\<And>e. e \<in> set evs \<Longrightarrow> e \<in> set (outboxEvents (w_db w)) \<and> pending e"
  shows "fst (dispatch_all now mail_ok evs w) = Inr (length evs) \<and>
    (\<forall>e \<in> set (outboxEvents (w_db w)). ob_id e \<notin> ob_id ` set evs \<longrightarrow>
       e \<in> set (outboxEvents (w_db (snd (dispatch_all now mail_ok evs w))))) \<and>
    (\<forall>ev \<in> set evs. \<exists>e \<in> set (outboxEvents (w_db (snd (dispatch_all now mail_ok evs w)))).
       ob_id e = ob_id ev \<and> ob_payload e = ob_payload ev \<and> ob_processedAt e = Some now)"
  using assms(2,3)
proof (induction evs arbitrary: w)
  case Nil
  then show ?case by (simp add: returnR_def)
next
  case (Cons ev evs)
  obtain r w1 where one: "dispatch_one now mail_ok ev w = (r, w1)" by (cases "dispatch_one now mail_ok ev w")
  from Cons.prems(2) have ev: "ev \<in> set (outboxEvents (w_db w))" "pending ev" by simp_all
  hence hit: "count_where (claimable ev) (outboxEvents (w_db w)) \<noteq> 0"
    using claimable_self by (auto simp: count_where_0)
  obtain good where db0: "w_db (snd (dispatch_one now mail_ok ev w)) = dispatched now good ev (w_db w)"
    and r0: "fst (dispatch_one now mail_ok ev w) = Inr (good \<and> count_where (claimable ev) (outboxEvents (w_db w)) \<noteq> 0)"
    and good: "(\<And>m. mail_ok m) \<Longrightarrow> good"
    by (rule dispatch_one_eq [of now mail_ok ev w]) blast
  from db0 r0 one have db: "w_db w1 = dispatched now good ev (w_db w)"
    and r: "r = Inr (good \<and> count_where (claimable ev) (outboxEvents (w_db w)) \<noteq> 0)" by simp_all
  from good assms(1) have good by blast
  have there: "e \<in> set (outboxEvents (w_db w1)) \<and> pending e" if "e \<in> set evs" for e
  proof -
    have "ob_id e \<noteq> ob_id ev" using Cons.prems(1) that by (auto simp: image_iff)
    with that Cons.prems(2) [of e] show ?thesis unfolding db by (auto intro: dispatched_other)
  qed
  have dist: "distinct (map ob_id evs)" using Cons.prems(1) by simp
  obtain rs w2 where rest: "dispatch_all now mail_ok evs w1 = (rs, w2)" by (cases "dispatch_all now mail_ok evs w1")
  note IH = Cons.IH [OF dist there, simplified rest fst_conv snd_conv]
  obtain q where q: "q \<in> set (outboxEvents (w_db w1))" "ob_id q = ob_id ev" "ob_payload q = ob_payload ev"
      "ob_processedAt q = Some now"
    using dispatched_self [OF ev, of now] db \<open>good\<close> by auto
  have "q \<in> set (outboxEvents (w_db w2))" using IH q Cons.prems(1) by auto
  moreover have "e \<in> set (outboxEvents (w_db w2))"
    if "e \<in> set (outboxEvents (w_db w))" "ob_id e \<notin> ob_id ` set (ev # evs)" for e
    using that IH dispatched_other [of e "w_db w" ev now good] db by auto
  ultimately show ?case
    using one rest r IH q hit \<open>good\<close> by (auto simp: bindR_def returnR_def)
qed

text \<open>
  C26: When mail is being delivered, one dispatch run processes the whole batch it read: it counts
  every event of the batch, and each of them is stamped as processed, so that it is never run again.
\<close>

theorem dispatch_batch_processed:
  assumes "outbox_keys (w_db w)" and "\<forall>m. mail_ok m"
  shows "fst (dispatchPending now mail_ok w) = Inr (length (pending_batch_rows (w_db w))) \<and>
    list_all (\<lambda>ev. \<exists>e \<in> set (outboxEvents (w_db (snd (dispatchPending now mail_ok w)))).
      ob_id e = ob_id ev \<and> ob_payload e = ob_payload ev \<and> ob_processedAt e = Some now \<and> \<not> pending e)
     (pending_batch_rows (w_db w))"
proof -
  let ?evs = "pending_batch_rows (w_db w)"
  have "distinct (map ob_id (sort_key ob_createdAt (filter pending (outboxEvents (w_db w)))))"
    using assms(1) by (simp add: outbox_keys_def distinct_map inj_on_def)
  hence "distinct (map ob_id ?evs)" by (simp add: pending_batch_rows_def take_map [symmetric])
  from dispatch_all_good [OF _ this, of mail_ok w now] assms(2) pending_batch_rows_pending [of _ "w_db w"]
  show ?thesis
    by (simp add: dispatchPending_def bindR_def queryR_def list_all_iff pending_def) blast
qed

theorem dispatch_batch_processed_witness:
  "fst (dispatchPending 5 (\<lambda>m. True) (demo_world (demo_db\<lparr>outboxEvents := [demo_event_row]\<rparr>))) =
      Inr (length (pending_batch_rows (w_db (demo_world (demo_db\<lparr>outboxEvents := [demo_event_row]\<rparr>))))) \<and>
    list_all (\<lambda>ev. \<exists>e \<in> set (outboxEvents (w_db (snd (dispatchPending 5 (\<lambda>m. True)
        (demo_world (demo_db\<lparr>outboxEvents := [demo_event_row]\<rparr>)))))).
      ob_id e = ob_id ev \<and> ob_payload e = ob_payload ev \<and> ob_processedAt e = Some 5 \<and> \<not> pending e)
     (pending_batch_rows (w_db (demo_world (demo_db\<lparr>outboxEvents := [demo_event_row]\<rparr>))))"
  by (rule dispatch_batch_processed) (simp_all add: outbox_keys_def demo_world_def)

end
