(* ===== verification/Paymock_Client.thy ===== *)
theory Paymock_Client
  imports Samples
begin

text \<open>
  \<^verbatim>\<open>paymock-client/paymock-client.service.ts\<close>. The provider is a service outside the program: what
  it answers to one call is a parameter of every definition that calls it. The model keeps the
  requests that were sent.
\<close>

datatype 'a http_answer =
    Network_failure
  | Http_response nat "'a option"  \<comment> \<open>the status code and the parsed body\<close>

record intent =
  in_intentId :: string
  in_checkoutUrl :: string

definition response_ok :: "nat \<Rightarrow> bool" where
  "response_ok st \<longleftrightarrow> 200 \<le> st \<and> st < 300"

definition answer_body :: "'a http_answer \<Rightarrow> error + 'a" where
  "answer_body ans = (case ans of
     Network_failure \<Rightarrow> Inl Provider_unavailable
   | Http_response st body \<Rightarrow>
       if response_ok st then (case body of None \<Rightarrow> Inl Provider_unavailable | Some a \<Rightarrow> Inr a)
       else Inl Provider_unavailable)"

definition createIntent :: "intent http_answer \<Rightarrow> id \<Rightarrow> satang \<Rightarrow> id \<Rightarrow> intent handler" where
  "createIntent ans orderId amount guestToken w =
     (answer_body ans, w\<lparr>w_calls := w_calls w @ [Create_intent orderId amount guestToken]\<rparr>)"

text \<open>The refund call answers with the provider's refund id.\<close>

definition createRefund :: "string http_answer \<Rightarrow> string \<Rightarrow> satang \<Rightarrow> id \<Rightarrow> string handler" where
  "createRefund ans intentId amount reference w =
     (answer_body ans, w\<lparr>w_calls := w_calls w @ [Create_refund intentId amount reference]\<rparr>)"

lemma answer_body_Inl: "answer_body ans = Inl e \<Longrightarrow> e = Provider_unavailable"
  by (auto simp: answer_body_def split: http_answer.splits option.splits if_splits)

lemma createIntent_keeps [keeps]: "keepsR (\<lambda>w. P (w_db w)) (createIntent ans i a g)"
  by (simp add: keepsR_def createIntent_def)

lemma createRefund_keeps [keeps]: "keepsR (\<lambda>w. P (w_db w)) (createRefund ans i a r)"
  by (simp add: keepsR_def createRefund_def)

end
