(* ===== verification/Orders.thy ===== *)
theory Orders
  imports Outbox Paymock_Client
begin

text \<open>
  \<^verbatim>\<open>orders/orders.service.ts\<close>, with its DTO and the jobs of its queue. \<open>create\<close> is split where
  the code is: the checks and reads before the transaction compute an \<open>order_plan\<close>, the
  transaction \<open>create_tx\<close> executes it, the payment leg follows. The plan is what another request
  may have made stale by the time the transaction runs.
\<close>

definition PAYMENT_WINDOW_MS :: millis where "PAYMENT_WINDOW_MS = 15 * 60000"
definition RECONCILE_BATCH_SIZE :: nat where "RECONCILE_BATCH_SIZE = 100"

section \<open>Input\<close>

record order_item_input =
  oi_ticketTypeId :: id
  oi_quantity :: int

record create_order_dto =
  d_items :: "order_item_input list option"
  d_seatIds :: "id list option"
  d_buyerEmail :: string
  d_buyerName :: string

text \<open>The class-validator decorators; \<open>is_email\<close> is the library's e-mail check.\<close>

definition valid_order_item :: "order_item_input \<Rightarrow> bool" where
  "valid_order_item it \<longleftrightarrow> 1 \<le> oi_quantity it \<and> oi_quantity it \<le> 20"

definition valid_order_dto :: "(string \<Rightarrow> bool) \<Rightarrow> create_order_dto \<Rightarrow> bool" where
  "valid_order_dto is_email dto \<longleftrightarrow>
     (case d_items dto of None \<Rightarrow> True
      | Some its \<Rightarrow> 1 \<le> length its \<and> length its \<le> 5 \<and> list_all valid_order_item its) \<and>
     (case d_seatIds dto of None \<Rightarrow> True | Some xs \<Rightarrow> 1 \<le> length xs \<and> length xs \<le> 8) \<and>
     is_email (d_buyerEmail dto) \<and>
     1 \<le> length (d_buyerName dto) \<and> length (d_buyerName dto) \<le> 80"

record create_params =
  cp_eventId :: id
  cp_buyerUserId :: "id option"
  cp_idempotencyKey :: "string option"
  cp_holderKey :: "string option"

section \<open>Before the transaction\<close>

definition findByIdempotencyKey :: "id \<Rightarrow> string option \<Rightarrow> db \<Rightarrow> order option" where
  "findByIdempotencyKey ev k s =
     (if truthy k then List.find (\<lambda>r. o_eventId r = ev \<and> o_idempotencyKey r = k) (orders s) else None)"

definition find_type :: "id \<Rightarrow> ticket_type list \<Rightarrow> ticket_type option" where
  "find_type i types = List.find (\<lambda>tt. tt_id tt = i) types"

text \<open>The loop over the GA items, with the set of types seen so far.\<close>

fun check_items :: "ticket_type list \<Rightarrow> id list \<Rightarrow> order_item_input list \<Rightarrow> error + unit" where
  "check_items types seen [] = Inr ()"
| "check_items types seen (it # its) =
     (case find_type (oi_ticketTypeId it) types of
        None \<Rightarrow> Inl (Bad_request Unknown_ticket_type)
      | Some tt \<Rightarrow>
          if tt_kind tt \<noteq> Ga then Inl (Bad_request Unknown_ticket_type)
          else if oi_ticketTypeId it \<in> set seen then Inl (Bad_request Duplicate_ticket_type)
          else if oi_quantity it > tt_maxPerOrder tt
            then Inl (Bad_request (At_most_per_order (tt_maxPerOrder tt)))
          else check_items types (oi_ticketTypeId it # seen) its)"

text \<open>\<^verbatim>\<open>typesById.get(id)!.priceSatang\<close>, after the loop has found the type.\<close>

definition price_in :: "ticket_type list \<Rightarrow> id \<Rightarrow> satang" where
  "price_in types i = (case find_type i types of None \<Rightarrow> 0 | Some tt \<Rightarrow> tt_priceSatang tt)"

definition item_of_input :: "ticket_type list \<Rightarrow> order_item_input \<Rightarrow> order_item" where
  "item_of_input types it = \<lparr>i_ticketTypeId = oi_ticketTypeId it, i_quantity = oi_quantity it,
     i_unitPriceSatang = price_in types (oi_ticketTypeId it)\<rparr>"

text \<open>\<^verbatim>\<open>seatGroups\<close>: seats per ticket type, with the unit price of the first seat of the group.\<close>

definition group_seat :: "(id \<Rightarrow> satang) \<Rightarrow> seat \<Rightarrow> (id \<times> int \<times> satang) list \<Rightarrow> (id \<times> int \<times> satang) list" where
  "group_seat price st m =
     (let (n, p) = (case map_of m (s_ticketTypeId st) of None \<Rightarrow> (0, price (s_ticketTypeId st)) | Some g \<Rightarrow> g)
      in AList.update (s_ticketTypeId st) (n + 1, p) m)"

definition seat_groups :: "(id \<Rightarrow> satang) \<Rightarrow> seat list \<Rightarrow> (id \<times> int \<times> satang) list" where
  "seat_groups price sts = fold (group_seat price) sts []"

definition item_of_group :: "id \<times> int \<times> satang \<Rightarrow> order_item" where
  "item_of_group g = (case g of (t, n, p) \<Rightarrow>
     \<lparr>i_ticketTypeId = t, i_quantity = n, i_unitPriceSatang = p\<rparr>)"

record order_plan =
  pl_eventId :: id
  pl_buyerUserId :: "id option"
  pl_buyerEmail :: string
  pl_buyerName :: string
  pl_key :: "string option"
  pl_holderKey :: "string option"
  pl_ga :: "order_item list"
  pl_seatIds :: "id list"
  pl_seats :: "seat list"
  pl_groups :: "order_item list"
  pl_total :: satang
  pl_expiresAt :: "millis option"

definition requiresPayment :: "order_plan \<Rightarrow> bool" where
  "requiresPayment pl \<longleftrightarrow> pl_total pl > 0"

definition item_total :: "order_item \<Rightarrow> satang" where
  "item_total it = i_quantity it * i_unitPriceSatang it"

definition seat_price :: "db \<Rightarrow> id \<Rightarrow> satang" where
  "seat_price s i = (case find_ticket_type i s of None \<Rightarrow> 0 | Some tt \<Rightarrow> tt_priceSatang tt)"

definition plan_order :: "clock \<Rightarrow> create_order_dto \<Rightarrow> create_params \<Rightarrow> db \<Rightarrow> error + order_plan" where
  "plan_order clk dto cp s =
     (let ev = cp_eventId cp;
          gaItems = (case d_items dto of None \<Rightarrow> [] | Some its \<Rightarrow> its);
          seatIds = js_set (case d_seatIds dto of None \<Rightarrow> [] | Some xs \<Rightarrow> xs)
      in case List.find (\<lambda>e. ev_id e = ev \<and> ev_status e = Published) (events s) of
           None \<Rightarrow> Inl (Not_found Event_not_found)
         | Some _ \<Rightarrow>
      (let types = filter (\<lambda>tt. tt_eventId tt = ev) (ticketTypes s)
       in case check_items types [] gaItems of
            Inl e \<Rightarrow> Inl e
          | Inr _ \<Rightarrow>
      (let sts = (if seatIds = [] then []
                  else filter (\<lambda>st. s_id st \<in> set seatIds \<and> s_eventId st = ev) (seats s))
       in if length sts \<noteq> length seatIds then Inl (Bad_request Unknown_seat)
          else
      (let ga = map (item_of_input types) gaItems;
           amount = sum_by item_total ga + sum_by (\<lambda>st. seat_price s (s_ticketTypeId st)) sts
       in Inr \<lparr>pl_eventId = ev, pl_buyerUserId = cp_buyerUserId cp,
               pl_buyerEmail = to_lower (trim (d_buyerEmail dto)),
               pl_buyerName = trim (d_buyerName dto), pl_key = cp_idempotencyKey cp,
               pl_holderKey = cp_holderKey cp, pl_ga = ga, pl_seatIds = seatIds, pl_seats = sts,
               pl_groups = map item_of_group (seat_groups (seat_price s) sts), pl_total = amount,
               pl_expiresAt = (if amount > 0 then Some (app_now clk + PAYMENT_WINDOW_MS) else None)\<rparr>))))"

section \<open>The transaction\<close>

text \<open>\<^verbatim>\<open>UPDATE ticket_types SET remaining = remaining - q WHERE id = .. AND remaining >= q\<close>.\<close>

definition claim_ga :: "order_item \<Rightarrow> unit db_tx" where
  "claim_ga it s =
     (let hit = (\<lambda>tt. tt_id tt = i_ticketTypeId it \<and> tt_remaining tt \<ge> i_quantity it)
      in if count_where hit (ticketTypes s) \<noteq> 1 then Inl (Conflict (Sold_out (i_ticketTypeId it)))
         else Inr ((), s\<lparr>ticketTypes := update_where hit
                (\<lambda>tt. tt\<lparr>tt_remaining := tt_remaining tt - i_quantity it\<rparr>) (ticketTypes s)\<rparr>))"

definition my_live_hold :: "clock \<Rightarrow> order_plan \<Rightarrow> hold \<Rightarrow> bool" where
  "my_live_hold clk pl h \<longleftrightarrow> h_eventId h = pl_eventId pl \<and> Some (h_holderKey h) = pl_holderKey pl \<and>
     h_expiresAt h > db_now clk \<and> h_seatId h \<in> set (pl_seatIds pl)"

text \<open>Paid orders keep the holds, bound to the order and with the payment window as expiry.\<close>

definition bind_holds :: "clock \<Rightarrow> order_plan \<Rightarrow> id \<Rightarrow> unit db_tx" where
  "bind_holds clk pl orderId =
     bindT (readT (\<lambda>s. count_where (my_live_hold clk pl) (holds s))) (\<lambda>bound.
     bindT (guardT (bound = length (pl_seatIds pl)) (Conflict Hold_expired)) (\<lambda>_.
     writeT (\<lambda>s. s\<lparr>holds := update_where (my_live_hold clk pl)
       (\<lambda>h. h\<lparr>h_orderId := Some orderId,
              h_expiresAt := (case pl_expiresAt pl of None \<Rightarrow> h_expiresAt h | Some x \<Rightarrow> x)\<rparr>) (holds s)\<rparr>)))"

text \<open>Free orders consume them.\<close>

definition consume_holds :: "clock \<Rightarrow> order_plan \<Rightarrow> unit db_tx" where
  "consume_holds clk pl =
     bindT (readT (\<lambda>s. count_where (my_live_hold clk pl) (holds s))) (\<lambda>consumed.
     bindT (guardT (consumed = length (pl_seatIds pl)) (Conflict Hold_expired)) (\<lambda>_.
     bindT (writeT (\<lambda>s. s\<lparr>holds := delete_where (my_live_hold clk pl) (holds s)\<rparr>)) (\<lambda>_.
     for_eachT (\<lambda>g. add_remaining (i_ticketTypeId g) (- i_quantity g)) (pl_groups pl))))"

text \<open>One row of \<^verbatim>\<open>ticket.createMany\<close>: the ticket type and, for a seated ticket, the seat.\<close>

type_synonym ticket_spec = "id \<times> id option"

definition ga_specs :: "order_item list \<Rightarrow> ticket_spec list" where
  "ga_specs its = concat (map (\<lambda>it. replicate (nat (i_quantity it)) (i_ticketTypeId it, None)) its)"

definition seat_specs :: "seat list \<Rightarrow> ticket_spec list" where
  "seat_specs sts = map (\<lambda>st. (s_ticketTypeId st, Some (s_id st))) sts"

definition issue_ticket :: "millis \<Rightarrow> id \<Rightarrow> id \<Rightarrow> string \<Rightarrow> string \<Rightarrow> ticket_spec \<Rightarrow> unit db_tx" where
  "issue_ticket now orderId ev email name sp =
     bindT fresh_id (\<lambda>i. bindT fresh_id (\<lambda>qr.
     insert_ticket \<lparr>t_id = i, t_orderId = orderId, t_eventId = ev, t_ticketTypeId = fst sp,
       t_seatId = snd sp, t_attendeeEmail = email, t_attendeeName = name, t_qrToken = qr,
       t_status = Issued, t_refundId = None, t_checkedInAt = None, t_createdAt = now\<rparr>))"

text \<open>The row of \<^verbatim>\<open>tx.order.create\<close>.\<close>

definition new_order :: "clock \<Rightarrow> order_plan \<Rightarrow> id \<Rightarrow> id \<Rightarrow> order" where
  "new_order clk pl orderId guestToken =
     \<lparr>o_id = orderId, o_eventId = pl_eventId pl, o_buyerUserId = pl_buyerUserId pl,
      o_buyerEmail = pl_buyerEmail pl, o_buyerName = pl_buyerName pl,
      o_status = (if requiresPayment pl then Awaiting_payment else Paid),
      o_totalSatang = pl_total pl, o_refundedSatang = 0, o_idempotencyKey = pl_key pl,
      o_guestToken = guestToken, o_expiresAt = pl_expiresAt pl, o_createdAt = db_now clk,
      o_items = pl_ga pl @ pl_groups pl\<rparr>"

text \<open>A free order gets its tickets at once.\<close>

definition issue_free :: "clock \<Rightarrow> order_plan \<Rightarrow> id \<Rightarrow> unit db_tx" where
  "issue_free clk pl orderId =
     bindT (for_eachT (issue_ticket (db_now clk) orderId (pl_eventId pl) (pl_buyerEmail pl) (pl_buyerName pl))
              (ga_specs (pl_ga pl) @ seat_specs (pl_seats pl))) (\<lambda>_.
     bindT (writeInTx (db_now clk) (Ticket_issued orderId)) (\<lambda>_.
     whenT (pl_seatIds pl \<noteq> []) (writeInTx (db_now clk) (Seats_sold (pl_eventId pl) (pl_seatIds pl)))))"

definition create_tx :: "clock \<Rightarrow> order_plan \<Rightarrow> id db_tx" where
  "create_tx clk pl =
     bindT (for_eachT claim_ga (pl_ga pl)) (\<lambda>_.
     bindT fresh_id (\<lambda>orderId.
     bindT fresh_id (\<lambda>guestToken.
     bindT (insert_order (new_order clk pl orderId guestToken)) (\<lambda>_.
     bindT (whenT (pl_seatIds pl \<noteq> [])
        (if requiresPayment pl then bind_holds clk pl orderId else consume_holds clk pl)) (\<lambda>_.
     bindT (whenT (\<not> requiresPayment pl) (issue_free clk pl orderId)) (\<lambda>_.
     returnT orderId))))))"

section \<open>Releasing an order\<close>

definition claim_release :: "id \<Rightarrow> order \<Rightarrow> bool" where
  "claim_release orderId r \<longleftrightarrow> o_id r = orderId \<and> o_status r = Awaiting_payment"

text \<open>The seats and the announcements, once the order is claimed and its stock is back.\<close>

definition release_seats :: "millis \<Rightarrow> order \<Rightarrow> order_status \<Rightarrow> unit db_tx" where
  "release_seats now order finalStatus =
     bindT (readT (\<lambda>s. map h_seatId (filter (\<lambda>h. h_orderId h = Some (o_id order)) (holds s)))) (\<lambda>released.
     bindT (writeT (\<lambda>s. s\<lparr>holds := delete_where (\<lambda>h. h_orderId h = Some (o_id order)) (holds s)\<rparr>)) (\<lambda>_.
     bindT (whenT (released \<noteq> []) (writeInTx now (Seats_released (o_eventId order) released))) (\<lambda>_.
     writeInTx now (Order_updated (o_id order) finalStatus))))"

definition releaseOrderInventoryInTx :: "millis \<Rightarrow> id \<Rightarrow> order_status \<Rightarrow> bool db_tx" where
  "releaseOrderInventoryInTx now orderId finalStatus =
     bindT (readT (\<lambda>s. count_where (claim_release orderId) (orders s))) (\<lambda>count.
     bindT (writeT (\<lambda>s. s\<lparr>orders := update_where (claim_release orderId)
        (\<lambda>r. r\<lparr>o_status := finalStatus\<rparr>) (orders s)\<rparr>)) (\<lambda>_.
     if count = 0 then returnT False
     else
       bindT (readT (find_order orderId)) (\<lambda>found.
       bindT (someT (Prisma P2025) found) (\<lambda>order.
       bindT (readT (\<lambda>s. filter (is_ga_item s) (o_items order))) (\<lambda>gaItems.
       bindT (for_eachT (\<lambda>it. add_remaining (i_ticketTypeId it) (i_quantity it)) gaItems) (\<lambda>_.
       bindT (release_seats now order finalStatus) (\<lambda>_. returnT True)))))))"

definition expireOrder :: "millis \<Rightarrow> id \<Rightarrow> order_status \<Rightarrow> unit handler" where
  "expireOrder now orderId finalStatus =
     bindR (commit (releaseOrderInventoryInTx now orderId finalStatus)) (\<lambda>_. returnR ())"

definition is_stranded :: "millis \<Rightarrow> order \<Rightarrow> bool" where
  "is_stranded now r \<longleftrightarrow> o_status r = Awaiting_payment \<and>
     (case o_expiresAt r of None \<Rightarrow> False | Some x \<Rightarrow> x \<le> now)"

definition stranded :: "millis \<Rightarrow> db \<Rightarrow> id list" where
  "stranded now s = map o_id (take RECONCILE_BATCH_SIZE
     (sort_key (\<lambda>r. case o_expiresAt r of None \<Rightarrow> 0 | Some x \<Rightarrow> x) (filter (is_stranded now) (orders s))))"

fun reconcile_loop :: "millis \<Rightarrow> id list \<Rightarrow> nat handler" where
  "reconcile_loop now [] = returnR 0"
| "reconcile_loop now (i # is) =
     bindR (commit (releaseOrderInventoryInTx now i Expired)) (\<lambda>released.
     bindR (reconcile_loop now is) (\<lambda>n. returnR ((if released then 1 else 0) + n)))"

definition reconcileExpired :: "millis \<Rightarrow> nat handler" where
  "reconcileExpired now = bindR (queryR (stranded now)) (\<lambda>is. reconcile_loop now is)"

text \<open>\<^verbatim>\<open>queues/orders-expiry.worker.ts\<close>: the two kinds of job on the queue.\<close>

datatype order_job = Expire_job id | Reconcile_job

fun run_order_job :: "millis \<Rightarrow> order_job \<Rightarrow> unit handler" where
  "run_order_job now (Expire_job i) = expireOrder now i Expired"
| "run_order_job now Reconcile_job = bindR (reconcileExpired now) (\<lambda>_. returnR ())"

section \<open>The handler\<close>

definition enqueueExpiry :: "id \<Rightarrow> millis \<Rightarrow> world \<Rightarrow> world" where
  "enqueueExpiry orderId delay w = w\<lparr>w_jobs := w_jobs w @ [(orderId, delay)]\<rparr>"

definition payment_leg :: "clock \<Rightarrow> intent http_answer \<Rightarrow> id \<Rightarrow> satang \<Rightarrow> unit handler" where
  "payment_leg clk ans orderId amount =
     tryR
       (bindR (queryR (find_order orderId)) (\<lambda>found.
        bindR (someR (Prisma P2025) found) (\<lambda>order.
        bindR (createIntent ans orderId amount (o_guestToken order)) (\<lambda>intent.
        bindR (commit (insert_payment \<lparr>p_orderId = orderId, p_providerIntentId = in_intentId intent,
           p_checkoutUrl = in_checkoutUrl intent, p_status = P_requires_action,
           p_amountSatang = amount\<rparr>)) (\<lambda>_.
        writeR (enqueueExpiry orderId PAYMENT_WINDOW_MS))))))
       (\<lambda>e. bindR (expireOrder (db_now clk) orderId Canceled) (\<lambda>_. throwR e))"

definition create :: "clock \<Rightarrow> intent http_answer \<Rightarrow> create_order_dto \<Rightarrow> create_params \<Rightarrow>
    (order \<times> bool) handler" where
  "create clk ans dto cp =
     bindR (guardR ((case d_items dto of None \<Rightarrow> [] | Some its \<Rightarrow> its) \<noteq> [] \<or>
                    (case d_seatIds dto of None \<Rightarrow> [] | Some xs \<Rightarrow> xs) \<noteq> [])
              (Bad_request Pick_at_least_one)) (\<lambda>_.
     bindR (guardR ((case d_seatIds dto of None \<Rightarrow> [] | Some xs \<Rightarrow> xs) = [] \<or>
                    truthy (cp_holderKey cp))
              (Bad_request Hold_key_required)) (\<lambda>_.
     bindR (queryR (findByIdempotencyKey (cp_eventId cp) (cp_idempotencyKey cp))) (\<lambda>existing.
     case existing of
       Some r \<Rightarrow> returnR (r, True)
     | None \<Rightarrow>
       bindR (askR (plan_order clk dto cp)) (\<lambda>pl.
       bindR (tryR (bindR (commit (create_tx clk pl)) (\<lambda>i. returnR (Inl i)))
          (\<lambda>e. if truthy (cp_idempotencyKey cp) \<and> e = Prisma P2002 then
                 bindR (queryR (findByIdempotencyKey (cp_eventId cp) (cp_idempotencyKey cp))) (\<lambda>again.
                 case again of Some r \<Rightarrow> returnR (Inr r) | None \<Rightarrow> throwR e)
               else throwR e)) (\<lambda>out.
       case out of
         Inr r \<Rightarrow> returnR (r, True)
       | Inl orderId \<Rightarrow>
         bindR (whenR (requiresPayment pl) (payment_leg clk ans orderId (pl_total pl))) (\<lambda>_.
         bindR (queryR (find_order orderId)) (\<lambda>found.
         bindR (someR (Prisma P2025) found) (\<lambda>r. returnR (r, False)))))))))"

definition getById :: "id \<Rightarrow> id option \<Rightarrow> id option \<Rightarrow> db \<Rightarrow> error + order" where
  "getById orderId userId guestToken s =
     (case find_order orderId s of
        None \<Rightarrow> Inl (Not_found Order_not_found)
      | Some r \<Rightarrow>
          if (userId \<noteq> None \<and> o_buyerUserId r = userId) \<or>
             (guestToken \<noteq> None \<and> Some (o_guestToken r) = guestToken)
          then Inr r else Inl (Not_found Order_not_found))"

definition listMyTickets :: "id \<Rightarrow> db \<Rightarrow> ticket list" where
  "listMyTickets userId s = sort_key (\<lambda>t. - t_createdAt t)
     (filter (\<lambda>t. map_option o_buyerUserId (find_order (t_orderId t) s) = Some (Some userId)) (tickets s))"

section \<open>Properties\<close>

text \<open>Everything a purchase does besides inserting its order leaves the orders alone.\<close>

lemma orders_add_remaining: "keepsT (\<lambda>s. orders s = R) (add_remaining t x)"
  by (auto simp: keepsT_def add_remaining_Inr)

lemma orders_claim: "keepsT (\<lambda>s. orders s = R) (claim_ga it)"
  by (auto simp: keepsT_def claim_ga_def Let_def split: if_splits)

lemma orders_outbox: "keepsT (\<lambda>s. orders s = R) (writeInTx now p)"
  by (auto simp: keepsT_def writeInTx_Inr)

lemma orders_issue: "keepsT (\<lambda>s. orders s = R) (issue_ticket now i ev email name sp)"
  by (auto simp: keepsT_def issue_ticket_def bindT_Inr fresh_id_Inr insert_ticket_Inr)

lemma orders_holds: "keepsT (\<lambda>s. orders s = R) (writeT (\<lambda>s. s\<lparr>holds := f s\<rparr>))"
  by (simp add: keepsT_def writeT_Inr)

lemma create_tx_adds:
  assumes "create_tx clk pl s = Inr (i, s')"
  shows "\<exists>g. orders s' = orders s @ [new_order clk pl i g] \<and>
    (pl_key pl \<noteq> None \<longrightarrow> (\<forall>r \<in> set (orders s). \<not> (o_eventId r = pl_eventId pl \<and> o_idempotencyKey r = pl_key pl)))"
proof -
  have claims: "keepsT (\<lambda>s. orders s = R) (for_eachT claim_ga (pl_ga pl))" for R
    by (intro keeps orders_claim)
  have rest: "keepsT (\<lambda>s. orders s = R) (bindT (whenT (pl_seatIds pl \<noteq> [])
        (if requiresPayment pl then bind_holds clk pl j else consume_holds clk pl)) (\<lambda>_.
     bindT (whenT (\<not> requiresPayment pl) (issue_free clk pl j)) (\<lambda>_. returnT j)))" for R j
  proof -
    have "keepsT (\<lambda>s. orders s = R) (bind_holds clk pl j)"
      unfolding bind_holds_def by (intro keeps orders_holds)
    moreover have "keepsT (\<lambda>s. orders s = R) (consume_holds clk pl)"
      unfolding consume_holds_def by (intro keeps orders_holds orders_add_remaining)
    moreover have "keepsT (\<lambda>s. orders s = R) (issue_free clk pl j)"
      unfolding issue_free_def by (intro keeps orders_issue orders_outbox)
    ultimately show ?thesis by (intro keeps) auto
  qed
  from assms obtain u s1 s2 where 1: "for_eachT claim_ga (pl_ga pl) s = Inr (u, s1)"
    and 2: "insert_order (new_order clk pl (next_id s1) (Suc (next_id s1))) (s1\<lparr>next_id := Suc (Suc (next_id s1))\<rparr>) = Inr ((), s2)"
    and 3: "bindT (whenT (pl_seatIds pl \<noteq> [])
        (if requiresPayment pl then bind_holds clk pl (next_id s1) else consume_holds clk pl)) (\<lambda>_.
     bindT (whenT (\<not> requiresPayment pl) (issue_free clk pl (next_id s1))) (\<lambda>_. returnT (next_id s1))) s2 = Inr (i, s')"
    unfolding create_tx_def by (auto simp: bindT_Inr fresh_id_Inr)
  have "orders s1 = orders s" by (rule keepsTD [OF claims refl 1])
  moreover have "orders s' = orders s2" by (rule keepsTD [OF rest refl 3])
  moreover have "i = next_id s1" using 3 by (auto simp: bindT_Inr returnT_Inr)
  ultimately show ?thesis using 2 by (auto simp: insert_order_Inr new_order_def order_key_taken_def)
qed

lemma payment_leg_orders:
  assumes "payment_leg clk ans i amount w = (Inr u, w')"
  shows "orders (w_db w') = orders (w_db w)"
proof -
  let ?leg = "bindR (queryR (find_order i)) (\<lambda>found.
        bindR (someR (Prisma P2025) found) (\<lambda>order.
        bindR (createIntent ans i amount (o_guestToken order)) (\<lambda>intent.
        bindR (commit (insert_payment \<lparr>p_orderId = i, p_providerIntentId = in_intentId intent,
           p_checkoutUrl = in_checkoutUrl intent, p_status = P_requires_action,
           p_amountSatang = amount\<rparr>)) (\<lambda>_.
        writeR (enqueueExpiry i PAYMENT_WINDOW_MS)))))"
  have "keepsR (\<lambda>w. orders (w_db w) = R) ?leg" for R
  proof (intro keeps createIntent_keeps)
    show "keepsT (\<lambda>s. orders s = R) (insert_payment p)" for p by (auto simp: keepsT_def insert_payment_Inr)
  qed (simp add: keepsR_def writeR_def enqueueExpiry_def)
  note keep = keepsRD [OF this refl]
  from assms obtain v where "?leg w = (Inr v, w')"
    by (auto simp: payment_leg_def tryR_def bindR_def [of "expireOrder _ _ _"] throwR_def split: prod.splits sum.splits)
  from keep [OF this] show ?thesis .
qed

abbreviation key_of :: "create_params \<Rightarrow> db \<Rightarrow> order option" where
  "key_of cp \<equiv> findByIdempotencyKey (cp_eventId cp) (cp_idempotencyKey cp)"

lemma key_of_new:
  assumes "truthy (cp_idempotencyKey cp)" and "plan_order clk dto cp s = Inr pl" and "create_tx clk pl s = Inr (i, s')"
  shows "\<exists>q. key_of cp s' = Some q \<and> o_id q = i"
proof -
  have pl: "pl_eventId pl = cp_eventId cp" "pl_key pl = cp_idempotencyKey cp"
    using assms(2) by (auto simp: plan_order_def Let_def split: option.splits sum.splits if_splits)
  from create_tx_adds [OF assms(3)] obtain g where "orders s' = orders s @ [new_order clk pl i g]"
    and "\<forall>r \<in> set (orders s). \<not> (o_eventId r = pl_eventId pl \<and> o_idempotencyKey r = pl_key pl)"
    using assms(1) pl(2) by (auto simp: truthy_def)
  with assms(1) pl show ?thesis
    by (auto simp: findByIdempotencyKey_def find_append find_None_iff new_order_def split: option.splits dest!: find_SomeD)
qed

definition order_asked :: "create_order_dto \<Rightarrow> create_params \<Rightarrow> bool" where
  "order_asked dto cp \<longleftrightarrow>
     ((case d_items dto of None \<Rightarrow> [] | Some its \<Rightarrow> its) \<noteq> [] \<or> (case d_seatIds dto of None \<Rightarrow> [] | Some xs \<Rightarrow> xs) \<noteq> []) \<and>
     ((case d_seatIds dto of None \<Rightarrow> [] | Some xs \<Rightarrow> xs) = [] \<or> truthy (cp_holderKey cp))"

lemma create_asked: "create clk ans dto cp w = (Inr (r, b), w1) \<Longrightarrow> order_asked dto cp"
  by (auto simp: create_def bindR_def guardR_def order_asked_def split: if_splits)

lemma create_replays:
  "order_asked dto cp \<Longrightarrow> key_of cp (w_db w) = Some q \<Longrightarrow> create clk ans dto cp w = (Inr (q, True), w)"
  by (auto simp: create_def bindR_def guardR_def queryR_def returnR_def order_asked_def)

text \<open>An answered purchase is on file under its key.\<close>

lemma key_of_in: "key_of cp s = Some q \<Longrightarrow> q \<in> set (orders s)"
  by (auto simp: findByIdempotencyKey_def dest!: find_SomeD split: if_splits)

lemma create_files:
  assumes "create clk ans dto cp w = (Inr (r, b), w1)" and "truthy (cp_idempotencyKey cp)"
  shows "r \<in> set (orders (w_db w1)) \<and> (\<exists>q. key_of cp (w_db w1) = Some q \<and> o_id q = o_id r)"
proof (cases "key_of cp (w_db w)")
  case (Some q)
  with create_replays [OF create_asked [OF assms(1)] Some] assms(1) show ?thesis by (auto dest: key_of_in)
next
  case None
  from assms(1) create_asked [OF assms(1), unfolded order_asked_def] None obtain pl out v where plan: "plan_order clk dto cp (w_db w) = Inr pl"
    and attempt: "tryR (bindR (commit (create_tx clk pl)) (\<lambda>i. returnR (Inl i)))
        (\<lambda>e. if truthy (cp_idempotencyKey cp) \<and> e = Prisma P2002 then
               bindR (queryR (key_of cp)) (\<lambda>again.
               case again of Some r \<Rightarrow> returnR (Inr r) | None \<Rightarrow> throwR e)
             else throwR e) w = (Inr out, v)"
    and rest: "(case out of
       Inr r \<Rightarrow> returnR (r, True)
     | Inl orderId \<Rightarrow>
       bindR (whenR (requiresPayment pl) (payment_leg clk ans orderId (pl_total pl))) (\<lambda>_.
       bindR (queryR (find_order orderId)) (\<lambda>found.
       bindR (someR (Prisma P2025) found) (\<lambda>r. returnR (r, False))))) v = (Inr (r, b), w1)"
    by (auto simp: create_def bindR_def [of "guardR _ _"] bindR_def [of "queryR (key_of cp)"] guardR_def queryR_def
        bindR_def [of "askR _"] askR_def bindR_def [of "tryR _ _"] split: prod.splits sum.splits)
  show ?thesis
  proof (cases out)
    case (Inr q)
    with attempt rest show ?thesis
      by (auto simp: tryR_def bindR_def commit_def queryR_def returnR_def throwR_def dest: key_of_in
          split: sum.splits prod.splits option.splits if_splits)
  next
    case (Inl i)
    with attempt have tx: "create_tx clk pl (w_db w) = Inr (i, w_db v)"
      by (auto simp: tryR_def bindR_def commit_def queryR_def returnR_def throwR_def
          split: sum.splits prod.splits option.splits if_splits)
    from rest Inl have same: "orders (w_db w1) = orders (w_db v)" and id: "o_id r = i" "r \<in> set (orders (w_db w1))"
      by (auto simp: bindR_def whenR_def queryR_def someR_def returnR_def find_order_def
          dest!: payment_leg_orders find_SomeD split: sum.splits prod.splits option.splits if_splits)
    from key_of_new [OF assms(2) plan tx] same id show ?thesis using assms(2) by (simp add: findByIdempotencyKey_def)
  qed
qed

definition buy_dto :: create_order_dto where
  "buy_dto = \<lparr>d_items = Some [\<lparr>oi_ticketTypeId = 3, oi_quantity = 2\<rparr>], d_seatIds = None,
     d_buyerEmail = ''Ann@x'', d_buyerName = ''Ann''\<rparr>"

definition buy_params :: create_params where
  "buy_params = \<lparr>cp_eventId = 1, cp_buyerUserId = None, cp_idempotencyKey = Some ''try-1'', cp_holderKey = None\<rparr>"

definition buy_answer :: "intent http_answer" where
  "buy_answer = Http_response 201 (Some \<lparr>in_intentId = ''pi_9'', in_checkoutUrl = ''/pay/9''\<rparr>)"

end
