(* ===== verification/Access.thy ===== *)
theory Access
  imports Samples
begin

text \<open>
  \<^verbatim>\<open>access/access.service.ts\<close>: the three-rank ladder of an event's team, read from the database
  on every call. The ranks are a linear order, so \<^verbatim>\<open>ROLE_RANK[role] < ROLE_RANK[minRole]\<close> is
  \<open>role < minRole\<close>. The interface \<open>role_gate\<close> is what every guarded service relies on.
\<close>

datatype role = Staff | Manager | Owner

fun role_rank :: "role \<Rightarrow> nat" where
  "role_rank Staff = 1"
| "role_rank Manager = 2"
| "role_rank Owner = 3"

instantiation role :: linorder
begin

definition less_eq_role :: "role \<Rightarrow> role \<Rightarrow> bool" where
  "less_eq_role r q \<longleftrightarrow> role_rank r \<le> role_rank q"

definition less_role :: "role \<Rightarrow> role \<Rightarrow> bool" where
  "less_role r q \<longleftrightarrow> role_rank r < role_rank q"

instance
proof
  fix r q p :: role
  show "(r < q) = (r \<le> q \<and> \<not> q \<le> r)"
    by (auto simp: less_role_def less_eq_role_def)
  show "r \<le> r"
    by (simp add: less_eq_role_def)
  show "r \<le> q \<Longrightarrow> q \<le> p \<Longrightarrow> r \<le> p"
    by (simp add: less_eq_role_def)
  show "r \<le> q \<Longrightarrow> q \<le> r \<Longrightarrow> r = q"
    by (cases r; cases q) (simp_all add: less_eq_role_def)
  show "r \<le> q \<or> q \<le> r"
    by (auto simp: less_eq_role_def)
qed

end

lemma Staff_least [simp]: "Staff \<le> r"
  by (cases r) (simp_all add: less_eq_role_def)

lemma Owner_greatest [simp]: "r \<le> Owner"
  by (cases r) (simp_all add: less_eq_role_def)

lemma Owner_not_less [simp]: "\<not> Owner < r"
  by (simp add: not_less)

lemma role_less_simps [simp]: "Staff < Manager" "Manager < Owner" "Staff < Owner"
  by (simp_all add: less_role_def)

fun role_name :: "member_role \<Rightarrow> role" where
  "role_name M_manager = Manager"
| "role_name M_staff = Staff"

definition membershipRole :: "id \<Rightarrow> id \<Rightarrow> db \<Rightarrow> role option" where
  "membershipRole ev u s =
     map_option (\<lambda>m. role_name (tm_role m))
       (List.find (\<lambda>m. tm_eventId m = ev \<and> tm_userId m = Some u) (teamMembers s))"

definition resolveRole :: "id \<Rightarrow> id \<Rightarrow> db \<Rightarrow> error + event_row \<times> role option" where
  "resolveRole ev u s =
     (case find_event ev s of
        None \<Rightarrow> Inl (Not_found Event_not_found)
      | Some e \<Rightarrow> Inr (e, if ev_organizerId e = u then Some Owner else membershipRole ev u s))"

definition requireEventRole :: "id \<Rightarrow> id \<Rightarrow> role \<Rightarrow> db \<Rightarrow> error + event_row \<times> role" where
  "requireEventRole ev u minRole s =
     (case resolveRole ev u s of
        Inl e \<Rightarrow> Inl e
      | Inr (e, None) \<Rightarrow> Inl (Not_found Event_not_found)
      | Inr (e, Some role) \<Rightarrow>
          if role < minRole then Inl Role_not_allowed else Inr (e, role))"

section \<open>What a guarded service may rely on\<close>

text \<open>The role a user has on an event in a database, \<open>None\<close> for a stranger.\<close>

definition effective_role :: "db \<Rightarrow> id \<Rightarrow> id \<Rightarrow> role option" where
  "effective_role s ev u =
     (case find_event ev s of
        None \<Rightarrow> None
      | Some e \<Rightarrow> if ev_organizerId e = u then Some Owner else membershipRole ev u s)"

locale role_gate =
  fixes role_of :: "db \<Rightarrow> id \<Rightarrow> id \<Rightarrow> role option"
    and gate :: "id \<Rightarrow> id \<Rightarrow> role \<Rightarrow> db \<Rightarrow> error + event_row \<times> role"
  assumes gate_stranger: "role_of s ev u = None \<Longrightarrow> gate ev u m s = Inl (Not_found Event_not_found)"
    and gate_low: "role_of s ev u = Some r \<Longrightarrow> r < m \<Longrightarrow> gate ev u m s = Inl Role_not_allowed"
    and gate_high: "role_of s ev u = Some r \<Longrightarrow> m \<le> r \<Longrightarrow>
      \<exists>e. find_event ev s = Some e \<and> gate ev u m s = Inr (e, r)"
begin

lemma gate_eq: "gate ev u m s =
    (case role_of s ev u of
       None \<Rightarrow> Inl (Not_found Event_not_found)
     | Some r \<Rightarrow> if r < m then Inl Role_not_allowed else Inr (the (find_event ev s), r))"
proof (cases "role_of s ev u")
  case None
  then show ?thesis by (simp add: gate_stranger)
next
  case (Some r)
  show ?thesis
  proof (cases "r < m")
    case True
    with Some show ?thesis by (simp add: gate_low)
  next
    case False
    then have "m \<le> r" by (simp add: not_less)
    then obtain e where "find_event ev s = Some e" and "gate ev u m s = Inr (e, r)"
      using gate_high [OF Some] by blast
    with Some False show ?thesis by simp
  qed
qed

lemma passed:
  assumes "gate ev u m s = Inr (e, r)"
  shows "role_of s ev u = Some r" and "m \<le> r" and "find_event ev s = Some e"
proof -
  show r: "role_of s ev u = Some r" and m: "m \<le> r"
    using assms by (auto simp: gate_eq not_less split: option.splits if_splits)
  from gate_high [OF this] assms show "find_event ev s = Some e" by auto
qed

lemma passes_iff: "(\<exists>x. gate ev u m s = Inr x) \<longleftrightarrow> (\<exists>r. role_of s ev u = Some r \<and> m \<le> r)"
  by (auto simp: gate_eq not_less split: option.splits)

lemma monotone: "gate ev u m s = Inr x \<Longrightarrow> m' \<le> m \<Longrightarrow> gate ev u m' s = Inr x"
  by (auto simp: gate_eq not_less split: option.splits if_splits)

lemma refused: "gate ev u m s = Inl e \<Longrightarrow> e = Not_found Event_not_found \<or> e = Role_not_allowed"
  by (auto simp: gate_eq split: option.splits if_splits)

end

interpretation event_gate: role_gate effective_role requireEventRole
  by unfold_locales
    (auto simp: effective_role_def requireEventRole_def resolveRole_def
      split: option.splits if_splits)

end
