(* ===== verification/Refunds.thy ===== *)
theory Refunds
  imports Orders Access
begin

text \<open>
  \<^verbatim>\<open>refunds/refunds.service.ts\<close> with its DTO and controller. As in the orders theory, the reads
  before the transaction compute a \<open>refund_plan\<close> that the transaction \<open>refund_tx\<close> executes later,
  and the call to the provider follows the commit.
\<close>

definition SYSTEM_COMPENSATION_KEY :: string where
  "SYSTEM_COMPENSATION_KEY = ''system:compensation''"

record refund_input =
  ri_eventId :: id
  ri_orderId :: id
  ri_ticketIds :: "id list"
  ri_userId :: id
  ri_key :: "string option"

text \<open>The decorators of \<^verbatim>\<open>CreateRefundDto\<close>.\<close>

definition valid_refund_dto :: "id list \<Rightarrow> bool" where
  "valid_refund_dto xs \<longleftrightarrow> xs \<noteq> [] \<and> length xs \<le> 50"

definition find_refund_by_key :: "id \<Rightarrow> string option \<Rightarrow> db \<Rightarrow> refund option" where
  "find_refund_by_key orderId k s =
     List.find (\<lambda>r. r_orderId r = orderId \<and> r_idempotencyKey r = k) (refunds s)"

section \<open>Before the transaction\<close>

record refund_plan =
  rp_eventId :: id
  rp_orderId :: id
  rp_ticketIds :: "id list"
  rp_userId :: id
  rp_key :: "string option"
  rp_tickets :: "ticket list"
  rp_amount :: satang
  rp_status :: order_status
  rp_intent :: "string option"

text \<open>\<^verbatim>\<open>priceByType\<close>: a map literal, in which the last of two equal keys counts.\<close>

definition price_by_type :: "order_item list \<Rightarrow> id \<Rightarrow> satang" where
  "price_by_type its i =
     (case map_of (rev (map (\<lambda>it. (i_ticketTypeId it, i_unitPriceSatang it)) its)) i of
        None \<Rightarrow> 0 | Some p \<Rightarrow> p)"

definition rp_free :: "refund_plan \<Rightarrow> bool" where
  "rp_free rp \<longleftrightarrow> rp_amount rp = 0"

definition plan_refund :: "refund_input \<Rightarrow> db \<Rightarrow> error + refund_plan" where
  "plan_refund ri s =
     (case List.find (\<lambda>r. o_id r = ri_orderId ri \<and> o_eventId r = ri_eventId ri) (orders s) of
        None \<Rightarrow> Inl (Not_found Order_not_found)
      | Some r \<Rightarrow>
          let ts = filter (\<lambda>t. t_orderId t = o_id r \<and> t_id t \<in> set (ri_ticketIds ri)) (tickets s)
          in if o_status r \<notin> set REFUNDABLE_ORDER_STATUSES then Inl (Conflict Order_not_refundable)
             else if length ts \<noteq> length (ri_ticketIds ri) then Inl (Bad_request Unknown_ticket)
             else Inr \<lparr>rp_eventId = ri_eventId ri, rp_orderId = ri_orderId ri,
               rp_ticketIds = ri_ticketIds ri, rp_userId = ri_userId ri, rp_key = ri_key ri,
               rp_tickets = ts,
               rp_amount = sum_by (\<lambda>t. price_by_type (o_items r) (t_ticketTypeId t)) ts,
               rp_status = o_status r,
               rp_intent = map_option p_providerIntentId (payment_of (o_id r) s)\<rparr>)"

section \<open>Settling\<close>

definition add_refunded :: "id \<Rightarrow> satang \<Rightarrow> db \<Rightarrow> db" where
  "add_refunded orderId amount s = s\<lparr>orders := update_where (\<lambda>r. o_id r = orderId)
     (\<lambda>r. r\<lparr>o_refundedSatang := o_refundedSatang r + amount\<rparr>) (orders s)\<rparr>"

definition set_status :: "id \<Rightarrow> order_status \<Rightarrow> db \<Rightarrow> db" where
  "set_status orderId st s = s\<lparr>orders := update_where (\<lambda>r. o_id r = orderId)
     (\<lambda>r. r\<lparr>o_status := st\<rparr>) (orders s)\<rparr>"

definition settled_status :: "id \<Rightarrow> db \<Rightarrow> order_status" where
  "settled_status orderId s =
     (if count_where (\<lambda>t. t_orderId t = orderId \<and> live t) (tickets s) = 0
      then Refunded else Partially_refunded)"

definition settleInTx :: "millis \<Rightarrow> id \<Rightarrow> satang \<Rightarrow> unit db_tx" where
  "settleInTx now orderId amount =
     bindT (readT (find_order orderId)) (\<lambda>found.
     bindT (someT (Prisma P2025) found) (\<lambda>order.
     bindT (writeT (add_refunded orderId amount)) (\<lambda>_.
     bindT (writeInTx now (Order_refunded orderId amount)) (\<lambda>_.
     if o_status order \<notin> set REFUNDABLE_ORDER_STATUSES then returnT ()
     else
       bindT (readT (settled_status orderId)) (\<lambda>status.
       bindT (writeT (set_status orderId status)) (\<lambda>_.
       writeInTx now (Order_updated orderId status)))))))"

section \<open>The transaction\<close>

definition voidable :: "refund_plan \<Rightarrow> ticket \<Rightarrow> bool" where
  "voidable rp t \<longleftrightarrow> t_id t \<in> set (rp_ticketIds rp) \<and> t_orderId t = rp_orderId rp \<and> t_status t = Issued"

definition void_ticket :: "id \<Rightarrow> ticket \<Rightarrow> ticket" where
  "void_ticket rid t = t\<lparr>t_status := Void, t_refundId := Some rid\<rparr>"

text \<open>\<^verbatim>\<open>restored\<close>: how many tickets of each type go back on sale.\<close>

definition restored :: "refund_plan \<Rightarrow> (id \<times> int) list" where
  "restored rp = tally (map t_ticketTypeId (rp_tickets rp))"

definition plan_seats :: "refund_plan \<Rightarrow> id list" where
  "plan_seats rp = List.map_filter t_seatId (rp_tickets rp)"

text \<open>The row of \<^verbatim>\<open>tx.refund.create\<close>: a refund of nothing is settled at once.\<close>

definition new_refund :: "clock \<Rightarrow> refund_plan \<Rightarrow> id \<Rightarrow> refund" where
  "new_refund clk rp rid =
     \<lparr>r_id = rid, r_orderId = rp_orderId rp, r_providerRefundId = None,
      r_amountSatang = rp_amount rp, r_status = (if rp_free rp then R_succeeded else R_pending),
      r_idempotencyKey = rp_key rp, r_requestedById = Some (rp_userId rp),
      r_createdAt = db_now clk, r_settledAt = (if rp_free rp then Some (app_now clk) else None)\<rparr>"

definition void_tickets :: "refund_plan \<Rightarrow> id \<Rightarrow> unit db_tx" where
  "void_tickets rp rid =
     bindT (readT (\<lambda>s. count_where (voidable rp) (tickets s))) (\<lambda>count.
     bindT (writeT (\<lambda>s. s\<lparr>tickets := update_where (voidable rp) (void_ticket rid) (tickets s)\<rparr>)) (\<lambda>_.
     guardT (count = length (rp_ticketIds rp)) (Conflict Ticket_used_or_refunded)))"

definition announce_refund :: "clock \<Rightarrow> refund_plan \<Rightarrow> unit db_tx" where
  "announce_refund clk rp =
     bindT (whenT (plan_seats rp \<noteq> [])
        (writeInTx (db_now clk) (Seats_released (rp_eventId rp) (plan_seats rp)))) (\<lambda>_.
     if rp_free rp then settleInTx (db_now clk) (rp_orderId rp) 0
     else writeInTx (db_now clk) (Order_updated (rp_orderId rp) (rp_status rp)))"

definition refund_tx :: "clock \<Rightarrow> refund_plan \<Rightarrow> id db_tx" where
  "refund_tx clk rp =
     bindT fresh_id (\<lambda>rid.
     bindT (insert_refund (new_refund clk rp rid)) (\<lambda>_.
     bindT (void_tickets rp rid) (\<lambda>_.
     bindT (for_eachT (\<lambda>(tid, n). add_remaining tid n) (restored rp)) (\<lambda>_.
     bindT (announce_refund clk rp) (\<lambda>_. returnT rid)))))"

section \<open>The money leg\<close>

definition set_provider_refund :: "id \<Rightarrow> string \<Rightarrow> unit db_tx" where
  "set_provider_refund rid prov s =
     (case find_refund rid s of
        None \<Rightarrow> Inl (Prisma P2025)
      | Some _ \<Rightarrow> Inr ((), s\<lparr>refunds := update_where (\<lambda>r. r_id r = rid)
          (\<lambda>r. r\<lparr>r_providerRefundId := Some prov\<rparr>) (refunds s)\<rparr>))"

definition refund_in :: "id \<Rightarrow> refund_status \<Rightarrow> refund \<Rightarrow> bool" where
  "refund_in rid st r \<longleftrightarrow> r_id r = rid \<and> r_status r = st"

definition fail_refund :: "id \<Rightarrow> unit db_tx" where
  "fail_refund rid = writeT (\<lambda>s. s\<lparr>refunds := update_where (refund_in rid R_pending)
     (\<lambda>r. r\<lparr>r_status := R_failed\<rparr>) (refunds s)\<rparr>)"

definition sendMoneyLeg :: "string http_answer \<Rightarrow> id \<Rightarrow> string \<Rightarrow> satang \<Rightarrow> unit handler" where
  "sendMoneyLeg ans rid intentId amount =
     tryR (bindR (createRefund ans intentId amount rid) (\<lambda>prov. commit (set_provider_refund rid prov)))
          (\<lambda>e. commit (fail_refund rid))"

section \<open>The handlers\<close>

text \<open>Refund and the ids of its tickets, as \<^verbatim>\<open>REFUND_INCLUDE\<close> loads it.\<close>

definition refund_view :: "refund \<Rightarrow> db \<Rightarrow> refund \<times> id list" where
  "refund_view r s = (r, map t_id (filter (\<lambda>t. t_refundId t = Some (r_id r)) (tickets s)))"

definition getRefund :: "id \<Rightarrow> (refund \<times> id list) handler" where
  "getRefund rid = bindR (queryR (find_refund rid)) (\<lambda>found.
     bindR (someR (Prisma P2025) found) (\<lambda>r. queryR (refund_view r)))"

definition replay_refund :: "refund_input \<Rightarrow> db \<Rightarrow> refund option" where
  "replay_refund ri s =
     (if truthy (ri_key ri) then find_refund_by_key (ri_orderId ri) (ri_key ri) s else None)"

definition create_refund :: "clock \<Rightarrow> string http_answer \<Rightarrow> refund_input \<Rightarrow>
    ((refund \<times> id list) \<times> bool) handler" where
  "create_refund clk ans ri =
     bindR (askR (requireEventRole (ri_eventId ri) (ri_userId ri) Manager)) (\<lambda>_.
     bindR (queryR (replay_refund ri)) (\<lambda>existing.
     case existing of
       Some r \<Rightarrow> bindR (queryR (refund_view r)) (\<lambda>v. returnR (v, True))
     | None \<Rightarrow>
       bindR (askR (plan_refund ri)) (\<lambda>rp.
       bindR (tryR (bindR (commit (refund_tx clk rp)) (\<lambda>i. returnR (Inl i)))
          (\<lambda>e. if truthy (ri_key ri) \<and> e = Prisma P2002 then
                 bindR (queryR (replay_refund ri)) (\<lambda>again.
                 case again of Some r \<Rightarrow> returnR (Inr r) | None \<Rightarrow> throwR e)
               else throwR e)) (\<lambda>out.
       case out of
         Inr r \<Rightarrow> bindR (queryR (refund_view r)) (\<lambda>v. returnR (v, True))
       | Inl rid \<Rightarrow>
         bindR (if rp_free rp then returnR ()
                else case rp_intent rp of
                       None \<Rightarrow> returnR ()
                     | Some intent \<Rightarrow> sendMoneyLeg ans rid intent (rp_amount rp)) (\<lambda>_.
         bindR (getRefund rid) (\<lambda>v. returnR (v, False)))))))"

definition reopen_refund :: "id \<Rightarrow> nat db_tx" where
  "reopen_refund rid s = Inr (count_where (refund_in rid R_failed) (refunds s),
     s\<lparr>refunds := update_where (refund_in rid R_failed) (\<lambda>r. r\<lparr>r_status := R_pending\<rparr>) (refunds s)\<rparr>)"

definition retry :: "string http_answer \<Rightarrow> id \<Rightarrow> id \<Rightarrow> (refund \<times> id list) handler" where
  "retry ans rid userId =
     bindR (queryR (find_refund rid)) (\<lambda>found.
     bindR (someR (Not_found Refund_not_found) found) (\<lambda>refund.
     bindR (queryR (find_order (r_orderId refund))) (\<lambda>ord.
     bindR (someR (Prisma P2025) ord) (\<lambda>order.
     bindR (queryR (payment_of (r_orderId refund))) (\<lambda>pay.
     bindR (askR (requireEventRole (o_eventId order) userId Manager)) (\<lambda>_.
     bindR (someR (Conflict No_payment_to_retry) pay) (\<lambda>p.
     bindR (commit (reopen_refund rid)) (\<lambda>count.
     bindR (guardR (count \<noteq> 0) (Conflict Only_failed_refund)) (\<lambda>_.
     bindR (sendMoneyLeg ans rid (p_providerIntentId p) (r_amountSatang refund)) (\<lambda>_.
     getRefund rid))))))))))"

definition compensation_tx :: "clock \<Rightarrow> id \<Rightarrow> satang \<Rightarrow> id db_tx" where
  "compensation_tx clk orderId amount =
     bindT fresh_id (\<lambda>rid.
     bindT (insert_refund \<lparr>r_id = rid, r_orderId = orderId, r_providerRefundId = None,
        r_amountSatang = amount, r_status = R_pending,
        r_idempotencyKey = Some SYSTEM_COMPENSATION_KEY, r_requestedById = None,
        r_createdAt = db_now clk, r_settledAt = None\<rparr>) (\<lambda>_. returnT rid))"

definition compensateUnfulfilledPayment :: "clock \<Rightarrow> string http_answer \<Rightarrow> id \<Rightarrow> satang \<Rightarrow> string \<Rightarrow>
    unit handler" where
  "compensateUnfulfilledPayment clk ans orderId amount intentId =
     bindR (queryR (\<lambda>s. List.find (\<lambda>r. r_orderId r = orderId \<and> r_requestedById r = None) (refunds s))) (\<lambda>existing.
     case existing of
       Some _ \<Rightarrow> returnR ()
     | None \<Rightarrow>
       bindR (tryR (bindR (commit (compensation_tx clk orderId amount)) (\<lambda>rid. returnR (Some rid)))
          (\<lambda>e. if e = Prisma P2002 then returnR None else throwR e)) (\<lambda>out.
       case out of
         None \<Rightarrow> returnR ()
       | Some rid \<Rightarrow> sendMoneyLeg ans rid intentId amount))"

text \<open>The controller cuts the idempotency key at 120 characters.\<close>

definition refund_request :: "id \<Rightarrow> id \<Rightarrow> id list \<Rightarrow> id \<Rightarrow> string option \<Rightarrow> refund_input" where
  "refund_request ev ord xs u k = \<lparr>ri_eventId = ev, ri_orderId = ord, ri_ticketIds = xs,
     ri_userId = u, ri_key = map_option (take 120) k\<rparr>"

text \<open>The three claims of a refund: by its webhook or a failed call, by a retry, on its tickets.\<close>

interpretation pending_refund: claim "refund_in rid R_pending" "\<lambda>r. r\<lparr>r_status := R_failed\<rparr>" for rid
  by unfold_locales (auto simp: refund_in_def)

interpretation failed_refund: claim "refund_in rid R_failed" "\<lambda>r. r\<lparr>r_status := R_pending\<rparr>" for rid
  by unfold_locales (auto simp: refund_in_def)

interpretation void_claim: claim "voidable rp" "void_ticket rid" for rp rid
  by unfold_locales (auto simp: voidable_def void_ticket_def)

end
