(* ===== verification/Holds.thy ===== *)
theory Holds
  imports Realtime
begin

text \<open>
  \<^verbatim>\<open>holds/holds.service.ts\<close> with the key check of its controller: taking a seat, with takeover of
  an expired hold and refresh of one's own, releasing, listing and sweeping. The transaction of
  \<open>acquire\<close> is the definition \<open>acquire_tx\<close>; it decides who gets a contested seat.
\<close>

definition DEFAULT_HOLD_TTL_MS :: millis where "DEFAULT_HOLD_TTL_MS = 7 * 60000"
definition MAX_HELD_PER_KEY :: nat where "MAX_HELD_PER_KEY = 8"

definition requireHolderKey :: "string option \<Rightarrow> error + string" where
  "requireHolderKey k = (case k of
     None \<Rightarrow> Inl (Bad_request Hold_key_length)
   | Some k \<Rightarrow> if length k < 8 \<or> length k > 64 then Inl (Bad_request Hold_key_length) else Inr k)"

text \<open>The configured TTL, if any, else seven minutes.\<close>

definition holdTtlMs :: "millis option \<Rightarrow> millis" where
  "holdTtlMs configured = (case configured of None \<Rightarrow> DEFAULT_HOLD_TTL_MS | Some ttl \<Rightarrow> ttl)"

definition is_published :: "id \<Rightarrow> db \<Rightarrow> bool" where
  "is_published ev s \<longleftrightarrow> map_option ev_status (find_event ev s) = Some Published"

definition seat_on_sale :: "id \<Rightarrow> id \<Rightarrow> db \<Rightarrow> seat option" where
  "seat_on_sale ev seat s =
     List.find (\<lambda>st. s_id st = seat \<and> s_eventId st = ev \<and> is_published ev s) (seats s)"

definition active_hold :: "millis \<Rightarrow> id \<Rightarrow> string \<Rightarrow> hold \<Rightarrow> bool" where
  "active_hold now ev key h \<longleftrightarrow> h_eventId h = ev \<and> h_holderKey h = key \<and> h_expiresAt h > now"

definition find_hold :: "id \<Rightarrow> id \<Rightarrow> db \<Rightarrow> hold option" where
  "find_hold ev seat s = List.find (\<lambda>h. h_eventId h = ev \<and> h_seatId h = seat) (holds s)"

text \<open>\<^verbatim>\<open>NOT EXISTS (SELECT 1 FROM tickets WHERE seat_id = .. AND status <> 'void')\<close>.\<close>

definition seat_sold :: "id \<Rightarrow> db \<Rightarrow> bool" where
  "seat_sold seat s \<longleftrightarrow> (\<exists>t \<in> set (tickets s). t_seatId t = Some seat \<and> live t)"

definition drop_expired :: "millis \<Rightarrow> id \<Rightarrow> id \<Rightarrow> db \<Rightarrow> db" where
  "drop_expired now ev seat s = s\<lparr>holds := delete_where
     (\<lambda>h. h_eventId h = ev \<and> h_seatId h = seat \<and> h_expiresAt h \<le> now) (holds s)\<rparr>"

text \<open>The insert with its two conditions: no live ticket, and \<^verbatim>\<open>ON CONFLICT DO NOTHING\<close>.\<close>

definition insert_hold :: "hold \<Rightarrow> nat db_tx" where
  "insert_hold h s =
     (if seat_sold (h_seatId h) s \<or> find_hold (h_eventId h) (h_seatId h) s \<noteq> None then Inr (0, s)
      else Inr (1, s\<lparr>holds := holds s @ [h]\<rparr>))"

definition acquire_tx :: "clock \<Rightarrow> id \<Rightarrow> id \<Rightarrow> string \<Rightarrow> millis \<Rightarrow> nat db_tx" where
  "acquire_tx clk ev seat key expiresAt =
     bindT fresh_id (\<lambda>holdId.
     bindT (writeT (drop_expired (db_now clk) ev seat)) (\<lambda>_.
     insert_hold \<lparr>h_id = holdId, h_eventId = ev, h_seatId = seat, h_holderKey = key,
       h_orderId = None, h_expiresAt = expiresAt, h_createdAt = db_now clk\<rparr>))"

definition refresh_tx :: "id \<Rightarrow> millis \<Rightarrow> hold db_tx" where
  "refresh_tx holdId expiresAt s =
     (let s' = s\<lparr>holds := update_where (\<lambda>h. h_id h = holdId) (\<lambda>h. h\<lparr>h_expiresAt := expiresAt\<rparr>) (holds s)\<rparr>
      in case List.find (\<lambda>h. h_id h = holdId) (holds s') of
           None \<Rightarrow> Inl (Prisma P2025)
         | Some h \<Rightarrow> Inr (h, s'))"

definition acquire :: "clock \<Rightarrow> millis \<Rightarrow> id \<Rightarrow> id \<Rightarrow> string \<Rightarrow> (id \<times> millis) handler" where
  "acquire clk ttl ev seat key =
     bindR (queryR (seat_on_sale ev seat)) (\<lambda>found.
     bindR (guardR (found \<noteq> None) (Not_found Seat_not_found)) (\<lambda>_.
     bindR (queryR (\<lambda>s. count_where (active_hold (app_now clk) ev key) (holds s))) (\<lambda>heldByKey.
     bindR (guardR (heldByKey < MAX_HELD_PER_KEY) (Bad_request (At_most_held MAX_HELD_PER_KEY))) (\<lambda>_.
     let expiresAt = app_now clk + ttl in
     bindR (commit (acquire_tx clk ev seat key expiresAt)) (\<lambda>inserted.
     if inserted = 1 then
       bindR (writeR (seatsChanged ev (held_change [seat]))) (\<lambda>_. returnR (seat, expiresAt))
     else
       bindR (queryR (find_hold ev seat)) (\<lambda>existing. case existing of
         None \<Rightarrow> throwR (Conflict Seat_sold)
       | Some h \<Rightarrow>
           if h_holderKey h = key then
             bindR (commit (refresh_tx (h_id h) expiresAt)) (\<lambda>refreshed.
             returnR (seat, h_expiresAt refreshed))
           else throwR (Conflict Seat_held)))))))"

definition release :: "id \<Rightarrow> id \<Rightarrow> string \<Rightarrow> unit handler" where
  "release ev seat key =
     (let mine = (\<lambda>h. h_eventId h = ev \<and> h_seatId h = seat \<and> h_holderKey h = key \<and> h_orderId h = None) in
      bindR (commit (\<lambda>s. Inr (count_where mine (holds s), s\<lparr>holds := delete_where mine (holds s)\<rparr>))) (\<lambda>count.
      whenR (count > 0) (writeR (seatsChanged ev (released_change [seat])))))"

definition listMine :: "millis \<Rightarrow> id \<Rightarrow> string \<Rightarrow> db \<Rightarrow> (id \<times> millis) list" where
  "listMine now ev key s = map (\<lambda>h. (h_seatId h, h_expiresAt h))
     (sort_key h_createdAt (filter (active_hold now ev key) (holds s)))"

text \<open>\<^verbatim>\<open>DELETE .. RETURNING\<close>, then one realtime change per event.\<close>

definition sweepable :: "millis \<Rightarrow> hold \<Rightarrow> bool" where
  "sweepable now h \<longleftrightarrow> h_expiresAt h \<le> now \<and> h_orderId h = None"

definition sweep_tx :: "millis \<Rightarrow> (id \<times> id) list db_tx" where
  "sweep_tx now s = Inr (map (\<lambda>h. (h_eventId h, h_seatId h)) (filter (sweepable now) (holds s)),
     s\<lparr>holds := delete_where (sweepable now) (holds s)\<rparr>)"

definition sweepExpired :: "millis \<Rightarrow> nat handler" where
  "sweepExpired now =
     bindR (commit (sweep_tx now)) (\<lambda>expired.
     bindR (for_eachR (\<lambda>(ev, xs). writeR (seatsChanged ev (released_change xs))) (group_rows expired)) (\<lambda>_.
     returnR (length expired)))"

section \<open>Holds and tickets of a seat exclude each other\<close>

text \<open>\<^verbatim>\<open>holds_event_id_seat_id_key\<close>, and no hold on a seat that has a live ticket.\<close>

definition holds_unique :: "db \<Rightarrow> bool" where
  "holds_unique s \<longleftrightarrow> distinct (map (\<lambda>h. (h_eventId h, h_seatId h)) (holds s))"

definition holds_free :: "db \<Rightarrow> bool" where
  "holds_free s \<longleftrightarrow> (\<forall>h \<in> set (holds s). \<not> seat_sold (h_seatId h) s)"

definition live_seats :: "ticket list \<Rightarrow> id list" where
  "live_seats ts = List.map_filter t_seatId (filter live ts)"

definition seats_single :: "db \<Rightarrow> bool" where
  "seats_single s \<longleftrightarrow> distinct (live_seats (tickets s))"

definition hold_key :: "hold \<Rightarrow> id \<times> id" where
  "hold_key h = (h_eventId h, h_seatId h)"

lemma holds_unique_iff: "holds_unique s \<longleftrightarrow> distinct (map hold_key (holds s))"
  by (simp add: holds_unique_def hold_key_def [abs_def])

lemma find_hold_None: "find_hold ev seat s = None \<longleftrightarrow> (ev, seat) \<notin> hold_key ` set (holds s)"
  by (auto simp: find_hold_def find_None_iff hold_key_def image_iff)

lemma find_hold_SomeD: "find_hold ev seat s = Some h \<Longrightarrow> h \<in> set (holds s) \<and> hold_key h = (ev, seat)"
  by (auto simp: find_hold_def hold_key_def dest: find_SomeD)

lemma find_hold_unique:
  "holds_unique s \<Longrightarrow> h \<in> set (holds s) \<Longrightarrow> find_hold (h_eventId h) (h_seatId h) s = Some h"
  using find_key [of hold_key "holds s" h]
  by (simp add: holds_unique_iff find_hold_def hold_key_def conj_commute)

lemma seat_sold_frame [simp]:
  "seat_sold x (s\<lparr>holds := hs\<rparr>) = seat_sold x s" "seat_sold x (s\<lparr>next_id := n\<rparr>) = seat_sold x s"
  "seat_sold x (s\<lparr>ticketTypes := ts\<rparr>) = seat_sold x s" "seat_sold x (s\<lparr>orders := os\<rparr>) = seat_sold x s"
  "seat_sold x (s\<lparr>payments := ps\<rparr>) = seat_sold x s"
  "seat_sold x (s\<lparr>outboxEvents := es\<rparr>) = seat_sold x s" "seat_sold x (s\<lparr>refunds := rs\<rparr>) = seat_sold x s"
  by (simp_all add: seat_sold_def)

lemma holds_unique_delete:
  "distinct (map k hs) \<Longrightarrow> distinct (map k (delete_where p hs))"
  by (induction hs) (auto simp: delete_where_def)

lemma acquire_tx_Inr:
  "acquire_tx clk ev seat key x s = Inr (n, s') \<longleftrightarrow>
     (let s1 = drop_expired (db_now clk) ev seat (s\<lparr>next_id := Suc (next_id s)\<rparr>);
          h = \<lparr>h_id = next_id s, h_eventId = ev, h_seatId = seat, h_holderKey = key,
               h_orderId = None, h_expiresAt = x, h_createdAt = db_now clk\<rparr>
      in if seat_sold seat s \<or> find_hold ev seat s1 \<noteq> None then n = 0 \<and> s' = s1
         else n = 1 \<and> s' = s1\<lparr>holds := holds s1 @ [h]\<rparr>)"
  by (auto simp: acquire_tx_def tx_simps insert_hold_def Let_def drop_expired_def)

lemma acquire_tx_unique: "keepsT holds_unique (acquire_tx clk ev seat key x)"
proof (unfold keepsT_def, intro allI impI)
  fix s n s' assume u: "holds_unique s" and a: "acquire_tx clk ev seat key x s = Inr (n, s')"
  let ?s1 = "drop_expired (db_now clk) ev seat (s\<lparr>next_id := Suc (next_id s)\<rparr>)"
  have "holds_unique ?s1"
    using u by (simp add: holds_unique_def drop_expired_def holds_unique_delete)
  with a show "holds_unique s'"
    by (auto simp: acquire_tx_Inr Let_def holds_unique_iff find_hold_None hold_key_def
        split: if_splits)
qed

lemma acquire_tx_free: "keepsT holds_free (acquire_tx clk ev seat key x)"
  by (auto simp: keepsT_def acquire_tx_Inr Let_def holds_free_def drop_expired_def row_simps
      split: if_splits)

text \<open>The winner holds the seat for itself alone, unbound, until the promised instant.\<close>

lemma acquire_tx_won:
  assumes "acquire_tx clk ev seat key x s = Inr (1, s')"
  shows "\<exists>h \<in> set (holds s'). hold_key h = (ev, seat) \<and> h_holderKey h = key \<and>
    h_orderId h = None \<and> h_expiresAt h = x"
  using assms by (auto simp: acquire_tx_Inr Let_def hold_key_def split: if_splits)

text \<open>While somebody's hold is alive the transaction changes no hold.\<close>

lemma acquire_tx_blocked:
  assumes "holds_unique s" and "h \<in> set (holds s)" and "hold_key h = (ev, seat)"
    and "db_now clk < h_expiresAt h"
  shows "acquire_tx clk ev seat key x s = Inr (0, s\<lparr>next_id := Suc (next_id s)\<rparr>)"
proof -
  have keep: "\<not> (h_eventId h' = ev \<and> h_seatId h' = seat \<and> h_expiresAt h' \<le> db_now clk)"
    if "h' \<in> set (holds s)" for h'
  proof
    assume *: "h_eventId h' = ev \<and> h_seatId h' = seat \<and> h_expiresAt h' \<le> db_now clk"
    with assms that have "h' = h"
      by (metis distinct_map_key_eq hold_key_def holds_unique_iff)
    with * assms(4) show False by simp
  qed
  then have "drop_expired (db_now clk) ev seat (s\<lparr>next_id := Suc (next_id s)\<rparr>) =
      s\<lparr>next_id := Suc (next_id s)\<rparr>"
    by (simp add: drop_expired_def delete_where_id)
  moreover have "(ev, seat) \<in> hold_key ` set (holds s)" using assms(2,3) by force
  ultimately show ?thesis
    by (simp add: acquire_tx_Inr Let_def find_hold_None)
qed

section \<open>The handlers keep the hold invariants\<close>

definition hold_inv :: "db \<Rightarrow> bool" where
  "hold_inv s \<longleftrightarrow> holds_unique s \<and> holds_free s"

lemma keepsT_conj: "keepsT P m \<Longrightarrow> keepsT Q m \<Longrightarrow> keepsT (\<lambda>s. P s \<and> Q s) m"
  by (auto simp: keepsT_def)

lemma acquire_tx_inv: "keepsT hold_inv (acquire_tx clk ev seat key x)"
  unfolding hold_inv_def by (intro keepsT_conj acquire_tx_unique acquire_tx_free)

lemma refresh_tx_inv: "keepsT hold_inv (refresh_tx i x)"
  by (auto simp: keepsT_def hold_inv_def holds_unique_def holds_free_def refresh_tx_def Let_def
      row_simps split: option.splits)

lemma writeR_keeps_db [keeps]: "(\<And>w. w_db (f w) = w_db w) \<Longrightarrow> keepsR (\<lambda>w. P (w_db w)) (writeR f)"
  by (simp add: keepsR_def writeR_def)

lemma acquire_inv: "keepsR (\<lambda>w. hold_inv (w_db w)) (acquire clk ttl ev seat key)"
  unfolding acquire_def Let_def
  by (intro keeps acquire_tx_inv refresh_tx_inv seatsChanged_frame
      | simp split: option.split add: keeps acquire_tx_inv refresh_tx_inv)+

lemma delete_holds_inv: "hold_inv s \<Longrightarrow> hold_inv (s\<lparr>holds := delete_where p (holds s)\<rparr>)"
  by (auto simp: hold_inv_def holds_unique_def holds_free_def holds_unique_delete row_simps)

lemma release_inv: "keepsR (\<lambda>w. hold_inv (w_db w)) (release ev seat key)"
  unfolding release_def Let_def
  by (intro keeps) (auto simp: keepsT_def delete_holds_inv)

lemma sweepExpired_inv: "keepsR (\<lambda>w. hold_inv (w_db w)) (sweepExpired now)"
  unfolding sweepExpired_def
  by (intro keeps) (auto simp: keepsT_def sweep_tx_def delete_holds_inv intro!: keeps)

section \<open>What acquire answers\<close>

text \<open>The seat can be taken: on sale, not sold, no live hold of anyone.\<close>

definition seat_available :: "millis \<Rightarrow> id \<Rightarrow> id \<Rightarrow> db \<Rightarrow> bool" where
  "seat_available now ev seat s \<longleftrightarrow> seat_on_sale ev seat s \<noteq> None \<and> \<not> seat_sold seat s \<and>
     (\<forall>h \<in> set (holds s). hold_key h = (ev, seat) \<longrightarrow> h_expiresAt h \<le> now)"

lemma seat_on_sale_frame [simp]:
  "seat_on_sale ev seat (s\<lparr>holds := hs\<rparr>) = seat_on_sale ev seat s"
  "seat_on_sale ev seat (s\<lparr>next_id := n\<rparr>) = seat_on_sale ev seat s"
  by (simp_all add: seat_on_sale_def is_published_def find_event_def)

lemma find_hold_dropped:
  "find_hold ev seat (drop_expired now ev seat s) = None \<longleftrightarrow>
     (\<forall>h \<in> set (holds s). hold_key h = (ev, seat) \<longrightarrow> h_expiresAt h \<le> now)"
  by (auto simp: find_hold_None drop_expired_def row_simps hold_key_def image_iff)

lemma acquire_wins:
  assumes "seat_available (db_now clk) ev seat (w_db w)"
    and "count_where (active_hold (app_now clk) ev key) (holds (w_db w)) < MAX_HELD_PER_KEY"
  obtains w' where "acquire clk ttl ev seat key w = (Inr (seat, app_now clk + ttl), w')"
    and "acquire_tx clk ev seat key (app_now clk + ttl) (w_db w) = Inr (1, w_db w')"
proof -
  obtain s' where tx: "acquire_tx clk ev seat key (app_now clk + ttl) (w_db w) = Inr (1, s')"
    using assms(1)
    by (simp add: acquire_tx_Inr Let_def seat_available_def find_hold_dropped)
  then have "acquire clk ttl ev seat key w =
      (Inr (seat, app_now clk + ttl), seatsChanged ev (held_change [seat]) (w\<lparr>w_db := s'\<rparr>))"
    using assms by (simp add: acquire_def handler_defs seat_available_def Let_def)
  moreover have "w_db (seatsChanged ev (held_change [seat]) (w\<lparr>w_db := s'\<rparr>)) = s'" by simp
  ultimately show ?thesis using tx that by metis
qed

lemma acquire_loses:
  assumes "seat_on_sale ev seat (w_db w) \<noteq> None"
    and "count_where (active_hold (app_now clk) ev key) (holds (w_db w)) < MAX_HELD_PER_KEY"
    and "holds_unique (w_db w)" and "h \<in> set (holds (w_db w))" and "hold_key h = (ev, seat)"
    and "db_now clk < h_expiresAt h" and "h_holderKey h \<noteq> key"
  shows "acquire clk ttl ev seat key w =
    (Inl (Conflict Seat_held), w\<lparr>w_db := (w_db w)\<lparr>next_id := Suc (next_id (w_db w))\<rparr>\<rparr>)"
proof -
  have "find_hold ev seat (w_db w) = Some h"
    using find_hold_unique [OF assms(3,4)] assms(5) by (simp add: hold_key_def)
  then have "find_hold ev seat ((w_db w)\<lparr>next_id := Suc (next_id (w_db w))\<rparr>) = Some h"
    by (simp add: find_hold_def)
  moreover note acquire_tx_blocked [OF assms(3-6), of key "app_now clk + ttl"]
  ultimately show ?thesis
    using assms(1,2,7) by (simp add: acquire_def handler_defs Let_def)
qed

text \<open>Any number of buyers tap the same seat, one after the other in some order.\<close>

fun acquire_all :: "clock \<Rightarrow> millis \<Rightarrow> id \<Rightarrow> id \<Rightarrow> string list \<Rightarrow> world \<Rightarrow>
    (error + id \<times> millis) list \<times> world" where
  "acquire_all clk ttl ev seat [] w = ([], w)"
| "acquire_all clk ttl ev seat (k # ks) w =
     (let (r, w1) = acquire clk ttl ev seat k w; (rs, w2) = acquire_all clk ttl ev seat ks w1
      in (r # rs, w2))"

definition below_cap :: "clock \<Rightarrow> id \<Rightarrow> string list \<Rightarrow> db \<Rightarrow> bool" where
  "below_cap clk ev ks s \<longleftrightarrow>
     (\<forall>k \<in> set ks. count_where (active_hold (app_now clk) ev k) (holds s) < MAX_HELD_PER_KEY)"

lemma acquire_all_lose:
  assumes "seat_on_sale ev seat (w_db w) \<noteq> None" and "below_cap clk ev ks (w_db w)"
    and "holds_unique (w_db w)" and "h \<in> set (holds (w_db w))" and "hold_key h = (ev, seat)"
    and "db_now clk < h_expiresAt h" and "h_holderKey h \<notin> set ks"
  shows "fst (acquire_all clk ttl ev seat ks w) = replicate (length ks) (Inl (Conflict Seat_held))"
  using assms
proof (induction ks arbitrary: w)
  case Nil
  then show ?case by simp
next
  case (Cons k ks)
  let ?w = "w\<lparr>w_db := (w_db w)\<lparr>next_id := Suc (next_id (w_db w))\<rparr>\<rparr>"
  have "acquire clk ttl ev seat k w = (Inl (Conflict Seat_held), ?w)"
    using Cons.prems by (intro acquire_loses) (auto simp: below_cap_def)
  moreover have "fst (acquire_all clk ttl ev seat ks ?w) =
      replicate (length ks) (Inl (Conflict Seat_held))"
    using Cons.prems by (intro Cons.IH) (auto simp: below_cap_def holds_unique_def)
  ultimately show ?case by (simp add: case_prod_unfold)
qed

section \<open>Properties\<close>

lemma below_cap_after:
  assumes "acquire_tx clk ev seat k x s = Inr (n, s')" and "k \<notin> set ks" and "below_cap clk ev ks s"
  shows "below_cap clk ev ks s'"
proof (unfold below_cap_def, intro ballI)
  fix j assume j: "j \<in> set ks"
  let ?a = "active_hold (app_now clk) ev j"
  have del: "count_where ?a (delete_where p hs) \<le> count_where ?a hs" for p hs
    by (induction hs) (auto simp: delete_where_def)
  have "count_where ?a (holds s') \<le> count_where ?a (holds s)"
    using assms(1,2) j del [of "\<lambda>h. h_eventId h = ev \<and> h_seatId h = seat \<and> h_expiresAt h \<le> db_now clk" "holds s"]
    by (auto simp: acquire_tx_Inr Let_def drop_expired_def active_hold_def split: if_splits)
  with assms(3) j show "count_where ?a (holds s') < MAX_HELD_PER_KEY"
    by (force simp: below_cap_def)
qed

text \<open>
  C1: Any number of buyers tap the same free seat, in any order. The first one gets it, with the
  promised expiry, and every other one is told that the seat is held.
\<close>

theorem seat_race_one_winner:
  assumes "seat_available (db_now clk) ev seat (w_db w)" and "holds_unique (w_db w)"
    and "below_cap clk ev (k # ks) (w_db w)" and "k \<notin> set ks" and "db_now clk < app_now clk + ttl"
  shows "fst (acquire_all clk ttl ev seat (k # ks) w) =
    Inr (seat, app_now clk + ttl) # replicate (length ks) (Inl (Conflict Seat_held))"
proof -
  have "count_where (active_hold (app_now clk) ev k) (holds (w_db w)) < MAX_HELD_PER_KEY"
    using assms(3) by (simp add: below_cap_def)
  from acquire_wins [OF assms(1) this] obtain w' where
    a: "acquire clk ttl ev seat k w = (Inr (seat, app_now clk + ttl), w')"
    and tx: "acquire_tx clk ev seat k (app_now clk + ttl) (w_db w) = Inr (1, w_db w')" .
  from acquire_tx_won [OF tx] obtain h where h: "h \<in> set (holds (w_db w'))" "hold_key h = (ev, seat)"
      "h_holderKey h = k" "h_expiresAt h = app_now clk + ttl" by blast
  have "below_cap clk ev ks (w_db w)" using assms(3) by (simp add: below_cap_def)
  from below_cap_after [OF tx assms(4) this] have "below_cap clk ev ks (w_db w')" .
  moreover have "holds_unique (w_db w')" using keepsTD [OF acquire_tx_unique assms(2) tx] .
  moreover have "seat_on_sale ev seat (w_db w') \<noteq> None"
    using assms(1) tx
    by (auto simp: seat_available_def acquire_tx_Inr Let_def drop_expired_def split: if_splits)
  ultimately have "fst (acquire_all clk ttl ev seat ks w') = replicate (length ks) (Inl (Conflict Seat_held))"
    using h assms(4,5) by (intro acquire_all_lose) auto
  with a show ?thesis by (simp add: case_prod_unfold)
qed

theorem seat_race_one_winner_witness:
  "fst (acquire_all demo_clock DEFAULT_HOLD_TTL_MS 1 10 (''buyer-one'' # [''buyer-two'', ''buyer-three'']) (demo_world demo_db)) =
    Inr (10, app_now demo_clock + DEFAULT_HOLD_TTL_MS) #
    replicate (length [''buyer-two'', ''buyer-three'']) (Inl (Conflict Seat_held))"
  by (rule seat_race_one_winner)
    (simp_all add: demo_defs seat_available_def seat_on_sale_def is_published_def find_event_def
      seat_sold_def holds_unique_def below_cap_def MAX_HELD_PER_KEY_def DEFAULT_HOLD_TTL_MS_def)

end
