(* ===== verification/Payments.thy ===== *)
theory Payments
  imports Refunds Holds
begin

text \<open>
  \<^verbatim>\<open>payments/payments.service.ts\<close> and its controller: the payment provider's webhooks. The
  signature check takes the keyed hash \<open>hmac\<close> as a parameter (secret, then text, to hexadecimal
  digest), the controller takes \<open>parse\<close>, which reads the event out of the body. Timestamps in the
  signature header are modelled as integers: \<open>js_integer\<close> is \<^verbatim>\<open>Number\<close> on optional white
  space, an optional sign and decimal digits, and anything else counts as not a number.
\<close>

definition SIGNATURE_TOLERANCE_MS :: millis where "SIGNATURE_TOLERANCE_MS = 300 * 1000"

section \<open>The signature\<close>

definition digit_value :: "char \<Rightarrow> int option" where
  "digit_value c = (let n = of_char c :: nat in if 48 \<le> n \<and> n \<le> 57 then Some (int n - 48) else None)"

fun digits_value :: "int \<Rightarrow> string \<Rightarrow> int option" where
  "digits_value acc [] = Some acc"
| "digits_value acc (c # cs) =
     (case digit_value c of None \<Rightarrow> None | Some d \<Rightarrow> digits_value (10 * acc + d) cs)"

text \<open>The empty string converts to zero; a lone sign does not convert.\<close>

definition js_integer :: "string \<Rightarrow> int option" where
  "js_integer s = (case trim s of
     [] \<Rightarrow> Some 0
   | c # cs \<Rightarrow>
       if c = CHR ''-'' then (if cs = [] then None else map_option uminus (digits_value 0 cs))
       else if c = CHR ''+'' then (if cs = [] then None else digits_value 0 cs)
       else digits_value 0 (c # cs))"

definition render_integer :: "int \<Rightarrow> string" where
  "render_integer n = (if n < 0 then ''-'' @ decimal (nat (- n)) else decimal (nat n))"

text \<open>\<^verbatim>\<open>part.split('=', 2)\<close> as a map entry: the value is missing when there is no separator.\<close>

definition header_entry :: "string \<Rightarrow> string \<times> string option" where
  "header_entry part = (case split_on (CHR ''='') part of
     [] \<Rightarrow> ('''', None) | [k] \<Rightarrow> (k, None) | k # v # _ \<Rightarrow> (k, Some v))"

definition header_parts :: "string \<Rightarrow> (string \<times> string option) list" where
  "header_parts header =
     fold (\<lambda>part m. AList.update (fst (header_entry part)) (snd (header_entry part)) m)
       (split_on (CHR '','') header) []"

definition header_get :: "string \<Rightarrow> string \<Rightarrow> string option" where
  "header_get header k = (case map_of (header_parts header) k of None \<Rightarrow> None | Some v \<Rightarrow> v)"

definition hex_value :: "char \<Rightarrow> nat option" where
  "hex_value c = (let n = of_char c :: nat in
     if 48 \<le> n \<and> n \<le> 57 then Some (n - 48)
     else if 97 \<le> n \<and> n \<le> 102 then Some (n - 87)
     else if 65 \<le> n \<and> n \<le> 70 then Some (n - 55) else None)"

text \<open>\<^verbatim>\<open>Buffer.from(s, 'hex')\<close>: whole bytes up to the first pair that is not hexadecimal.\<close>

fun hex_decode :: "string \<Rightarrow> nat list" where
  "hex_decode (a # b # cs) = (case (hex_value a, hex_value b) of
     (Some x, Some y) \<Rightarrow> (16 * x + y) # hex_decode cs | _ \<Rightarrow> [])"
| "hex_decode _ = []"

definition signed_text :: "int \<Rightarrow> string \<Rightarrow> string" where
  "signed_text timestamp body = render_integer timestamp @ ''.'' @ body"

definition verifySignature :: "(string \<Rightarrow> string \<Rightarrow> string) \<Rightarrow> string \<Rightarrow> millis \<Rightarrow> string option \<Rightarrow> string \<Rightarrow>
    error + unit" where
  "verifySignature hmac secret now header rawBody =
     (case header of
        None \<Rightarrow> Inl (Bad_request Missing_signature)
      | Some h \<Rightarrow>
      if h = [] then Inl (Bad_request Missing_signature)
      else
        (case (Option.bind (header_get h ''t'') js_integer, header_get h ''v1'') of
           (Some timestamp, Some signature) \<Rightarrow>
             if signature = [] then Inl (Bad_request Malformed_signature)
             else if \<bar>now - 1000 * timestamp\<bar> > SIGNATURE_TOLERANCE_MS then Inl (Bad_request Outside_tolerance)
             else if hex_decode signature \<noteq> hex_decode (hmac secret (signed_text timestamp rawBody))
               then Inl (Bad_request Invalid_signature)
             else Inr ()
         | _ \<Rightarrow> Inl (Bad_request Malformed_signature)))"

section \<open>Recording an event\<close>

text \<open>The parsed body; a field that is missing or empty is \<open>None\<close>.\<close>

record provider_event =
  we_id :: "string option"
  we_type :: string
  we_intentId :: "string option"
  we_orderId :: "id option"
  we_refundId :: "string option"
  we_reference :: "id option"

datatype record_result = Fresh | Unprocessed | Processed

definition find_webhook :: "string \<Rightarrow> db \<Rightarrow> webhook_event option" where
  "find_webhook i s = List.find (\<lambda>w. w_providerEventId w = i) (webhookEvents s)"

definition insert_webhook :: "string \<Rightarrow> string \<Rightarrow> unit db_tx" where
  "insert_webhook i ty s =
     (if find_webhook i s \<noteq> None then Inl (Prisma P2002)
      else Inr ((), s\<lparr>webhookEvents := webhookEvents s @
        [\<lparr>w_providerEventId = i, w_type = ty, w_processedAt = None\<rparr>]\<rparr>))"

definition recordEvent :: "string \<Rightarrow> string \<Rightarrow> record_result handler" where
  "recordEvent i ty =
     tryR (bindR (commit (insert_webhook i ty)) (\<lambda>_. returnR Fresh))
       (\<lambda>e. if e = Prisma P2002 then
              bindR (queryR (find_webhook i)) (\<lambda>existing.
              returnR (case existing of None \<Rightarrow> Unprocessed
                 | Some w \<Rightarrow> if w_processedAt w \<noteq> None then Processed else Unprocessed))
            else throwR e)"

definition markProcessed :: "millis \<Rightarrow> string \<Rightarrow> unit db_tx" where
  "markProcessed now i = writeT (\<lambda>s. s\<lparr>webhookEvents :=
     update_where (\<lambda>w. w_providerEventId w = i) (\<lambda>w. w\<lparr>w_processedAt := Some now\<rparr>) (webhookEvents s)\<rparr>)"

section \<open>payment.refunded\<close>

definition settle_row :: "millis \<Rightarrow> string option \<Rightarrow> refund \<Rightarrow> refund" where
  "settle_row now prov r = r\<lparr>r_status := R_succeeded, r_settledAt := Some now,
     r_providerRefundId := (case prov of None \<Rightarrow> r_providerRefundId r | Some p \<Rightarrow> Some p)\<rparr>"

definition refunded_tx :: "clock \<Rightarrow> id \<Rightarrow> string option \<Rightarrow> bool db_tx" where
  "refunded_tx clk rid prov =
     bindT (readT (\<lambda>s. count_where (refund_in rid R_pending) (refunds s))) (\<lambda>count.
     bindT (writeT (\<lambda>s. s\<lparr>refunds :=
        update_where (refund_in rid R_pending) (settle_row (app_now clk) prov) (refunds s)\<rparr>)) (\<lambda>_.
     if count = 0 then returnT False
     else
       bindT (readT (find_refund rid)) (\<lambda>found.
       bindT (someT (Prisma P2025) found) (\<lambda>refund.
       bindT (settleInTx (db_now clk) (r_orderId refund) (r_amountSatang refund)) (\<lambda>_.
       returnT True)))))"

definition handleRefunded :: "clock \<Rightarrow> provider_event \<Rightarrow> unit handler" where
  "handleRefunded clk ev =
     (case we_reference ev of
        None \<Rightarrow> returnR ()
      | Some rid \<Rightarrow> bindR (commit (refunded_tx clk rid (we_refundId ev))) (\<lambda>_. returnR ()))"

section \<open>payment.succeeded\<close>

datatype succeeded_outcome = Ignored | Paid_outcome | Unfulfillable id satang

definition find_payment :: "string \<Rightarrow> db \<Rightarrow> payment option" where
  "find_payment intent s = List.find (\<lambda>p. p_providerIntentId p = intent) (payments s)"

definition open_payment :: "string \<Rightarrow> payment \<Rightarrow> bool" where
  "open_payment intent p \<longleftrightarrow> p_providerIntentId p = intent \<and> p_status p = P_requires_action"

definition set_payment :: "string \<Rightarrow> payment_status \<Rightarrow> db \<Rightarrow> db" where
  "set_payment intent st s = s\<lparr>payments :=
     update_where (open_payment intent) (\<lambda>p. p\<lparr>p_status := st\<rparr>) (payments s)\<rparr>"

definition claim_paid :: "id \<Rightarrow> db \<Rightarrow> db" where
  "claim_paid orderId s = s\<lparr>orders :=
     update_where (claim_release orderId) (\<lambda>r. r\<lparr>o_status := Paid\<rparr>) (orders s)\<rparr>"

definition held_seat_ids :: "id \<Rightarrow> db \<Rightarrow> id list" where
  "held_seat_ids orderId s = map h_seatId (filter (\<lambda>h. h_orderId h = Some orderId) (holds s))"

text \<open>The order is claimed: consume its holds, take the seats off sale, issue the tickets.\<close>

definition fulfil_tx :: "millis \<Rightarrow> order \<Rightarrow> unit db_tx" where
  "fulfil_tx now order =
     bindT (readT (held_seat_ids (o_id order))) (\<lambda>seatIds.
     bindT (writeT (\<lambda>s. s\<lparr>holds := delete_where (\<lambda>h. h_orderId h = Some (o_id order)) (holds s)\<rparr>)) (\<lambda>_.
     bindT (readT (\<lambda>s. filter (\<lambda>st. s_id st \<in> set seatIds) (seats s))) (\<lambda>sts.
     bindT (readT (\<lambda>s. filter (is_ga_item s) (o_items order))) (\<lambda>gaItems.
     bindT (for_eachT (\<lambda>(tid, n). add_remaining tid (- n)) (tally (map s_ticketTypeId sts))) (\<lambda>_.
     bindT (for_eachT (issue_ticket now (o_id order) (o_eventId order) (o_buyerEmail order) (o_buyerName order))
              (ga_specs gaItems @ seat_specs sts)) (\<lambda>_.
     bindT (writeInTx now (Ticket_issued (o_id order))) (\<lambda>_.
     bindT (writeInTx now (Order_updated (o_id order) Paid)) (\<lambda>_.
     whenT (seatIds \<noteq> []) (writeInTx now (Seats_sold (o_eventId order) seatIds))))))))))"

definition succeeded_tx :: "millis \<Rightarrow> string \<Rightarrow> succeeded_outcome db_tx" where
  "succeeded_tx now intent =
     bindT (readT (find_payment intent)) (\<lambda>pay.
     case pay of
       None \<Rightarrow> returnT Ignored
     | Some payment \<Rightarrow>
       bindT (readT (\<lambda>s. count_where (open_payment intent) (payments s))) (\<lambda>paymentUpdated.
       bindT (writeT (set_payment intent P_succeeded)) (\<lambda>_.
       if paymentUpdated = 0 then returnT Ignored
       else
         bindT (readT (\<lambda>s. count_where (claim_release (p_orderId payment)) (orders s))) (\<lambda>orderUpdated.
         bindT (writeT (claim_paid (p_orderId payment))) (\<lambda>_.
         bindT (readT (find_order (p_orderId payment))) (\<lambda>found.
         if orderUpdated = 0 then
           (case found of
              None \<Rightarrow> returnT Ignored
            | Some stale \<Rightarrow>
                if o_status stale \<in> set UNFULFILLABLE_ORDER_STATUSES
                then returnT (Unfulfillable (p_orderId payment) (p_amountSatang payment))
                else returnT Ignored)
         else
           bindT (someT (Prisma P2025) found) (\<lambda>order.
           bindT (fulfil_tx now order) (\<lambda>_. returnT Paid_outcome))))))))"

definition handleSucceeded :: "clock \<Rightarrow> string http_answer \<Rightarrow> string \<Rightarrow> unit handler" where
  "handleSucceeded clk ans intent =
     bindR (commit (succeeded_tx (db_now clk) intent)) (\<lambda>outcome.
     case outcome of
       Unfulfillable orderId amount \<Rightarrow> compensateUnfulfilledPayment clk ans orderId amount intent
     | Paid_outcome \<Rightarrow> returnR ()
     | Ignored \<Rightarrow> returnR ())"

section \<open>payment.failed\<close>

definition failed_tx :: "millis \<Rightarrow> string \<Rightarrow> unit db_tx" where
  "failed_tx now intent =
     bindT (readT (find_payment intent)) (\<lambda>pay.
     case pay of
       None \<Rightarrow> returnT ()
     | Some payment \<Rightarrow>
       bindT (readT (\<lambda>s. count_where (open_payment intent) (payments s))) (\<lambda>paymentUpdated.
       bindT (writeT (set_payment intent P_failed)) (\<lambda>_.
       if paymentUpdated = 0 then returnT ()
       else bindT (releaseOrderInventoryInTx now (p_orderId payment) Canceled) (\<lambda>_. returnT ()))))"

definition handleFailed :: "millis \<Rightarrow> string \<Rightarrow> unit handler" where
  "handleFailed now intent = commit (failed_tx now intent)"

section \<open>The webhook\<close>

text \<open>\<^verbatim>\<open>processEvent\<close>; the controller has checked that the id and the intent are there.\<close>

definition processEvent :: "clock \<Rightarrow> string http_answer \<Rightarrow> string \<Rightarrow> string \<Rightarrow> provider_event \<Rightarrow> unit handler" where
  "processEvent clk ans i intent ev =
     bindR (if we_type ev = ''payment.succeeded'' then handleSucceeded clk ans intent
            else if we_type ev = ''payment.failed'' then handleFailed (db_now clk) intent
            else if we_type ev = ''payment.refunded'' then handleRefunded clk ev
            else returnR ()) (\<lambda>_.
     commit (markProcessed (app_now clk) i))"

text \<open>The answer says whether the delivery was a duplicate.\<close>

definition webhook :: "clock \<Rightarrow> (string \<Rightarrow> string \<Rightarrow> string) \<Rightarrow> string \<Rightarrow> (string \<Rightarrow> error + provider_event) \<Rightarrow>
    string http_answer \<Rightarrow> string option \<Rightarrow> string \<Rightarrow> bool handler" where
  "webhook clk hmac secret parse ans header rawBody =
     bindR (guardR (rawBody \<noteq> []) (Bad_request Missing_body)) (\<lambda>_.
     bindR (askR (\<lambda>_. verifySignature hmac secret (app_now clk) header rawBody)) (\<lambda>_.
     bindR (askR (\<lambda>_. parse rawBody)) (\<lambda>ev.
     bindR (guardR (we_id ev \<noteq> None \<and> we_intentId ev \<noteq> None \<and> we_orderId ev \<noteq> None)
        (Bad_request Malformed_event)) (\<lambda>_.
     let i = the (we_id ev); intent = the (we_intentId ev) in
     bindR (recordEvent i (we_type ev)) (\<lambda>result.
     if result = Processed then returnR True
     else bindR (processEvent clk ans i intent ev) (\<lambda>_. returnR False))))))"

text \<open>Each event type claims its row before it acts.\<close>

interpretation succeeded_claim: claim "open_payment intent" "\<lambda>p. p\<lparr>p_status := P_succeeded\<rparr>" for intent
  by unfold_locales (auto simp: open_payment_def)

interpretation failed_claim: claim "open_payment intent" "\<lambda>p. p\<lparr>p_status := P_failed\<rparr>" for intent
  by unfold_locales (auto simp: open_payment_def)

interpretation paid_claim: claim "claim_release orderId" "\<lambda>r. r\<lparr>o_status := Paid\<rparr>" for orderId
  by unfold_locales (auto simp: claim_release_def)

interpretation expired_claim: claim "claim_release orderId" "\<lambda>r. r\<lparr>o_status := Expired\<rparr>" for orderId
  by unfold_locales (auto simp: claim_release_def)

interpretation canceled_claim: claim "claim_release orderId" "\<lambda>r. r\<lparr>o_status := Canceled\<rparr>" for orderId
  by unfold_locales (auto simp: claim_release_def)

interpretation settle_claim: claim "refund_in rid R_pending" "settle_row now prov" for rid now prov
  by unfold_locales (auto simp: refund_in_def settle_row_def)

section \<open>Properties\<close>

text \<open>The header the provider puts on a delivery (services/paymock/signer.go).\<close>

definition signed_header :: "nat \<Rightarrow> string \<Rightarrow> string" where
  "signed_header t digest = ''t='' @ decimal t @ '',v1='' @ digest"

definition hex_digit :: "char \<Rightarrow> bool" where
  "hex_digit c \<longleftrightarrow> c \<in> set ''0123456789abcdef''"

definition decimal_digit :: "char \<Rightarrow> bool" where
  "decimal_digit c \<longleftrightarrow> 48 \<le> (of_char c :: nat) \<and> (of_char c :: nat) \<le> 57"

lemma digit_char: "d < 10 \<Longrightarrow> decimal_digit (char_of (48 + d)) \<and> digit_value (char_of (48 + d)) = Some (int d)"
  by (simp add: decimal_digit_def digit_value_def)

lemma decimal_digits: "list_all decimal_digit (decimal n) \<and> decimal n \<noteq> []"
proof (induction n rule: decimal.induct)
  case (1 n)
  show ?case
  proof (cases "n < 10")
    case True
    with digit_char [of n] show ?thesis by (simp add: decimal.simps [of n])
  next
    case False
    with 1 digit_char [of "n mod 10"] show ?thesis by (simp add: decimal.simps [of n])
  qed
qed

lemma digits_value_snoc:
  "digits_value a (xs @ [c]) =
     (case digits_value a xs of None \<Rightarrow> None | Some v \<Rightarrow> map_option (\<lambda>d. 10 * v + d) (digit_value c))"
  by (induction xs arbitrary: a) (auto split: option.splits)

lemma digits_value_decimal: "digits_value 0 (decimal n) = Some (int n)"
proof (induction n rule: decimal.induct)
  case (1 n)
  show ?case
  proof (cases "n < 10")
    case True
    with digit_char [of n] show ?thesis by (simp add: decimal.simps [of n])
  next
    case False
    with 1 digit_char [of "n mod 10"] show ?thesis
      by (simp add: decimal.simps [of n] digits_value_snoc of_nat_div of_nat_mod)
  qed
qed

lemma decimal_digit_plain:
  "decimal_digit c \<Longrightarrow> \<not> is_space c \<and> c \<noteq> CHR '','' \<and> c \<noteq> CHR ''='' \<and> c \<noteq> CHR ''-'' \<and> c \<noteq> CHR ''+'' \<and> c \<noteq> CHR ''.''"
  by (auto simp: decimal_digit_def is_space_def)

lemma dropWhile_none: "\<forall>x \<in> set xs. \<not> p x \<Longrightarrow> dropWhile p xs = xs"
  by (cases xs) auto

lemma js_integer_decimal: "js_integer (decimal n) = Some (int n)"
proof -
  obtain c cs where c: "decimal n = c # cs" using decimal_digits [of n] by (cases "decimal n") auto
  have d: "\<forall>x \<in> set (decimal n). decimal_digit x" using decimal_digits [of n] by (simp add: list_all_iff)
  have "trim (decimal n) = decimal n"
    using d decimal_digit_plain by (simp add: trim_def dropWhile_none)
  moreover have "c \<noteq> CHR ''-'' \<and> c \<noteq> CHR ''+''" using d c decimal_digit_plain [of c] by simp
  ultimately show ?thesis using digits_value_decimal [of n] by (simp add: js_integer_def c)
qed

lemma header_of_provider:
  assumes "list_all hex_digit digest"
  shows "header_get (signed_header t digest) ''t'' = Some (decimal t)"
    and "header_get (signed_header t digest) ''v1'' = Some digest"
proof -
  have "\<not> hex_digit (CHR '','')" "\<not> hex_digit (CHR ''='')" by (simp_all add: hex_digit_def)
  then have h: "CHR '','' \<notin> set digest" "CHR ''='' \<notin> set digest"
    using assms by (auto simp only: list_all_iff)
  have "decimal_digit c" if "c \<in> set (decimal t)" for c
    using decimal_digits [of t] that by (simp add: list_all_iff)
  then have t: "CHR '','' \<notin> set (decimal t)" "CHR ''='' \<notin> set (decimal t)"
    using decimal_digit_plain by blast+
  have "signed_header t digest = (''t='' @ decimal t) @ CHR '','' # ''v1='' @ digest"
    by (simp add: signed_header_def)
  then have s: "split_on (CHR '','') (signed_header t digest) = [''t='' @ decimal t, ''v1='' @ digest]"
    using t h split_on_sep [of "CHR '',''" "''t='' @ decimal t"] split_on_none [of "CHR '',''" "''v1='' @ digest"]
    by simp
  have e: "header_entry (''t='' @ decimal t) = (''t'', Some (decimal t))"
      "header_entry (''v1='' @ digest) = (''v1'', Some digest)"
    using t h split_on_none [of "CHR ''=''" "decimal t"] split_on_none [of "CHR ''=''" digest]
    by (simp_all add: header_entry_def)
  show "header_get (signed_header t digest) ''t'' = Some (decimal t)"
    and "header_get (signed_header t digest) ''v1'' = Some digest"
    unfolding header_get_def header_parts_def s fold.simps e
    using e by (simp_all add: map_of_alist_update)
qed

lemma signed_text_eq: "signed_text (int t) body = decimal t @ ''.'' @ body"
  by (simp add: signed_text_def render_integer_def)

text \<open>
  C25: The provider's own header is accepted for the body it signed as long as its timestamp is within
  five minutes of the clock, and the same header on any other body is refused as forged unless the
  two digests agree; outside the five minutes it is refused whatever the body.
\<close>

theorem signature_round_trip:
  assumes "list_all hex_digit (hmac secret (signed_text (int t) body))"
    and "hmac secret (signed_text (int t) body) \<noteq> []"
  shows "verifySignature hmac secret now (Some (signed_header t (hmac secret (signed_text (int t) body)))) body' =
    (if \<bar>now - 1000 * int t\<bar> > 300000 then Inl (Bad_request Outside_tolerance)
     else if hex_decode (hmac secret (signed_text (int t) body')) \<noteq> hex_decode (hmac secret (signed_text (int t) body))
       then Inl (Bad_request Invalid_signature)
     else Inr ())"
  using header_of_provider [OF assms(1), of t] assms(2)
  by (auto simp: verifySignature_def js_integer_decimal SIGNATURE_TOLERANCE_MS_def signed_header_def)

theorem signature_round_trip_witness:
  "verifySignature (\<lambda>k m. ''00ff'') ''key'' 1700000000000 (Some (signed_header 1700000000
      ((\<lambda>k m. ''00ff'') ''key'' (signed_text (int 1700000000) ''{}'')))) ''{}'' =
    (if \<bar>1700000000000 - 1000 * int 1700000000\<bar> > 300000 then Inl (Bad_request Outside_tolerance)
     else if hex_decode ((\<lambda>k m. ''00ff'') ''key'' (signed_text (int 1700000000) ''{}'')) \<noteq>
         hex_decode ((\<lambda>k m. ''00ff'') ''key'' (signed_text (int 1700000000) ''{}''))
       then Inl (Bad_request Invalid_signature)
     else Inr ())"
  by (rule signature_round_trip) (simp_all add: hex_digit_def)

end
