(* ===== verification/Seatmaps.thy ===== *)
theory Seatmaps
  imports Holds Access
begin

text \<open>
  \<^verbatim>\<open>seatmaps/seatmaps.service.ts\<close> with its DTO: laying out a seat map, and the map a buyer sees.
  \<open>place_sections\<close> is the cursor of the creation loop, \<open>section_seats\<close> its inner nest;
  the transaction writes what they compute.
\<close>

definition ROW_LETTERS :: string where "ROW_LETTERS = ''ABCDEFGHIJKLMNOPQRSTUVWXYZ''"
definition SECTION_GAP_ROWS :: int where "SECTION_GAP_ROWS = 1"

record section_dto =
  sd_name :: string
  sd_rows :: nat
  sd_cols :: nat
  sd_tierName :: string
  sd_priceSatang :: satang
  sd_x :: "int option"
  sd_y :: "int option"

definition valid_section :: "section_dto \<Rightarrow> bool" where
  "valid_section d \<longleftrightarrow> 1 \<le> length (sd_name d) \<and> length (sd_name d) \<le> 20 \<and>
     1 \<le> sd_rows d \<and> sd_rows d \<le> 26 \<and> 1 \<le> sd_cols d \<and> sd_cols d \<le> 30 \<and>
     1 \<le> length (sd_tierName d) \<and> length (sd_tierName d) \<le> 80 \<and>
     0 \<le> sd_priceSatang d \<and> sd_priceSatang d \<le> 100000000 \<and>
     (case sd_x d of None \<Rightarrow> True | Some x \<Rightarrow> 0 \<le> x \<and> x \<le> 80) \<and>
     (case sd_y d of None \<Rightarrow> True | Some y \<Rightarrow> 0 \<le> y \<and> y \<le> 200)"

definition valid_map_dto :: "section_dto list \<Rightarrow> bool" where
  "valid_map_dto ds \<longleftrightarrow> 1 \<le> length ds \<and> length ds \<le> 12 \<and> list_all valid_section ds"

section \<open>Layout\<close>

definition autoMaxCols :: "section_dto list \<Rightarrow> int" where
  "autoMaxCols ds = (if ds = [] then 0 else int (Max (set (map sd_cols ds))))"

definition section_x :: "int \<Rightarrow> section_dto \<Rightarrow> int" where
  "section_x amax d = (case sd_x d of Some x \<Rightarrow> x | None \<Rightarrow> (amax - int (sd_cols d)) div 2)"

definition section_y :: "int \<Rightarrow> section_dto \<Rightarrow> int" where
  "section_y yCursor d = (case sd_y d of Some y \<Rightarrow> y | None \<Rightarrow> yCursor)"

definition next_cursor :: "int \<Rightarrow> section_dto \<Rightarrow> int" where
  "next_cursor yCursor d = (if sd_y d = None
     then section_y yCursor d + int (sd_rows d) + SECTION_GAP_ROWS else yCursor)"

fun place_sections :: "int \<Rightarrow> int \<Rightarrow> section_dto list \<Rightarrow> (section_dto \<times> int \<times> int) list" where
  "place_sections amax yCursor [] = []"
| "place_sections amax yCursor (d # ds) =
     (d, section_x amax d, section_y yCursor d) # place_sections amax (next_cursor yCursor d) ds"

definition meta_of :: "section_dto \<times> int \<times> int \<Rightarrow> section_meta" where
  "meta_of p = (case p of (d, x, y) \<Rightarrow> \<lparr>sm_name = trim (sd_name d), sm_yStart = y,
     sm_rows = int (sd_rows d), sm_cols = int (sd_cols d), sm_xOffset = x\<rparr>)"

definition map_meta_of :: "(section_dto \<times> int \<times> int) list \<Rightarrow> map_meta" where
  "map_meta_of ps =
     \<lparr>mm_maxCols = fold (\<lambda>(d, x, y) m. max m (x + int (sd_cols d))) ps 0,
      mm_totalRows = fold (\<lambda>(d, x, y) m. max m (y + int (sd_rows d))) ps 0,
      mm_sections = map meta_of ps\<rparr>"

definition template_of :: "section_dto list \<Rightarrow> string" where
  "template_of ds = (if \<exists>d \<in> set ds. sd_x d \<noteq> None \<and> sd_y d \<noteq> None then ''custom'' else ''theater'')"

text \<open>A seat to create; its id is drawn when it is inserted.\<close>

definition seat_at :: "id \<Rightarrow> id \<Rightarrow> id \<Rightarrow> section_dto \<times> int \<times> int \<Rightarrow> nat \<Rightarrow> nat \<Rightarrow> seat" where
  "seat_at mapId ev tid p r c = (case p of (d, x, y) \<Rightarrow>
     \<lparr>s_id = 0, s_seatMapId = mapId, s_eventId = ev, s_ticketTypeId = tid,
      s_section = trim (sd_name d), s_rowLabel = ROW_LETTERS ! (r mod length ROW_LETTERS),
      s_number = int c + 1, s_x = x + int c, s_y = y + int r\<rparr>)"

definition section_seats :: "id \<Rightarrow> id \<Rightarrow> id \<Rightarrow> section_dto \<times> int \<times> int \<Rightarrow> seat list" where
  "section_seats mapId ev tid p =
     concat (map (\<lambda>r. map (seat_at mapId ev tid p r) [0..<sd_cols (fst p)]) [0..<sd_rows (fst p)])"

section \<open>Creating a map\<close>

text \<open>\<^verbatim>\<open>seats_seat_map_id_section_row_label_number_key\<close> and \<^verbatim>\<open>seat_maps_event_id_key\<close>.\<close>

definition seat_key :: "seat \<Rightarrow> id \<times> string \<times> char \<times> int" where
  "seat_key st = (s_seatMapId st, s_section st, s_rowLabel st, s_number st)"

definition insert_seat :: "seat \<Rightarrow> unit db_tx" where
  "insert_seat st =
     bindT fresh_id (\<lambda>i s. if seat_key st \<in> seat_key ` set (seats s) then Inl (Prisma P2002)
       else Inr ((), s\<lparr>seats := seats s @ [st\<lparr>s_id := i\<rparr>]\<rparr>))"

definition insert_map :: "id \<Rightarrow> id \<Rightarrow> string \<Rightarrow> unit db_tx" where
  "insert_map mapId ev template s =
     (if \<exists>m \<in> set (seatMaps s). map_eventId m = ev then Inl (Prisma P2002)
      else Inr ((), s\<lparr>seatMaps := seatMaps s @
        [\<lparr>map_id = mapId, map_eventId = ev, map_template = template, map_meta = None\<rparr>]\<rparr>))"

definition seated_type :: "millis \<Rightarrow> id \<Rightarrow> id \<Rightarrow> section_dto \<Rightarrow> ticket_type" where
  "seated_type now ev tid d = \<lparr>tt_id = tid, tt_eventId = ev, tt_kind = Seated,
     tt_name = trim (sd_tierName d), tt_priceSatang = sd_priceSatang d,
     tt_quantity = int (sd_rows d * sd_cols d), tt_remaining = int (sd_rows d * sd_cols d),
     tt_maxPerOrder = 8, tt_createdAt = now\<rparr>"

definition create_section :: "millis \<Rightarrow> id \<Rightarrow> id \<Rightarrow> section_dto \<times> int \<times> int \<Rightarrow> unit db_tx" where
  "create_section now ev mapId p =
     bindT fresh_id (\<lambda>tid.
     bindT (writeT (\<lambda>s. s\<lparr>ticketTypes := ticketTypes s @ [seated_type now ev tid (fst p)]\<rparr>)) (\<lambda>_.
     for_eachT insert_seat (section_seats mapId ev tid p)))"

definition create_map_tx :: "millis \<Rightarrow> id \<Rightarrow> section_dto list \<Rightarrow> (seat_map \<times> nat) db_tx" where
  "create_map_tx now ev ds =
     bindT fresh_id (\<lambda>mapId.
     bindT (insert_map mapId ev (template_of ds)) (\<lambda>_.
     let placed = place_sections (autoMaxCols ds) 0 ds in
     bindT (for_eachT (create_section now ev mapId) placed) (\<lambda>_.
     bindT (writeT (\<lambda>s. s\<lparr>seatMaps := update_where (\<lambda>m. map_id m = mapId)
        (\<lambda>m. m\<lparr>map_meta := Some (map_meta_of placed)\<rparr>) (seatMaps s)\<rparr>)) (\<lambda>_.
     bindT (readT (\<lambda>s. List.find (\<lambda>m. map_id m = mapId) (seatMaps s))) (\<lambda>found.
     bindT (someT (Prisma P2025) found) (\<lambda>m.
     readT (\<lambda>s. (m, count_where (\<lambda>st. s_seatMapId st = mapId) (seats s)))))))))"

definition create_map :: "millis \<Rightarrow> id \<Rightarrow> id \<Rightarrow> section_dto list \<Rightarrow> (seat_map \<times> nat) handler" where
  "create_map now ev u ds =
     bindR (askR (requireEventRole ev u Manager)) (\<lambda>_.
     bindR (queryR (\<lambda>s. List.find (\<lambda>m. map_eventId m = ev) (seatMaps s))) (\<lambda>existing.
     bindR (guardR (existing = None) (Conflict Has_seat_map)) (\<lambda>_.
     bindR (guardR (distinct (map (\<lambda>d. trim (sd_tierName d)) ds)) (Bad_request Tier_names_distinct)) (\<lambda>_.
     bindR (guardR (distinct (map (\<lambda>d. trim (sd_name d)) ds)) (Bad_request Section_names_distinct)) (\<lambda>_.
     commit (create_map_tx now ev ds))))))"

section \<open>The map a buyer sees\<close>

datatype seat_state = Sold | Held | Available

record seat_view =
  v_seat :: seat
  v_status :: seat_state
  v_mine :: bool
  v_expiresAt :: "millis option"

definition view_seat :: "(id \<Rightarrow> hold option) \<Rightarrow> id list \<Rightarrow> string option \<Rightarrow> seat \<Rightarrow> seat_view" where
  "view_seat hold_of sold key st =
     (let h = hold_of (s_id st);
          mine = (case h of None \<Rightarrow> False | Some h \<Rightarrow> key = Some (h_holderKey h))
      in \<lparr>v_seat = st,
          v_status = (if s_id st \<in> set sold then Sold else if h \<noteq> None then Held else Available),
          v_mine = mine,
          v_expiresAt = (if mine then map_option h_expiresAt h else None)\<rparr>)"

text \<open>The live holds of the event as a \<^verbatim>\<open>Map\<close>, the later of two equal keys counting.\<close>

definition live_holds :: "millis \<Rightarrow> id \<Rightarrow> db \<Rightarrow> id \<Rightarrow> hold option" where
  "live_holds now ev s = map_of (rev (map (\<lambda>h. (h_seatId h, h))
     (filter (\<lambda>h. h_eventId h = ev \<and> h_expiresAt h > now) (holds s))))"

definition sold_seats :: "id \<Rightarrow> db \<Rightarrow> id list" where
  "sold_seats ev s = List.map_filter t_seatId (filter (\<lambda>t. t_eventId t = ev \<and> live t) (tickets s))"

definition getForEvent :: "millis \<Rightarrow> id \<Rightarrow> string option \<Rightarrow> db \<Rightarrow>
    error + seat_map \<times> ticket_type list \<times> seat_view list" where
  "getForEvent now ev key s =
     (case List.find (\<lambda>m. map_eventId m = ev) (seatMaps s) of
        None \<Rightarrow> Inl (Not_found No_seat_map)
      | Some m \<Rightarrow> Inr (m,
          filter (\<lambda>tt. tt_eventId tt = ev \<and> tt_kind tt = Seated) (ticketTypes s),
          map (view_seat (live_holds now ev s) (sold_seats ev s) key)
            (sort_key s_y (sort_key s_x (filter (\<lambda>st. s_seatMapId st = map_id m) (seats s))))))"

section \<open>Seats of a layout\<close>

lemma ROW_LETTERS_distinct: "distinct ROW_LETTERS" and ROW_LETTERS_length [simp]: "length ROW_LETTERS = 26"
  by (simp_all add: ROW_LETTERS_def)

lemma row_letter_inj:
  "r < 26 \<Longrightarrow> r' < 26 \<Longrightarrow> ROW_LETTERS ! r = ROW_LETTERS ! r' \<longleftrightarrow> r = r'"
  using nth_eq_iff_index_eq [OF ROW_LETTERS_distinct, of r r'] by simp

lemma set_grid:
  "x \<in> set (concat (map (\<lambda>r. map (f r) [0..<n]) [0..<m])) \<longleftrightarrow> (\<exists>r c. r < m \<and> c < n \<and> x = f r c)"
  unfolding set_concat set_map set_upt by fastforce

lemma set_section_seats:
  "st \<in> set (section_seats mapId ev tid (d, x, y)) \<longleftrightarrow>
     (\<exists>r c. r < sd_rows d \<and> c < sd_cols d \<and> st = seat_at mapId ev tid (d, x, y) r c)"
  by (simp only: section_seats_def fst_conv set_grid)

lemma length_section_seats: "length (section_seats mapId ev tid (d, x, y)) = sd_rows d * sd_cols d"
  by (simp add: section_seats_def length_concat comp_def sum_list_triv)

lemma distinct_grid:
  assumes "\<And>r c r' c'. r < m \<Longrightarrow> c < n \<Longrightarrow> r' < m \<Longrightarrow> c' < n \<Longrightarrow> f r c = f r' c' \<Longrightarrow> r = r' \<and> c = c'"
  shows "distinct (concat (map (\<lambda>r. map (f r) [0..<n]) [0..<m]))"
  using assms
proof (induction m)
  case 0
  then show ?case by simp
next
  case (Suc m)
  have "distinct (concat (map (\<lambda>r. map (f r) [0..<n]) [0..<m]))"
    by (rule Suc.IH) (rule Suc.prems; simp)
  moreover have "distinct (map (f m) [0..<n])"
    by (auto simp: distinct_map inj_on_def dest!: Suc.prems [rotated -1])
  moreover have "set (concat (map (\<lambda>r. map (f r) [0..<n]) [0..<m])) \<inter> set (map (f m) [0..<n]) = {}"
  proof (rule ccontr)
    assume "\<not> ?thesis"
    then obtain r c c' where "r < m" "c < n" "c' < n" "f m c' = f r c" by auto
    with Suc.prems [of m c' r c] show False by simp
  qed
  ultimately show ?case by simp
qed

lemma distinct_section_keys:
  assumes "sd_rows d \<le> 26"
  shows "distinct (map seat_key (section_seats mapId ev tid (d, x, y)))"
proof -
  have "map seat_key (section_seats mapId ev tid (d, x, y)) =
      concat (map (\<lambda>r. map (\<lambda>c. (mapId, trim (sd_name d), ROW_LETTERS ! (r mod 26), int c + 1))
        [0..<sd_cols d]) [0..<sd_rows d])"
    by (simp add: section_seats_def map_concat comp_def seat_key_def seat_at_def)
  moreover have "distinct \<dots>"
    using assms by (intro distinct_grid) (auto simp: row_letter_inj dest!: less_le_trans [OF _ assms])
  ultimately show ?thesis by simp
qed

lemma seat_key_of_section:
  "k \<in> seat_key ` set (section_seats mapId ev tid p) \<Longrightarrow>
     fst k = mapId \<and> fst (snd k) = trim (sd_name (fst p))"
  by (cases p) (auto simp: set_section_seats seat_key_def seat_at_def)

lemma seat_key_id [simp]: "seat_key (st\<lparr>s_id := i\<rparr>) = seat_key st"
  by (simp add: seat_key_def)

text \<open>Inserting seats with new keys succeeds and adds exactly them, with the next ids.\<close>

fun numbered :: "id \<Rightarrow> seat list \<Rightarrow> seat list" where
  "numbered n [] = []"
| "numbered n (st # sts) = st\<lparr>s_id := n\<rparr> # numbered (Suc n) sts"

lemma numbered_simps [simp]:
  "length (numbered n sts) = length sts" "map seat_key (numbered n sts) = map seat_key sts"
  by (induction sts arbitrary: n) simp_all

lemma numbered_keys: "seat_key ` set (numbered n sts) = seat_key ` set sts"
  by (metis list.set_map numbered_simps(2))

lemma numbered_ids: "map s_id (numbered n sts) = [n..<n + length sts]"
  by (induction sts arbitrary: n) (simp_all add: upt_conv_Cons del: upt_Suc)

lemma numbered_fields: "list_all P sts \<Longrightarrow> (\<And>st i. P st \<Longrightarrow> P (st\<lparr>s_id := i\<rparr>)) \<Longrightarrow> list_all P (numbered n sts)"
  by (induction sts arbitrary: n) simp_all

lemma numbered_unnumbered: "list_all (\<lambda>st. s_id st = 0) sts \<Longrightarrow> map (\<lambda>st. st\<lparr>s_id := 0\<rparr>) (numbered n sts) = sts"
  by (induction sts arbitrary: n) simp_all

lemma section_seats_fields:
  "list_all (\<lambda>st. s_id st = 0 \<and> s_seatMapId st = mapId \<and> s_section st = trim (sd_name (fst p)))
     (section_seats mapId ev tid p)"
  by (cases p) (auto simp: list_all_iff set_section_seats seat_at_def)

lemma insert_seats_ok:
  assumes "distinct (map seat_key sts)" and "seat_key ` set sts \<inter> seat_key ` set (seats s) = {}"
  shows "for_eachT insert_seat sts s =
    Inr ((), s\<lparr>next_id := next_id s + length sts, seats := seats s @ numbered (next_id s) sts\<rparr>)"
  using assms
proof (induction sts arbitrary: s)
  case Nil
  then show ?case by simp
next
  case (Cons st sts)
  let ?s = "s\<lparr>next_id := Suc (next_id s), seats := seats s @ [st\<lparr>s_id := next_id s\<rparr>]\<rparr>"
  have step: "insert_seat st s = Inr ((), ?s)"
    using Cons.prems by (simp add: insert_seat_def bindT_def fresh_id_def)
  have "for_eachT insert_seat sts ?s =
      Inr ((), ?s\<lparr>next_id := next_id ?s + length sts, seats := seats ?s @ numbered (next_id ?s) sts\<rparr>)"
    using Cons.prems by (intro Cons.IH) auto
  with step show ?case by simp
qed

text \<open>
  The rows of a layout: the seats of the sections with the ids left out, and the tiers and seats
  that are written when the next free id is \<open>n\<close>.
\<close>

definition layout_seats :: "id \<Rightarrow> id \<Rightarrow> (section_dto \<times> int \<times> int) list \<Rightarrow> seat list" where
  "layout_seats mapId ev ps = concat (map (section_seats mapId ev 0) ps)"

fun section_rows :: "millis \<Rightarrow> id \<Rightarrow> id \<Rightarrow> id \<Rightarrow> (section_dto \<times> int \<times> int) list \<Rightarrow> id \<times> ticket_type list \<times> seat list" where
  "section_rows now ev mapId n [] = (n, [], [])"
| "section_rows now ev mapId n (p # ps) =
     (let sts = section_seats mapId ev n p;
          (n', tts, rest) = section_rows now ev mapId (Suc n + length sts) ps
      in (n', seated_type now ev n (fst p) # tts, numbered (Suc n) sts @ rest))"

lemma sections_ok:
  assumes "list_all (\<lambda>p. sd_rows (fst p) \<le> 26) ps"
    and "distinct (map (\<lambda>p. trim (sd_name (fst p))) ps)"
    and "\<And>st p. st \<in> set (seats s) \<Longrightarrow> p \<in> set ps \<Longrightarrow>
      s_seatMapId st = mapId \<Longrightarrow> s_section st \<noteq> trim (sd_name (fst p))"
    and "section_rows now ev mapId (next_id s) ps = (n, tts, new)"
  shows "for_eachT (create_section now ev mapId) ps s =
    Inr ((), s\<lparr>next_id := n, ticketTypes := ticketTypes s @ tts, seats := seats s @ new\<rparr>)"
  using assms
proof (induction ps arbitrary: s tts new)
  case Nil
  then show ?case by simp
next
  case (Cons p ps)
  let ?tid = "next_id s"
  let ?s = "s\<lparr>next_id := Suc ?tid, ticketTypes := ticketTypes s @ [seated_type now ev ?tid (fst p)]\<rparr>"
  let ?sts = "section_seats mapId ev ?tid p"
  let ?t = "?s\<lparr>next_id := Suc ?tid + length ?sts, seats := seats s @ numbered (Suc ?tid) ?sts\<rparr>"
  have d: "distinct (map seat_key ?sts)"
    using Cons.prems(1) by (cases p) (simp add: distinct_section_keys)
  have fields: "s_seatMapId st = mapId \<and> s_section st = trim (sd_name (fst p))" if "seat_key st \<in> seat_key ` set ?sts" for st
    using seat_key_of_section [OF that] by (simp add: seat_key_def)
  have new: "seat_key ` set ?sts \<inter> seat_key ` set (seats ?s) = {}"
  proof (rule equals0I, elim IntE)
    fix k assume k: "k \<in> seat_key ` set ?sts" and "k \<in> seat_key ` set (seats ?s)"
    from this(2) obtain st where st: "st \<in> set (seats s)" "k = seat_key st" by (rule imageE) simp
    from fields [of st] k Cons.prems(3) [OF st(1), of p] st(2) show False by simp
  qed
  obtain tts' new' where rest: "section_rows now ev mapId (Suc ?tid + length ?sts) ps = (n, tts', new')"
      "tts = seated_type now ev ?tid (fst p) # tts'" "new = numbered (Suc ?tid) ?sts @ new'"
    using Cons.prems(4) by (auto simp: Let_def split: prod.splits)
  from insert_seats_ok [OF d new] have step: "create_section now ev mapId p s = Inr ((), ?t)"
    by (simp add: create_section_def bindT_def fresh_id_def writeT_def)
  have away: "s_section st \<noteq> trim (sd_name (fst q))"
    if st: "st \<in> set (seats ?t)" and q: "q \<in> set ps" and m: "s_seatMapId st = mapId" for st q
  proof (cases "st \<in> set (seats s)")
    case True
    with Cons.prems(3) [of st q] q m show ?thesis by simp
  next
    case False
    with st have "seat_key st \<in> seat_key ` set (numbered (Suc ?tid) ?sts)" by auto
    from fields [OF this [unfolded numbered_keys]] Cons.prems(2) q show ?thesis by (auto simp: rev_image_eqI)
  qed
  have "for_eachT (create_section now ev mapId) ps ?t =
      Inr ((), ?t\<lparr>next_id := n, ticketTypes := ticketTypes ?t @ tts', seats := seats ?t @ new'\<rparr>)"
  proof (rule Cons.IH)
    show "section_rows now ev mapId (next_id ?t) ps = (n, tts', new')" using rest(1) by simp
  qed (use Cons.prems(1,2) away in simp_all)
  with step rest(2,3) show ?case by simp
qed

text \<open>Those rows: a tier for each section, its seats, and ids that were not in use.\<close>

lemma section_rows_ids:
  "section_rows now ev mapId n ps = (n', tts, new) \<Longrightarrow>
     n \<le> n' \<and> distinct (map tt_id tts @ map s_id new) \<and> set (map tt_id tts @ map s_id new) \<subseteq> {n..<n'}"
proof (induction ps arbitrary: n tts new)
  case (Cons p ps)
  let ?sts = "section_seats mapId ev n p"
  from Cons.prems obtain tts' new' where rest: "section_rows now ev mapId (Suc n + length ?sts) ps = (n', tts', new')"
      "tts = seated_type now ev n (fst p) # tts'" "new = numbered (Suc n) ?sts @ new'"
    by (auto simp: Let_def split: prod.splits)
  note ids = numbered_ids [of "Suc n" ?sts]
  have "set (map s_id (numbered (Suc n) ?sts)) = {Suc n..<Suc n + length ?sts}" "distinct (map s_id (numbered (Suc n) ?sts))"
    unfolding ids set_upt by (simp_all only: distinct_upt)
  with Cons.IH [OF rest(1)] show ?case unfolding rest(2,3) by (fastforce simp: seated_type_def)
qed simp

lemma section_rows_seats:
  "section_rows now ev mapId n ps = (n', tts, new) \<Longrightarrow> list_all (\<lambda>st. s_seatMapId st = mapId) new \<and>
     length new = sum_list (map (\<lambda>p. sd_rows (fst p) * sd_cols (fst p)) ps)"
proof (induction ps arbitrary: n tts new)
  case (Cons p ps)
  let ?sts = "section_seats mapId ev n p"
  have "list_all (\<lambda>st. s_seatMapId st = mapId) (numbered (Suc n) ?sts)"
    using section_seats_fields [of mapId p ev n] by (intro numbered_fields) (auto simp: list_all_iff)
  moreover have "length ?sts = sd_rows (fst p) * sd_cols (fst p)" by (cases p) (simp add: length_section_seats)
  ultimately show ?case using Cons by (auto simp: Let_def split: prod.splits)
qed simp

lemma section_rows_tiers:
  "section_rows now ev mapId n ps = (n', tts, new) \<Longrightarrow>
     list_all2 (\<lambda>tt p. tt = seated_type now ev (tt_id tt) (fst p)) tts ps \<and>
     map (\<lambda>st. st\<lparr>s_id := 0\<rparr>) new = concat (map2 (\<lambda>tt. section_seats mapId ev (tt_id tt)) tts ps)"
proof (induction ps arbitrary: n tts new)
  case (Cons p ps)
  let ?sts = "section_seats mapId ev n p"
  from Cons.prems obtain tts' new' where rest: "section_rows now ev mapId (Suc n + length ?sts) ps = (n', tts', new')"
      "tts = seated_type now ev n (fst p) # tts'" "new = numbered (Suc n) ?sts @ new'"
    by (auto simp: Let_def split: prod.splits)
  have "list_all (\<lambda>st. s_id st = 0) ?sts"
    using section_seats_fields [of mapId p ev n] by (simp add: list_all_iff)
  with Cons.IH [OF rest(1)] show ?case
    unfolding rest(2,3) by (simp add: numbered_unnumbered seated_type_def)
qed simp

section \<open>Bounds and overlap\<close>

lemma fold_max_ge: "(m::int) \<le> fold (\<lambda>p m. max m (f p)) ps m"
proof (induction ps arbitrary: m)
  case Nil
  then show ?case by simp
next
  case (Cons p ps)
  have "m \<le> max m (f p)" by simp
  also have "\<dots> \<le> fold (\<lambda>p m. max m (f p)) ps (max m (f p))" by (rule Cons.IH)
  finally show ?case by simp
qed

lemma fold_max_member: "p \<in> set ps \<Longrightarrow> f p \<le> fold (\<lambda>p m. max m (f p)) ps (m::int)"
proof (induction ps arbitrary: m)
  case Nil
  then show ?case by simp
next
  case (Cons q ps)
  show ?case
  proof (cases "p = q")
    case True
    have "f p \<le> max m (f p)" by simp
    also have "\<dots> \<le> fold (\<lambda>p m. max m (f p)) ps (max m (f p))" by (rule fold_max_ge)
    finally show ?thesis using True by simp
  next
    case False
    with Cons show ?thesis by simp
  qed
qed

lemma place_sections_members:
  assumes "(d, x, y) \<in> set (place_sections amax c ds)" and "0 \<le> c" and "list_all valid_section ds"
    and "\<And>d. d \<in> set ds \<Longrightarrow> int (sd_cols d) \<le> amax"
  shows "d \<in> set ds \<and> 0 \<le> x \<and> 0 \<le> y"
  using assms
proof (induction ds arbitrary: c)
  case Nil
  then show ?case by simp
next
  case (Cons e ds)
  have c': "0 \<le> next_cursor c e"
    using Cons.prems by (auto simp: next_cursor_def section_y_def SECTION_GAP_ROWS_def)
  show ?case
  proof (cases "(d, x, y) = (e, section_x amax e, section_y c e)")
    case True
    have "int (sd_cols e) \<le> amax" using Cons.prems(4) by simp
    then have "0 \<le> (amax - int (sd_cols e)) div 2" by simp
    with True Cons.prems show ?thesis
      by (auto simp: section_x_def section_y_def valid_section_def split: option.splits)
  next
    case False
    with Cons.prems c' Cons.IH [of "next_cursor c e"] show ?thesis by auto
  qed
qed

lemma autoMaxCols_ge: "d \<in> set ds \<Longrightarrow> int (sd_cols d) \<le> autoMaxCols ds"
  by (cases ds) (auto simp: autoMaxCols_def)

lemma layout_in_bounds:
  assumes "list_all valid_section ds" and "ps = place_sections (autoMaxCols ds) 0 ds"
    and "st \<in> set (layout_seats mapId ev ps)"
  shows "0 \<le> s_x st \<and> s_x st < mm_maxCols (map_meta_of ps) \<and>
    0 \<le> s_y st \<and> s_y st < mm_totalRows (map_meta_of ps)"
proof -
  from assms(3) obtain p where p: "p \<in> set ps" and st: "st \<in> set (section_seats mapId ev 0 p)"
    by (auto simp: layout_seats_def)
  obtain d x y where dxy: "p = (d, x, y)" by (cases p)
  from st obtain r c where rc: "r < sd_rows d" "c < sd_cols d" "s_x st = x + int c" "s_y st = y + int r"
    by (auto simp: dxy set_section_seats seat_at_def)
  have "0 \<le> x \<and> 0 \<le> y"
    using place_sections_members [of d x y "autoMaxCols ds" 0 ds] p dxy assms autoMaxCols_ge by auto
  moreover have "x + int (sd_cols d) \<le> mm_maxCols (map_meta_of ps)"
    using fold_max_member [OF p, of "\<lambda>(d, x, y). x + int (sd_cols d)" 0]
    by (simp add: map_meta_of_def dxy case_prod_unfold)
  moreover have "y + int (sd_rows d) \<le> mm_totalRows (map_meta_of ps)"
    using fold_max_member [OF p, of "\<lambda>(d, x, y). y + int (sd_rows d)" 0]
    by (simp add: map_meta_of_def dxy case_prod_unfold)
  ultimately show ?thesis using rc by simp
qed

text \<open>Sections without a position are stacked: each starts below the one before, with a gap.\<close>

lemma place_sections_below:
  "list_all (\<lambda>d. sd_y d = None) ds \<Longrightarrow> (d, x, y) \<in> set (place_sections amax c ds) \<Longrightarrow> c \<le> y"
proof (induction ds arbitrary: c)
  case Nil
  then show ?case by simp
next
  case (Cons e ds)
  from Cons.prems Cons.IH [of "next_cursor c e"] show ?case
    by (force simp: next_cursor_def section_y_def SECTION_GAP_ROWS_def)
qed

definition seat_pos :: "seat \<Rightarrow> int \<times> int" where
  "seat_pos st = (s_x st, s_y st)"

lemma distinct_section_positions: "distinct (map seat_pos (section_seats mapId ev tid (d, x, y)))"
proof -
  have "map seat_pos (section_seats mapId ev tid (d, x, y)) =
      concat (map (\<lambda>r. map (\<lambda>c. (x + int c, y + int r)) [0..<sd_cols d]) [0..<sd_rows d])"
    by (simp add: section_seats_def map_concat comp_def seat_pos_def seat_at_def)
  moreover have "distinct \<dots>" by (intro distinct_grid) auto
  ultimately show ?thesis by simp
qed

lemma auto_layout_no_overlap:
  "list_all (\<lambda>d. sd_y d = None) ds \<Longrightarrow>
     distinct (map seat_pos (layout_seats mapId ev (place_sections amax c ds)))"
proof (induction ds arbitrary: c)
  case Nil
  then show ?case by (simp add: layout_seats_def)
next
  case (Cons d ds)
  let ?c = "next_cursor c d"
  let ?p = "(d, section_x amax d, section_y c d)"
  have disj: "s_y st < s_y st'"
    if "st \<in> set (section_seats mapId ev 0 ?p)"
      and "st' \<in> set (layout_seats mapId ev (place_sections amax ?c ds))" for st st'
  proof -
    from that(2) obtain e x y where "(e, x, y) \<in> set (place_sections amax ?c ds)"
        and "st' \<in> set (section_seats mapId ev 0 (e, x, y))"
      by (auto simp: layout_seats_def)
    then have "?c \<le> s_y st'"
      using place_sections_below [of ds e x y amax ?c] Cons.prems by (auto simp: set_section_seats seat_at_def)
    moreover have "s_y st < section_y c d + int (sd_rows d)"
      using that(1) by (auto simp: set_section_seats seat_at_def)
    ultimately show ?thesis using Cons.prems
      by (simp add: next_cursor_def SECTION_GAP_ROWS_def)
  qed
  have "seat_pos ` set (section_seats mapId ev 0 ?p) \<inter>
      seat_pos ` set (layout_seats mapId ev (place_sections amax ?c ds)) = {}"
    using disj by (force simp: seat_pos_def)
  moreover have "distinct (map seat_pos (layout_seats mapId ev (place_sections amax ?c ds)))"
    using Cons.prems by (intro Cons.IH) simp
  moreover have "distinct (map seat_pos (section_seats mapId ev 0 ?p))"
    by (rule distinct_section_positions)
  ultimately show ?case by (simp add: layout_seats_def)
qed

section \<open>Properties\<close>

lemma place_sections_dtos: "map fst (place_sections amax c ds) = ds"
  by (induction ds arbitrary: c) simp_all

lemma placed_dtos: "map (\<lambda>p. f (fst p)) (place_sections amax c ds) = map f ds"
  using arg_cong [OF place_sections_dtos [of amax c ds], of "map f"] by (simp add: comp_def)

lemma placed_rows:
  assumes "valid_map_dto ds"
  shows "list_all (\<lambda>p. sd_rows (fst p) \<le> 26) (place_sections amax c ds)"
proof -
  have "\<forall>n \<in> set (map (\<lambda>p. sd_rows (fst p)) (place_sections amax c ds)). n \<le> 26"
    using assms unfolding placed_dtos [of sd_rows] by (auto simp: valid_map_dto_def valid_section_def list_all_iff)
  then show ?thesis by (simp add: list_all_iff)
qed

definition seats_total :: "section_dto list \<Rightarrow> nat" where
  "seats_total ds = sum_list (map (\<lambda>d. sd_rows d * sd_cols d) ds)"

lemma length_layout: "length (layout_seats m ev (place_sections amax c ds)) = seats_total ds"
  by (induction ds arbitrary: c) (simp_all add: layout_seats_def seats_total_def length_section_seats)

lemma layout_keys_distinct:
  assumes "distinct (map (\<lambda>p. trim (sd_name (fst p))) ps)" and "\<forall>p \<in> set ps. sd_rows (fst p) \<le> 26"
  shows "distinct (map seat_key (layout_seats m ev ps))"
  using assms
proof (induction ps)
  case Nil
  then show ?case by (simp add: layout_seats_def)
  next
  case (Cons p ps)
  obtain d x y where p: "p = (d, x, y)" by (cases p)
  have "k \<notin> seat_key ` set (layout_seats m ev ps)" if k: "k \<in> seat_key ` set (section_seats m ev 0 p)" for k
  proof
    assume "k \<in> seat_key ` set (layout_seats m ev ps)"
    then obtain q where "q \<in> set ps" "k \<in> seat_key ` set (section_seats m ev 0 q)"
      by (auto simp: layout_seats_def)
    with seat_key_of_section [OF k] seat_key_of_section [of k m ev 0 q] Cons.prems(1) show False
      by (auto simp: image_iff)
  qed
  moreover have "distinct (map seat_key (section_seats m ev 0 p))"
    using Cons.prems(2) by (simp add: p distinct_section_keys)
  moreover have "distinct (map seat_key (layout_seats m ev ps))" using Cons by simp
  moreover have "layout_seats m ev (p # ps) = section_seats m ev 0 p @ layout_seats m ev ps"
    by (simp add: layout_seats_def)
  ultimately show ?case by (simp only: map_append distinct_append set_map) blast
  qed

lemma create_map_saves:
  assumes "valid_map_dto ds" and "distinct (map (\<lambda>d. trim (sd_name d)) ds)"
    and "distinct (map (\<lambda>d. trim (sd_tierName d)) ds)" and "requireEventRole ev u Manager (w_db w) = Inr x"
    and "list_all (\<lambda>m. map_eventId m \<noteq> ev \<and> map_id m < next_id (w_db w)) (seatMaps (w_db w))"
    and "list_all (\<lambda>st. s_seatMapId st < next_id (w_db w)) (seats (w_db w))"
    and "ps = place_sections (autoMaxCols ds) 0 ds"
  shows "\<exists>m tts new w'. create_map now ev u ds w = (Inr (m, seats_total ds), w') \<and>
    map_eventId m = ev \<and> map_template m = template_of ds \<and> map_meta m = Some (map_meta_of ps) \<and>
    list_all2 (\<lambda>tt d. tt = seated_type now ev (tt_id tt) d) tts ds \<and>
    map (\<lambda>st. st\<lparr>s_id := 0\<rparr>) new = concat (map2 (\<lambda>tt. section_seats (map_id m) ev (tt_id tt)) tts ps) \<and>
    distinct (map_id m # map tt_id tts @ map s_id new) \<and>
    set (map_id m # map tt_id tts @ map s_id new) \<subseteq> {next_id (w_db w)..<next_id (w_db w')} \<and>
    w' = w\<lparr>w_db := (w_db w)\<lparr>next_id := next_id (w_db w'), seatMaps := seatMaps (w_db w) @ [m],
      ticketTypes := ticketTypes (w_db w) @ tts, seats := seats (w_db w) @ new\<rparr>\<rparr>"
proof -
  let ?s = "w_db w" and ?m = "next_id (w_db w)"
  let ?row = "\<lparr>map_id = ?m, map_eventId = ev, map_template = template_of ds, map_meta = None\<rparr>"
  let ?s1 = "?s\<lparr>next_id := Suc ?m, seatMaps := seatMaps ?s @ [?row]\<rparr>"
  let ?done = "?row\<lparr>map_meta := Some (map_meta_of ps)\<rparr>"
  note dtos = placed_dtos [of _ "autoMaxCols ds" 0 ds, folded assms(7)]
  note rows = placed_rows [OF assms(1), of "autoMaxCols ds" 0, folded assms(7)]
  obtain n tts new where drawn: "section_rows now ev ?m (Suc ?m) ps = (n, tts, new)"
    by (cases "section_rows now ev ?m (Suc ?m) ps")
  have s1: "for_eachT (create_section now ev ?m) ps ?s1 =
      Inr ((), ?s1\<lparr>next_id := n, ticketTypes := ticketTypes ?s1 @ tts, seats := seats ?s1 @ new\<rparr>)"
  proof (rule sections_ok [OF rows])
    show "distinct (map (\<lambda>p. trim (sd_name (fst p))) ps)"
      using assms(2) dtos [of "\<lambda>d. trim (sd_name d)"] by simp
    show "s_section st \<noteq> trim (sd_name (fst p))"
      if "st \<in> set (seats ?s1)" "p \<in> set ps" "s_seatMapId st = ?m" for st p
      using that assms(6) by (auto simp: list_all_iff)
  qed (simp add: drawn)
  let ?s2 = "?s\<lparr>next_id := n, seatMaps := seatMaps ?s @ [?done], ticketTypes := ticketTypes ?s @ tts,
      seats := seats ?s @ new\<rparr>"
  have old: "update_where (\<lambda>m. map_id m = ?m) f (seatMaps ?s) = seatMaps ?s" for f
    using assms(5) by (intro update_where_id) (auto simp: list_all_iff)
  have none: "List.find (\<lambda>m. map_id m = ?m) (seatMaps ?s) = None" "List.find (\<lambda>m. map_eventId m = ev) (seatMaps ?s) = None"
    using assms(5) by (auto simp: find_None_iff list_all_iff)
  have count: "count_where (\<lambda>st. s_seatMapId st = ?m) (seats ?s) + count_where (\<lambda>st. s_seatMapId st = ?m) new = seats_total ds"
  proof -
    have "filter (\<lambda>st. s_seatMapId st = ?m) (seats ?s) = []" using assms(6) by (auto simp: filter_empty_conv list_all_iff)
    moreover have "filter (\<lambda>st. s_seatMapId st = ?m) new = new" "length new = seats_total ds"
      using section_rows_seats [OF drawn] dtos [of "\<lambda>d. sd_rows d * sd_cols d"]
      by (auto simp: filter_id_conv list_all_iff seats_total_def)
    ultimately show ?thesis by (simp add: count_where_def)
  qed
  have "create_map_tx now ev ds ?s = Inr ((?done, seats_total ds), ?s2)"
  proof -
    have "\<not> (\<exists>m \<in> set (seatMaps ?s). map_eventId m = ev)" using assms(5) by (auto simp: list_all_iff)
    then have ins: "insert_map ?m ev (template_of ds) (?s\<lparr>next_id := Suc ?m\<rparr>) = Inr ((), ?s1)"
      by (simp add: insert_map_def)
    show ?thesis
      unfolding create_map_tx_def Let_def assms(7) [symmetric]
      by (simp add: bindT_def fresh_id_def ins s1 writeT_def readT_def someT_def old find_append none count)
  qed
  then have created: "create_map now ev u ds w = (Inr (?done, seats_total ds), w\<lparr>w_db := ?s2\<rparr>)"
    using assms(2-4) none(2) by (simp add: create_map_def handler_defs)
  have ds: "ds = map fst ps" using place_sections_dtos assms(7) by simp
  note section_rows_tiers [OF drawn]
  then have "list_all2 (\<lambda>tt d. tt = seated_type now ev (tt_id tt) d) tts ds"
    "map (\<lambda>st. st\<lparr>s_id := 0\<rparr>) new = concat (map2 (\<lambda>tt. section_seats ?m ev (tt_id tt)) tts ps)"
    by (simp_all add: ds list_all2_map2)
  then show ?thesis
    using section_rows_ids [OF drawn]
    by (intro exI [of _ ?done] exI [of _ tts] exI [of _ new] exI [of _ "w\<lparr>w_db := ?s2\<rparr>"] conjI)
      (auto simp: created)
qed

text \<open>
  C29: Every valid layout can be saved. A manager's request that passed validation, for an event with
  no map, with distinct section names and distinct tier names, always succeeds (no two seats ever
  collide on the unique index). It adds the map with the computed extent, one seated ticket type for
  each section, with that section's tier name, its price and as much stock as it has seats, and
  exactly one seat for each row and column of each section, at its place and on sale under the ticket
  type of its own section. Every id is new, and nothing else in the database or the process changes:
  all rows that existed stay as they are.
\<close>

theorem seat_map_created:
  assumes "valid_map_dto ds" and "distinct (map (\<lambda>d. trim (sd_name d)) ds)"
    and "distinct (map (\<lambda>d. trim (sd_tierName d)) ds)" and "requireEventRole ev u Manager (w_db w) = Inr x"
    and "list_all (\<lambda>m. map_eventId m \<noteq> ev \<and> map_id m < next_id (w_db w)) (seatMaps (w_db w))"
    and "list_all (\<lambda>st. s_seatMapId st < next_id (w_db w)) (seats (w_db w))"
    and "ps = place_sections (autoMaxCols ds) 0 ds"
  shows "\<exists>m tts new w'. create_map now ev u ds w = (Inr (m, seats_total ds), w') \<and>
    map_eventId m = ev \<and> map_template m = template_of ds \<and> map_meta m = Some (map_meta_of ps) \<and>
    list_all2 (\<lambda>tt d. tt = seated_type now ev (tt_id tt) d) tts ds \<and>
    map (\<lambda>st. st\<lparr>s_id := 0\<rparr>) new = concat (map2 (\<lambda>tt. section_seats (map_id m) ev (tt_id tt)) tts ps) \<and>
    distinct (map_id m # map tt_id tts @ map s_id new) \<and>
    set (map_id m # map tt_id tts @ map s_id new) \<subseteq> {next_id (w_db w)..<next_id (w_db w')} \<and>
    w' = w\<lparr>w_db := (w_db w)\<lparr>next_id := next_id (w_db w'), seatMaps := seatMaps (w_db w) @ [m],
      ticketTypes := ticketTypes (w_db w) @ tts, seats := seats (w_db w) @ new\<rparr>\<rparr>"
  using assms by (rule create_map_saves)

definition demo_sections :: "section_dto list" where
  "demo_sections = [\<lparr>sd_name = ''Stalls'', sd_rows = 2, sd_cols = 3, sd_tierName = ''Gold'', sd_priceSatang = 900,
      sd_x = None, sd_y = None\<rparr>,
     \<lparr>sd_name = ''Circle'', sd_rows = 1, sd_cols = 4, sd_tierName = ''Silver'', sd_priceSatang = 500,
      sd_x = None, sd_y = None\<rparr>]"

definition demo_placed :: "(section_dto \<times> int \<times> int) list" where
  "demo_placed = place_sections (autoMaxCols demo_sections) 0 demo_sections"

lemma demo_sections_ok: "valid_map_dto demo_sections" "distinct (map (\<lambda>d. trim (sd_name d)) demo_sections)"
  "distinct (map (\<lambda>d. trim (sd_tierName d)) demo_sections)"
  by code_simp+

text \<open>The seats of the stalls are sold as Gold, those of the circle as Silver.\<close>

definition demo_saved :: db where
  "demo_saved = w_db (snd (create_map 5 1 6 demo_sections (demo_world demo_db)))"

lemma demo_saved_tiers:
  "length (ticketTypes demo_saved) = length (ticketTypes demo_db) + 2 \<and>
   map (\<lambda>st. map_option (\<lambda>tt. (s_section st, tt_name tt, tt_priceSatang tt)) (find_ticket_type (s_ticketTypeId st) demo_saved))
     (drop (length (seats demo_db)) (seats demo_saved)) =
   replicate 6 (Some (''Stalls'', ''Gold'', 900)) @ replicate 4 (Some (''Circle'', ''Silver'', 500))"
  by code_simp

theorem seat_map_created_witness:
  "\<exists>m tts new w'. create_map 5 1 6 demo_sections (demo_world demo_db) = (Inr (m, seats_total demo_sections), w') \<and>
    map_meta m = Some (map_meta_of demo_placed) \<and> list_all2 (\<lambda>tt d. tt = seated_type 5 1 (tt_id tt) d) tts demo_sections \<and>
    map (\<lambda>st. st\<lparr>s_id := 0\<rparr>) new = concat (map2 (\<lambda>tt. section_seats (map_id m) 1 (tt_id tt)) tts demo_placed) \<and>
    w' = (demo_world demo_db)\<lparr>w_db := demo_db\<lparr>next_id := next_id (w_db w'), seatMaps := seatMaps demo_db @ [m],
      ticketTypes := ticketTypes demo_db @ tts, seats := seats demo_db @ new\<rparr>\<rparr>"
proof -
  have role: "requireEventRole 1 6 Manager (w_db (demo_world demo_db)) = Inr (demo_event, Manager)" by code_simp
  have free: "list_all (\<lambda>m. map_eventId m \<noteq> 1 \<and> map_id m < next_id (w_db (demo_world demo_db))) (seatMaps (w_db (demo_world demo_db)))"
    "list_all (\<lambda>st. s_seatMapId st < next_id (w_db (demo_world demo_db))) (seats (w_db (demo_world demo_db)))"
    by (simp_all add: demo_defs)
  have world: "w_db (demo_world demo_db) = demo_db" by (simp add: demo_world_def)
  from seat_map_created [OF demo_sections_ok role free demo_placed_def, of 5] show ?thesis
    unfolding world by blast
qed

text \<open>
  C38: Seats lie inside the map. In every valid layout, whether its sections are placed by the
  organizer or automatically, every seat lies inside the extent the map reports; when the section
  names are distinct no two seats share section, row and number; and when the rows are placed
  automatically no two seats share a place.
\<close>

theorem seat_map_layout:
  assumes "valid_map_dto ds" and "ps = place_sections (autoMaxCols ds) 0 ds"
  shows "list_all (\<lambda>st. 0 \<le> s_x st \<and> s_x st < mm_maxCols (map_meta_of ps) \<and>
      0 \<le> s_y st \<and> s_y st < mm_totalRows (map_meta_of ps)) (layout_seats m ev ps) \<and>
    (distinct (map (\<lambda>d. trim (sd_name d)) ds) \<longrightarrow> distinct (map seat_key (layout_seats m ev ps))) \<and>
    (list_all (\<lambda>d. sd_y d = None) ds \<longrightarrow> distinct (map seat_pos (layout_seats m ev ps)))"
proof (intro conjI impI)
  show "list_all (\<lambda>st. 0 \<le> s_x st \<and> s_x st < mm_maxCols (map_meta_of ps) \<and>
      0 \<le> s_y st \<and> s_y st < mm_totalRows (map_meta_of ps)) (layout_seats m ev ps)"
    using layout_in_bounds [OF _ assms(2)] assms(1) by (auto simp: list_all_iff valid_map_dto_def)
next
  assume "distinct (map (\<lambda>d. trim (sd_name d)) ds)"
  with placed_rows [OF assms(1)] placed_dtos [of "\<lambda>d. trim (sd_name d)"]
  show "distinct (map seat_key (layout_seats m ev ps))"
    by (intro layout_keys_distinct) (auto simp: assms(2) list_all_iff)
next
  assume "list_all (\<lambda>d. sd_y d = None) ds"
  then show "distinct (map seat_pos (layout_seats m ev ps))"
    unfolding assms(2) by (rule auto_layout_no_overlap)
qed

text \<open>The theatre of two automatic sections, and one whose sections the organizer has placed side by side.\<close>

definition custom_sections :: "section_dto list" where
  "custom_sections = map (\<lambda>(d, x). d\<lparr>sd_x := Some x, sd_y := Some 2\<rparr>) (zip demo_sections [0, 5])"

definition custom_placed :: "(section_dto \<times> int \<times> int) list" where
  "custom_placed = place_sections (autoMaxCols custom_sections) 0 custom_sections"

lemma custom_sections_ok: "valid_map_dto custom_sections" "distinct (map (\<lambda>d. trim (sd_name d)) custom_sections)"
  by code_simp+

theorem seat_map_layout_witness:
  "distinct (map seat_key (layout_seats 7 1 demo_placed)) \<and> distinct (map seat_pos (layout_seats 7 1 demo_placed)) \<and>
    list_all (\<lambda>st. 0 \<le> s_x st \<and> s_x st < mm_maxCols (map_meta_of custom_placed) \<and>
      0 \<le> s_y st \<and> s_y st < mm_totalRows (map_meta_of custom_placed)) (layout_seats 7 1 custom_placed) \<and>
    distinct (map seat_key (layout_seats 7 1 custom_placed))"
  using seat_map_layout [OF demo_sections_ok(1) demo_placed_def, of 7 1] demo_sections_ok(2)
    seat_map_layout [OF custom_sections_ok(1) custom_placed_def, of 7 1] custom_sections_ok(2)
  by (simp add: demo_sections_def)

end
