(* ===== verification/Checkin.thy ===== *)
theory Checkin
  imports Orders Access
begin

text \<open>
  \<^verbatim>\<open>checkin/checkin.service.ts\<close>: admitting a ticket at the door, and the attendee export. The
  order in which the database collates tier names is the parameter \<open>collate\<close>. The export's
  format is specified by a reader for the CSV of RFC 4180, written as a state machine.
\<close>

section \<open>Checking in\<close>

datatype checkin_outcome = Outcome_checked_in | Outcome_already_checked_in

record checkin_result =
  c_outcome :: checkin_outcome
  c_ticketId :: id
  c_attendeeName :: string
  c_ticketType :: string
  c_seat :: "string option"
  c_status :: ticket_status
  c_checkedInAt :: "millis option"

definition admissible :: "id \<Rightarrow> ticket \<Rightarrow> bool" where
  "admissible i t \<longleftrightarrow> t_id t = i \<and> t_status t = Issued"

definition admit :: "millis \<Rightarrow> ticket \<Rightarrow> ticket" where
  "admit now t = t\<lparr>t_status := Checked_in, t_checkedInAt := Some now\<rparr>"

definition admit_tx :: "millis \<Rightarrow> id \<Rightarrow> nat db_tx" where
  "admit_tx now i s = Inr (count_where (admissible i) (tickets s),
     s\<lparr>tickets := update_where (admissible i) (admit now) (tickets s)\<rparr>)"

definition tier_name :: "db \<Rightarrow> ticket \<Rightarrow> string" where
  "tier_name s t = (case find_ticket_type (t_ticketTypeId t) s of None \<Rightarrow> '''' | Some tt \<Rightarrow> tt_name tt)"

definition ticket_seat :: "db \<Rightarrow> ticket \<Rightarrow> string option" where
  "ticket_seat s t = (case t_seatId t of None \<Rightarrow> None
     | Some i \<Rightarrow> map_option seat_label (List.find (\<lambda>st. s_id st = i) (seats s)))"

definition checkin_view :: "nat \<Rightarrow> ticket \<Rightarrow> db \<Rightarrow> checkin_result" where
  "checkin_view count t s =
     \<lparr>c_outcome = (if count = 1 then Outcome_checked_in else Outcome_already_checked_in),
      c_ticketId = t_id t, c_attendeeName = t_attendeeName t, c_ticketType = tier_name s t,
      c_seat = ticket_seat s t, c_status = t_status t, c_checkedInAt = t_checkedInAt t\<rparr>"

definition find_ticket :: "id \<Rightarrow> db \<Rightarrow> ticket option" where
  "find_ticket i s = List.find (\<lambda>t. t_id t = i) (tickets s)"

definition lookup_qr :: "id \<Rightarrow> id \<Rightarrow> db \<Rightarrow> error + ticket" where
  "lookup_qr ev qr s =
     (case List.find (\<lambda>t. t_qrToken t = qr) (tickets s) of
        None \<Rightarrow> Inl (Not_found Ticket_not_found)
      | Some t \<Rightarrow>
          if t_eventId t \<noteq> ev then Inl (Not_found Ticket_not_found)
          else if t_status t = Void then Inl (Bad_request Ticket_is_void) else Inr t)"

definition checkIn :: "millis \<Rightarrow> id \<Rightarrow> id \<Rightarrow> id \<Rightarrow> checkin_result handler" where
  "checkIn now ev actingUserId qrToken =
     bindR (askR (requireEventRole ev actingUserId Staff)) (\<lambda>_.
     bindR (askR (lookup_qr ev qrToken)) (\<lambda>t.
     bindR (commit (admit_tx now (t_id t))) (\<lambda>count.
     bindR (queryR (find_ticket (t_id t))) (\<lambda>found.
     bindR (someR (Prisma P2025) found) (\<lambda>fresh.
     bindR (guardR (\<not> (count = 0 \<and> t_status fresh = Void)) (Bad_request Ticket_is_void)) (\<lambda>_.
     queryR (checkin_view count fresh)))))))"

interpretation admission_claim: claim "admissible i" "admit now" for i now
  by unfold_locales (auto simp: admissible_def admit_def)

section \<open>The attendee export\<close>

definition dquote :: char where "dquote = CHR 0x22"
definition cr :: char where "cr = CHR 0x0D"
definition lf :: char where "lf = CHR 0x0A"

definition formula_char :: "char \<Rightarrow> bool" where
  "formula_char c \<longleftrightarrow> c \<in> {CHR ''='', CHR ''+'', CHR ''-'', CHR ''@'', CHR 0x09, CHR 0x0D}"

definition csv_guard :: "string \<Rightarrow> string" where
  "csv_guard v = (case v of [] \<Rightarrow> [] | c # cs \<Rightarrow> if formula_char c then CHR 0x27 # c # cs else c # cs)"

definition needs_quotes :: "string \<Rightarrow> bool" where
  "needs_quotes v \<longleftrightarrow> list_ex (\<lambda>c. c \<in> {dquote, CHR '','', cr, lf}) v"

definition double_quotes :: "string \<Rightarrow> string" where
  "double_quotes v = concat (map (\<lambda>c. if c = dquote then [dquote, dquote] else [c]) v)"

definition csvCell :: "string \<Rightarrow> string" where
  "csvCell v = (let g = csv_guard v in
     if needs_quotes g then dquote # double_quotes g @ [dquote] else g)"

definition pad :: "nat \<Rightarrow> nat \<Rightarrow> string" where
  "pad n k = (let d = decimal k in replicate (n - length d) (CHR ''0'') @ d)"

text \<open>\<^verbatim>\<open>Date.prototype.toISOString\<close> for the years 0 to 9999: the civil date of a day count.\<close>

definition civil :: "int \<Rightarrow> int \<times> int \<times> int" where
  "civil days =
     (let z = days + 719468; era = z div 146097; doe = z mod 146097;
          yoe = (doe - doe div 1460 + doe div 36524 - doe div 146096) div 365;
          doy = doe - (365 * yoe + yoe div 4 - yoe div 100);
          mp = (5 * doy + 2) div 153; d = doy - (153 * mp + 2) div 5 + 1;
          m = (if mp < 10 then mp + 3 else mp - 9)
      in (yoe + era * 400 + (if m \<le> 2 then 1 else 0), m, d))"

definition to_iso :: "millis \<Rightarrow> string" where
  "to_iso t =
     (let (y, m, d) = civil (t div 86400000); r = t mod 86400000
      in pad 4 (nat y) @ ''-'' @ pad 2 (nat m) @ ''-'' @ pad 2 (nat d) @ ''T'' @
         pad 2 (nat (r div 3600000)) @ '':'' @ pad 2 (nat (r div 60000 mod 60)) @ '':'' @
         pad 2 (nat (r div 1000 mod 60)) @ ''.'' @ pad 3 (nat (r mod 1000)) @ ''Z'')"

fun status_text :: "ticket_status \<Rightarrow> string" where
  "status_text Issued = ''issued''"
| "status_text Checked_in = ''checked_in''"
| "status_text Void = ''void''"

definition csv_header :: "string list" where
  "csv_header = [''Name'', ''Email'', ''Ticket Type'', ''Seat'', ''Status'', ''Checked In At'']"

definition attendee_row :: "db \<Rightarrow> ticket \<Rightarrow> string list" where
  "attendee_row s t = [t_attendeeName t, t_attendeeEmail t, tier_name s t,
     (case ticket_seat s t of None \<Rightarrow> '''' | Some l \<Rightarrow> l), status_text (t_status t),
     (case t_checkedInAt t of None \<Rightarrow> '''' | Some x \<Rightarrow> to_iso x)]"

definition attendee_rows :: "(string \<Rightarrow> nat) \<Rightarrow> id \<Rightarrow> db \<Rightarrow> string list list" where
  "attendee_rows collate ev s = csv_header # map (attendee_row s)
     (sort_key (\<lambda>t. collate (tier_name s t)) (sort_key t_createdAt
       (filter (\<lambda>t. t_eventId t = ev \<and> live t) (tickets s))))"

definition csv_text :: "string list list \<Rightarrow> string" where
  "csv_text rows = join_with [cr, lf] (map (\<lambda>row. join_with '','' (map csvCell row)) rows) @ [cr, lf]"

definition attendeesCsv :: "(string \<Rightarrow> nat) \<Rightarrow> id \<Rightarrow> id \<Rightarrow> db \<Rightarrow> error + string" where
  "attendeesCsv collate ev u s =
     (case requireEventRole ev u Manager s of
        Inl e \<Rightarrow> Inl e
      | Inr _ \<Rightarrow> Inr (csv_text (attendee_rows collate ev s)))"

section \<open>A reader for the export\<close>

datatype csv_mode = Cell_start | In_plain | In_quotes | Quote_seen | Row_end

fun csv_read :: "csv_mode \<Rightarrow> string \<Rightarrow> string list \<Rightarrow> string \<Rightarrow> string list list option" where
  "csv_read m cell row [] = (if m = Cell_start \<and> row = [] then Some [] else None)"
| "csv_read Cell_start cell row (c # cs) =
     (if c = dquote then csv_read In_quotes [] row cs
      else if c = CHR '','' then csv_read Cell_start [] (row @ [[]]) cs
      else if c = cr then csv_read Row_end [] (row @ [[]]) cs
      else if c = lf then None
      else csv_read In_plain [c] row cs)"
| "csv_read In_plain cell row (c # cs) =
     (if c = CHR '','' then csv_read Cell_start [] (row @ [cell]) cs
      else if c = cr then csv_read Row_end [] (row @ [cell]) cs
      else if c = dquote \<or> c = lf then None
      else csv_read In_plain (cell @ [c]) row cs)"
| "csv_read In_quotes cell row (c # cs) =
     (if c = dquote then csv_read Quote_seen cell row cs else csv_read In_quotes (cell @ [c]) row cs)"
| "csv_read Quote_seen cell row (c # cs) =
     (if c = dquote then csv_read In_quotes (cell @ [c]) row cs
      else if c = CHR '','' then csv_read Cell_start [] (row @ [cell]) cs
      else if c = cr then csv_read Row_end [] (row @ [cell]) cs
      else None)"
| "csv_read Row_end cell row (c # cs) =
     (if c = lf then map_option ((#) row) (csv_read Cell_start [] [] cs) else None)"

lemmas csv_chars = dquote_def cr_def lf_def

lemma csv_chars_distinct [simp]:
  "dquote \<noteq> CHR '',''" "dquote \<noteq> cr" "dquote \<noteq> lf" "cr \<noteq> CHR '',''" "lf \<noteq> CHR '',''" "cr \<noteq> lf"
  "CHR '','' \<noteq> dquote" "cr \<noteq> dquote" "lf \<noteq> dquote" "CHR '','' \<noteq> cr" "CHR '','' \<noteq> lf" "lf \<noteq> cr"
  by (simp_all add: csv_chars)

lemma read_quoted:
  "csv_read In_quotes cell row (double_quotes v @ dquote # rest) =
     csv_read Quote_seen (cell @ v) row rest"
proof (induction v arbitrary: cell)
  case Nil
  then show ?case by (simp add: double_quotes_def)
next
  case (Cons c v)
  have "double_quotes (c # v) = (if c = dquote then [dquote, dquote] else [c]) @ double_quotes v"
    by (simp add: double_quotes_def)
  with Cons.IH show ?case by simp
qed

lemma read_plain:
  "\<not> needs_quotes v \<Longrightarrow> csv_read In_plain cell row (v @ rest) = csv_read In_plain (cell @ v) row rest"
  by (induction v arbitrary: cell) (auto simp: needs_quotes_def)

text \<open>Reading one written cell up to the separator that follows it.\<close>

lemma read_cell_comma:
  "csv_read Cell_start cell row (csvCell v @ CHR '','' # rest) =
     csv_read Cell_start [] (row @ [csv_guard v]) rest"
proof (cases "needs_quotes (csv_guard v)")
  case True
  then show ?thesis by (simp add: csvCell_def Let_def read_quoted)
next
  case plain: False
  then show ?thesis
  proof (cases "csv_guard v")
    case Nil
    with plain show ?thesis by (simp add: csvCell_def)
  next
    case (Cons c cs)
    with plain have "c \<noteq> dquote" "c \<noteq> CHR '',''" "c \<noteq> cr" "c \<noteq> lf" "\<not> needs_quotes cs"
      by (auto simp: needs_quotes_def)
    with plain Cons show ?thesis by (simp add: csvCell_def read_plain)
  qed
qed

lemma read_cell_end:
  "csv_read Cell_start cell row (csvCell v @ cr # lf # rest) =
     map_option ((#) (row @ [csv_guard v])) (csv_read Cell_start [] [] rest)"
proof (cases "needs_quotes (csv_guard v)")
  case True
  then show ?thesis by (simp add: csvCell_def Let_def read_quoted)
next
  case plain: False
  then show ?thesis
  proof (cases "csv_guard v")
    case Nil
    with plain show ?thesis by (simp add: csvCell_def)
  next
    case (Cons c cs)
    with plain have "c \<noteq> dquote" "c \<noteq> CHR '',''" "c \<noteq> cr" "c \<noteq> lf" "\<not> needs_quotes cs"
      by (auto simp: needs_quotes_def)
    with plain Cons show ?thesis by (simp add: csvCell_def read_plain)
  qed
qed

lemma read_row:
  "vs \<noteq> [] \<Longrightarrow> csv_read Cell_start cell row (join_with '','' (map csvCell vs) @ cr # lf # rest) =
     map_option ((#) (row @ map csv_guard vs)) (csv_read Cell_start [] [] rest)"
proof (induction vs arbitrary: cell row)
  case Nil
  then show ?case by simp
next
  case (Cons v vs)
  show ?case
  proof (cases vs)
    case Nil
    then show ?thesis by (simp add: read_cell_end)
  next
    case (Cons w ws)
    with Cons.IH show ?thesis by (simp add: read_cell_comma)
  qed
qed

lemma csv_text_Cons:
  "csv_text (r # q # rows) = join_with '','' (map csvCell r) @ cr # lf # csv_text (q # rows)"
  by (simp add: csv_text_def)

lemma csv_text_read:
  "rows \<noteq> [] \<Longrightarrow> \<forall>r \<in> set rows. r \<noteq> [] \<Longrightarrow>
     csv_read Cell_start [] [] (csv_text rows) = Some (map (map csv_guard) rows)"
proof (induction rows)
  case Nil
  then show ?case by simp
next
  case (Cons r rows)
  show ?case
  proof (cases rows)
    case Nil
    with Cons.prems show ?thesis by (simp add: csv_text_def read_row)
  next
    case (Cons q qs)
    with Cons.IH Cons.prems show ?thesis by (simp add: csv_text_Cons read_row)
  qed
qed

lemma csv_guard_safe: "csv_guard v = c # cs \<Longrightarrow> \<not> formula_char c"
  by (auto simp: csv_guard_def formula_char_def split: list.splits if_splits)

section \<open>Properties\<close>

lemma find_ticket_iff:
  "distinct (map t_id (tickets s)) \<Longrightarrow> t \<in> set (tickets s) \<Longrightarrow> find_ticket (t_id t) s = Some t"
  unfolding find_ticket_def by (rule find_key)

lemma lookup_qr_Inr:
  "lookup_qr ev qr s = Inr t \<longleftrightarrow>
     List.find (\<lambda>t. t_qrToken t = qr) (tickets s) = Some t \<and> t_eventId t = ev \<and> t_status t \<noteq> Void"
  by (auto simp: lookup_qr_def split: option.splits)

lemma admit_tx_frame:
  assumes "admit_tx now i s = Inr (n, s')"
  shows "requireEventRole ev u need s' = requireEventRole ev u need s" and "tier_name s' = tier_name s"
    and "ticket_seat s' = ticket_seat s"
proof -
  have same: "events s' = events s" "teamMembers s' = teamMembers s" "ticketTypes s' = ticketTypes s" "seats s' = seats s"
    using assms by (auto simp: admit_tx_def)
  show "requireEventRole ev u need s' = requireEventRole ev u need s"
    unfolding requireEventRole_def resolveRole_def membershipRole_def find_event_def same ..
  show "tier_name s' = tier_name s" by (rule ext) (simp only: tier_name_def find_ticket_type_def same)
  show "ticket_seat s' = ticket_seat s" by (rule ext) (simp only: ticket_seat_def same)
qed

lemma admit_none:
  assumes "distinct (map t_id (tickets s))" and "t \<in> set (tickets s)" and "t_status t \<noteq> Issued"
  shows "admit_tx now (t_id t) s = Inr (0, s)"
proof -
  have "\<not> admissible (t_id t) k" if "k \<in> set (tickets s)" for k
    using assms that by (auto simp: admissible_def dest: distinct_map_key_eq)
  then show ?thesis by (simp add: admit_tx_def count_where_0 update_where_id)
qed

lemma admit_one:
  assumes "distinct (map t_id (tickets s))" and "t \<in> set (tickets s)" and "t_status t = Issued"
  shows "admit_tx now (t_id t) s =
    Inr (1, s\<lparr>tickets := update_where (admissible (t_id t)) (admit now) (tickets s)\<rparr>)"
proof -
  have "filter (admissible (t_id t)) (tickets s) = [t]"
    by (rule update_one [OF assms(1,2)]) (use assms(3) in \<open>auto simp: admissible_def\<close>)
  then show ?thesis by (simp add: admit_tx_def count_where_def)
qed

text \<open>What one scan answers, for a ticket that is not void.\<close>

lemma checkIn_eq:
  assumes "requireEventRole ev u Staff (w_db w) = Inr role" and "lookup_qr ev qr (w_db w) = Inr t"
    and "distinct (map t_id (tickets (w_db w)))"
  shows "checkIn now ev u qr w =
    (if t_status t = Issued
     then (Inr (checkin_view 1 (admit now t) (w_db w)),
           w\<lparr>w_db := (w_db w)\<lparr>tickets := update_where (admissible (t_id t)) (admit now) (tickets (w_db w))\<rparr>\<rparr>)
     else (Inr (checkin_view 0 t (w_db w)), w))"
proof -
  from assms(2) have t: "t \<in> set (tickets (w_db w))" "t_status t \<noteq> Void"
    by (auto simp: lookup_qr_Inr dest: find_SomeD)
  show ?thesis
  proof (cases "t_status t = Issued")
    case True
    let ?s = "(w_db w)\<lparr>tickets := update_where (admissible (t_id t)) (admit now) (tickets (w_db w))\<rparr>"
    have "find_ticket (t_id t) ?s = Some (admit now t)"
      using find_ticket_iff [OF assms(3) t(1)] True
      by (simp add: find_ticket_def find_update_where admit_def admissible_def)
    moreover note frame = admit_tx_frame [OF admit_one [OF assms(3) t(1) True, of now]]
    ultimately show ?thesis using True assms(1,2) admit_one [OF assms(3) t(1) True, of now]
      by (simp add: checkIn_def handler_defs checkin_view_def frame)
  next
    case False
    then show ?thesis
      using assms(1,2) admit_none [OF assms(3) t(1) False, of now] find_ticket_iff [OF assms(3) t(1)] t(2)
      by (simp add: checkIn_def handler_defs)
  qed
qed

lemma checkIn_Inr:
  assumes "checkIn now ev u qr w = (Inr res, w1)"
  obtains role t where "requireEventRole ev u Staff (w_db w) = Inr role" and "lookup_qr ev qr (w_db w) = Inr t"
  using assms by (auto simp: checkIn_def handler_defs split: sum.splits)

lemma admit_changes:
  assumes "t \<in> set (tickets (w_db w))" and "t_status t = Issued"
  shows "w\<lparr>w_db := (w_db w)\<lparr>tickets := update_where (admissible (t_id t)) (admit now) (tickets (w_db w))\<rparr>\<rparr> \<noteq> w"
    (is "?w \<noteq> w")
proof
  assume same: "?w = w"
  have "update_where (admissible (t_id t)) (admit now) (tickets (w_db w)) = tickets (w_db w)"
    using arg_cong [OF same, of "\<lambda>v. tickets (w_db v)"] by simp
  moreover have "count_where (admissible (t_id t)) (update_where (admissible (t_id t)) (admit now) (tickets (w_db w))) = 0"
    by (rule admission_claim.none_left)
  ultimately have "count_where (admissible (t_id t)) (tickets (w_db w)) = 0" by simp
  then show False using assms by (auto simp: count_where_0 admissible_def)
qed

text \<open>
  C21: One ticket, one entry. After a scan has been answered (by whichever member of the event's
  staff), the ticket stands as checked in, and every further scan of it, by any staff member at any
  time, answers `already checked in` with the same ticket, seat and first check-in time, and changes
  nothing; the first answer says `checked in` exactly when the ticket had not been used before.
\<close>

theorem check_in_once:
  assumes "checkIn now ev u qr w = (Inr res, w1)" and "distinct (map t_id (tickets (w_db w)))"
    and "requireEventRole ev u2 Staff (w_db w) = Inr role"
  shows "checkIn now2 ev u2 qr w1 = (Inr (res\<lparr>c_outcome := Outcome_already_checked_in\<rparr>), w1) \<and>
    c_status res = Checked_in \<and>
    (c_outcome res = Outcome_checked_in \<longleftrightarrow> w1 \<noteq> w) \<and>
    (w1 = w \<or> c_checkedInAt res = Some now)"
proof -
  from checkIn_Inr [OF assms(1)] obtain r t where r: "requireEventRole ev u Staff (w_db w) = Inr r"
    and l: "lookup_qr ev qr (w_db w) = Inr t" .
  from l have find: "List.find (\<lambda>t. t_qrToken t = qr) (tickets (w_db w)) = Some t" and ev: "t_eventId t = ev"
    and void: "t_status t \<noteq> Void"
    by (simp_all add: lookup_qr_Inr)
  from find_SomeD [OF find] have t: "t \<in> set (tickets (w_db w))" by simp
  note first = checkIn_eq [OF r l assms(2), of now]
  show ?thesis
  proof (cases "t_status t = Issued")
    case True
    let ?s = "(w_db w)\<lparr>tickets := update_where (admissible (t_id t)) (admit now) (tickets (w_db w))\<rparr>"
    from first True assms(1) have w1: "w1 = w\<lparr>w_db := ?s\<rparr>" and res: "res = checkin_view 1 (admit now t) (w_db w)"
      by simp_all
    note frame = admit_tx_frame [OF admit_one [OF assms(2) t True, of now]]
    have "lookup_qr ev qr ?s = Inr (admit now t)"
      using find ev True by (simp add: lookup_qr_Inr find_update_where admit_def admissible_def)
    moreover have "requireEventRole ev u2 Staff ?s = Inr role" using assms(3) by (simp add: frame)
    moreover have "distinct (map t_id (tickets ?s))" using assms(2) by (simp add: admit_def)
    ultimately have "checkIn now2 ev u2 qr w1 = (Inr (checkin_view 0 (admit now t) ?s), w1)"
      using checkIn_eq [of ev u2 w1 role qr "admit now t" now2] w1 by (simp add: admit_def)
    moreover have "w1 \<noteq> w" using admit_changes [OF t True] w1 by simp
    ultimately show ?thesis using res frame
      by (simp add: checkin_view_def admit_def)
  next
    case False
    with void have used: "t_status t = Checked_in" by (cases "t_status t") auto
    from first False assms(1) have w1: "w1 = w" and res: "res = checkin_view 0 t (w_db w)" by simp_all
    with checkIn_eq [OF assms(3) l assms(2), of now2] False used show ?thesis
      by (simp add: checkin_view_def)
  qed
qed

definition demo_entry :: checkin_result where
  "demo_entry = \<lparr>c_outcome = Outcome_checked_in, c_ticketId = 30, c_attendeeName = ''Ann'', c_ticketType = ''Floor'',
     c_seat = None, c_status = Checked_in, c_checkedInAt = Some 5000\<rparr>"

lemma demo_scan_first: "checkIn 5000 1 7 31 (demo_world paid_db) = (Inr demo_entry, snd (checkIn 5000 1 7 31 (demo_world paid_db)))"
  by code_simp

lemma demo_manager: "requireEventRole 1 6 Staff paid_db = Inr (demo_event, Manager)"
  by code_simp

theorem check_in_once_witness:
  "checkIn 6000 1 6 31 (snd (checkIn 5000 1 7 31 (demo_world paid_db))) =
      (Inr (demo_entry\<lparr>c_outcome := Outcome_already_checked_in\<rparr>), snd (checkIn 5000 1 7 31 (demo_world paid_db))) \<and>
    c_status demo_entry = Checked_in \<and>
    (c_outcome demo_entry = Outcome_checked_in \<longleftrightarrow> snd (checkIn 5000 1 7 31 (demo_world paid_db)) \<noteq> demo_world paid_db) \<and>
    (snd (checkIn 5000 1 7 31 (demo_world paid_db)) = demo_world paid_db \<or> c_checkedInAt demo_entry = Some 5000)"
proof (rule check_in_once [OF demo_scan_first])
  show "requireEventRole 1 6 Staff (w_db (demo_world paid_db)) = Inr (demo_event, Manager)"
    by (simp only: demo_world_def world.select_convs demo_manager)
  show "distinct (map t_id (tickets (w_db (demo_world paid_db))))" by (simp add: demo_defs)
qed

text \<open>
  C32: The attendee export is sound. Whatever names, e-mails, tiers and seats hold, the text a manager
  downloads parses (by the rules of RFC 4180) into exactly the header and one row per live ticket,
  cell by cell as written up to the leading quote that disarms a formula, and no cell begins with a
  character that a spreadsheet takes for a formula.
\<close>

theorem export_round_trip:
  assumes "attendeesCsv collate ev u s = Inr txt"
  shows "csv_read Cell_start [] [] txt = Some (map (map csv_guard) (attendee_rows collate ev s)) \<and>
    list_all (list_all (\<lambda>cell. cell = [] \<or> formula_char (hd cell) = False))
      (map (map csv_guard) (attendee_rows collate ev s)) \<and>
    length (attendee_rows collate ev s) = Suc (count_where (\<lambda>t. t_eventId t = ev \<and> live t) (tickets s))"
proof (intro conjI)
  have eq: "txt = csv_text (attendee_rows collate ev s)"
    using assms by (auto simp: attendeesCsv_def split: sum.splits)
  show "csv_read Cell_start [] [] txt = Some (map (map csv_guard) (attendee_rows collate ev s))"
    unfolding eq by (rule csv_text_read) (auto simp: attendee_rows_def csv_header_def attendee_row_def)
  show "list_all (list_all (\<lambda>cell. cell = [] \<or> formula_char (hd cell) = False))
      (map (map csv_guard) (attendee_rows collate ev s))"
  proof (simp add: list_all_iff, intro ballI)
    fix row cell assume "row \<in> set (attendee_rows collate ev s)" "cell \<in> set row"
    show "csv_guard cell = [] \<or> \<not> formula_char (hd (csv_guard cell))"
      using csv_guard_safe [of cell] by (cases "csv_guard cell") auto
  qed
  show "length (attendee_rows collate ev s) = Suc (count_where (\<lambda>t. t_eventId t = ev \<and> live t) (tickets s))"
    by (simp add: attendee_rows_def count_where_def)
qed

definition demo_export :: "error + string" where
  "demo_export = attendeesCsv (\<lambda>n. 0) 1 6 (paid_db\<lparr>tickets := [(demo_ticket 30 Issued)\<lparr>t_attendeeName := ''=1+1,2''\<rparr>]\<rparr>)"

lemma demo_export_ok: "attendeesCsv (\<lambda>n. 0) 1 6 (paid_db\<lparr>tickets := [(demo_ticket 30 Issued)\<lparr>t_attendeeName := ''=1+1,2''\<rparr>]\<rparr>) =
    Inr (projr demo_export)"
  by (simp add: demo_export_def attendeesCsv_def demo_manager requireEventRole_def resolveRole_def membershipRole_def
      find_event_def demo_defs)

theorem export_round_trip_witness:
  "csv_read Cell_start [] [] (projr demo_export) = Some (map (map csv_guard) (attendee_rows (\<lambda>n. 0) 1
      (paid_db\<lparr>tickets := [(demo_ticket 30 Issued)\<lparr>t_attendeeName := ''=1+1,2''\<rparr>]\<rparr>))) \<and>
    list_all (list_all (\<lambda>cell. cell = [] \<or> formula_char (hd cell) = False)) (map (map csv_guard) (attendee_rows (\<lambda>n. 0) 1
      (paid_db\<lparr>tickets := [(demo_ticket 30 Issued)\<lparr>t_attendeeName := ''=1+1,2''\<rparr>]\<rparr>))) \<and>
    length (attendee_rows (\<lambda>n. 0) 1 (paid_db\<lparr>tickets := [(demo_ticket 30 Issued)\<lparr>t_attendeeName := ''=1+1,2''\<rparr>]\<rparr>)) =
      Suc (count_where (\<lambda>t. t_eventId t = 1 \<and> live t)
        (tickets (paid_db\<lparr>tickets := [(demo_ticket 30 Issued)\<lparr>t_attendeeName := ''=1+1,2''\<rparr>]\<rparr>)))"
  by (rule export_round_trip [OF demo_export_ok])

end
