(* ===== verification/Events.thy ===== *)
theory Events
  imports Access
begin

text \<open>
  \<^verbatim>\<open>events/events.service.ts\<close> with its DTOs: creating, listing, showing, editing and publishing an
  event, and its ticket types. Titles are ASCII, so \<^verbatim>\<open>normalize('NFKD')\<close> is the identity and the
  letters and digits are the ASCII ones; dates are already instants; the random suffix of a slug
  is a parameter. \<open>updateTicketType\<close> is split into what its transaction reads and what it writes.
\<close>

section \<open>Input\<close>

record ticket_type_dto =
  ct_name :: string
  ct_quantity :: int
  ct_priceSatang :: satang
  ct_maxPerOrder :: "int option"

definition valid_ticket_type :: "ticket_type_dto \<Rightarrow> bool" where
  "valid_ticket_type d \<longleftrightarrow> 1 \<le> length (ct_name d) \<and> length (ct_name d) \<le> 80 \<and>
     1 \<le> ct_quantity d \<and> ct_quantity d \<le> 100000 \<and>
     0 \<le> ct_priceSatang d \<and> ct_priceSatang d \<le> 100000000 \<and>
     (case ct_maxPerOrder d of None \<Rightarrow> True | Some m \<Rightarrow> 1 \<le> m \<and> m \<le> 20)"

record create_event_dto =
  ce_title :: string
  ce_description :: "string option"
  ce_venueName :: string
  ce_startsAt :: millis
  ce_endsAt :: "millis option"
  ce_ticketTypes :: "ticket_type_dto list"

definition valid_event_dto :: "create_event_dto \<Rightarrow> bool" where
  "valid_event_dto d \<longleftrightarrow> 3 \<le> length (ce_title d) \<and> length (ce_title d) \<le> 120 \<and>
     (case ce_description d of None \<Rightarrow> True | Some x \<Rightarrow> length x \<le> 5000) \<and>
     1 \<le> length (ce_venueName d) \<and> length (ce_venueName d) \<le> 160 \<and>
     1 \<le> length (ce_ticketTypes d) \<and> length (ce_ticketTypes d) \<le> 10 \<and>
     list_all valid_ticket_type (ce_ticketTypes d)"

record update_event_dto =
  ue_title :: "string option"
  ue_description :: "string option"
  ue_venueName :: "string option"
  ue_startsAt :: "millis option"
  ue_endsAt :: "millis option"

record update_ticket_type_dto =
  ut_name :: "string option"
  ut_quantity :: "int option"
  ut_maxPerOrder :: "int option"

definition valid_ticket_type_update :: "update_ticket_type_dto \<Rightarrow> bool" where
  "valid_ticket_type_update d \<longleftrightarrow>
     (case ut_name d of None \<Rightarrow> True | Some x \<Rightarrow> 1 \<le> length x \<and> length x \<le> 80) \<and>
     (case ut_quantity d of None \<Rightarrow> True | Some n \<Rightarrow> 1 \<le> n \<and> n \<le> 100000) \<and>
     (case ut_maxPerOrder d of None \<Rightarrow> True | Some m \<Rightarrow> 1 \<le> m \<and> m \<le> 20)"

section \<open>Slugs\<close>

definition is_alnum :: "char \<Rightarrow> bool" where
  "is_alnum c \<longleftrightarrow> (let n = of_char c :: nat in
     48 \<le> n \<and> n \<le> 57 \<or> 65 \<le> n \<and> n \<le> 90 \<or> 97 \<le> n \<and> n \<le> 122)"

text \<open>Every run of other characters becomes one hyphen.\<close>

fun hyphenate :: "bool \<Rightarrow> string \<Rightarrow> string" where
  "hyphenate in_run [] = []"
| "hyphenate in_run (c # cs) =
     (if is_alnum c then c # hyphenate False cs
      else if in_run then hyphenate True cs else CHR ''-'' # hyphenate True cs)"

definition strip_hyphens :: "string \<Rightarrow> string" where
  "strip_hyphens s = rev (dropWhile (\<lambda>c. c = CHR ''-'') (rev (dropWhile (\<lambda>c. c = CHR ''-'') s)))"

definition slugify :: "string \<Rightarrow> string" where
  "slugify title = (let base = take 60 (strip_hyphens (hyphenate False (to_lower title)))
     in if base = [] then ''event'' else base)"

section \<open>Operations\<close>

definition insert_event :: "event_row \<Rightarrow> unit db_tx" where
  "insert_event e s =
     (if \<exists>e' \<in> set (events s). ev_slug e' = ev_slug e then Inl (Prisma P2002)
      else Inr ((), s\<lparr>events := events s @ [e]\<rparr>))"

definition insert_ticket_type :: "millis \<Rightarrow> id \<Rightarrow> ticket_type_dto \<Rightarrow> unit db_tx" where
  "insert_ticket_type now ev d =
     bindT fresh_id (\<lambda>i. writeT (\<lambda>s. s\<lparr>ticketTypes := ticketTypes s @
       [\<lparr>tt_id = i, tt_eventId = ev, tt_kind = Ga, tt_name = trim (ct_name d),
         tt_priceSatang = ct_priceSatang d, tt_quantity = ct_quantity d,
         tt_remaining = ct_quantity d,
         tt_maxPerOrder = (case ct_maxPerOrder d of None \<Rightarrow> 10 | Some m \<Rightarrow> m),
         tt_createdAt = now\<rparr>]\<rparr>))"

record public_event =
  pe_event :: event_row
  pe_ticketTypes :: "ticket_type list"
  pe_organizer :: "(id \<times> string) option"
  pe_seatMap :: "id option"

definition event_types :: "id \<Rightarrow> db \<Rightarrow> ticket_type list" where
  "event_types ev s = sort_key tt_createdAt (filter (\<lambda>tt. tt_eventId tt = ev) (ticketTypes s))"

definition event_map :: "id \<Rightarrow> db \<Rightarrow> seat_map option" where
  "event_map ev s = List.find (\<lambda>m. map_eventId m = ev) (seatMaps s)"

definition public_view :: "event_row \<Rightarrow> db \<Rightarrow> public_event" where
  "public_view e s =
     \<lparr>pe_event = e, pe_ticketTypes = event_types (ev_id e) s,
      pe_organizer = map_option (\<lambda>u. (u_id u, u_displayName u))
        (List.find (\<lambda>u. u_id u = ev_organizerId e) (users s)),
      pe_seatMap = map_option map_id (event_map (ev_id e) s)\<rparr>"

definition load_event :: "id \<Rightarrow> public_event db_tx" where
  "load_event ev = bindT (readT (find_event ev)) (\<lambda>found.
     bindT (someT (Prisma P2025) found) (\<lambda>e. readT (public_view e)))"

definition create_event_tx :: "millis \<Rightarrow> string \<Rightarrow> id \<Rightarrow> create_event_dto \<Rightarrow> public_event db_tx" where
  "create_event_tx now suffix organizerId d =
     bindT fresh_id (\<lambda>i.
     bindT (insert_event \<lparr>ev_id = i, ev_organizerId = organizerId,
        ev_slug = slugify (ce_title d) @ ''-'' @ suffix, ev_title = trim (ce_title d),
        ev_description = (case ce_description d of None \<Rightarrow> '''' | Some x \<Rightarrow> x),
        ev_venueName = trim (ce_venueName d), ev_startsAt = ce_startsAt d,
        ev_endsAt = ce_endsAt d, ev_status = Draft, ev_isDemo = False, ev_dropMode = False,
        ev_createdAt = now\<rparr>) (\<lambda>_.
     bindT (for_eachT (insert_ticket_type now i) (ce_ticketTypes d)) (\<lambda>_.
     load_event i)))"

definition create_event :: "millis \<Rightarrow> string \<Rightarrow> id \<Rightarrow> create_event_dto \<Rightarrow> public_event handler" where
  "create_event now suffix organizerId d = commit (create_event_tx now suffix organizerId d)"

definition listMyEvents :: "id \<Rightarrow> db \<Rightarrow> (public_event \<times> nat) list" where
  "listMyEvents u s = map (\<lambda>e. (public_view e s, count_where (\<lambda>t. t_eventId t = ev_id e) (tickets s)))
     (sort_key (\<lambda>e. - ev_createdAt e)
       (filter (\<lambda>e. ev_organizerId e = u \<or>
          (\<exists>m \<in> set (teamMembers s). tm_eventId m = ev_id e \<and> tm_userId m = Some u)) (events s)))"

definition getBySlug :: "string \<Rightarrow> id option \<Rightarrow> db \<Rightarrow> error + public_event" where
  "getBySlug slug viewer s =
     (case List.find (\<lambda>e. ev_slug e = slug) (events s) of
        None \<Rightarrow> Inl (Not_found Event_not_found)
      | Some e \<Rightarrow>
          if ev_status e \<noteq> Published \<and> Some (ev_organizerId e) \<noteq> viewer \<and>
             \<not> (case viewer of None \<Rightarrow> False | Some v \<Rightarrow> membershipRole (ev_id e) v s \<noteq> None)
          then Inl (Not_found Event_not_found)
          else Inr (public_view e s))"

definition or_else :: "'a option \<Rightarrow> 'a \<Rightarrow> 'a" where
  "or_else x d = (case x of None \<Rightarrow> d | Some y \<Rightarrow> y)"

definition edit_event :: "update_event_dto \<Rightarrow> event_row \<Rightarrow> event_row" where
  "edit_event d e = e\<lparr>ev_title := or_else (map_option trim (ue_title d)) (ev_title e),
     ev_description := or_else (ue_description d) (ev_description e),
     ev_venueName := or_else (map_option trim (ue_venueName d)) (ev_venueName e),
     ev_startsAt := or_else (ue_startsAt d) (ev_startsAt e),
     ev_endsAt := (case ue_endsAt d of None \<Rightarrow> ev_endsAt e | Some x \<Rightarrow> Some x)\<rparr>"

definition change_event :: "id \<Rightarrow> (event_row \<Rightarrow> event_row) \<Rightarrow> public_event db_tx" where
  "change_event ev f =
     bindT (writeT (\<lambda>s. s\<lparr>events := update_where (\<lambda>e. ev_id e = ev) f (events s)\<rparr>)) (\<lambda>_. load_event ev)"

definition update_event :: "id \<Rightarrow> id \<Rightarrow> update_event_dto \<Rightarrow> public_event handler" where
  "update_event ev u d =
     bindR (askR (requireEventRole ev u Manager)) (\<lambda>_. commit (change_event ev (edit_event d)))"

definition publish :: "id \<Rightarrow> id \<Rightarrow> public_event handler" where
  "publish ev u =
     bindR (askR (requireEventRole ev u Manager)) (\<lambda>_.
     bindR (queryR (\<lambda>s. count_where (\<lambda>tt. tt_eventId tt = ev) (ticketTypes s))) (\<lambda>n.
     bindR (guardR (n \<noteq> 0) (Bad_request No_ticket_types)) (\<lambda>_.
     commit (change_event ev (\<lambda>e. e\<lparr>ev_status := Published\<rparr>)))))"

text \<open>It answers with the row just created, the last of the table.\<close>

definition addTicketType :: "millis \<Rightarrow> id \<Rightarrow> id \<Rightarrow> ticket_type_dto \<Rightarrow> ticket_type handler" where
  "addTicketType now ev u d =
     bindR (askR (requireEventRole ev u Manager)) (\<lambda>_.
     commit (bindT (insert_ticket_type now ev d) (\<lambda>_. readT (\<lambda>s. last (ticketTypes s)))))"

section \<open>Changing a ticket type\<close>

text \<open>What the transaction reads: the row, and by how much the quantity moves.\<close>

definition quantity_delta :: "id \<Rightarrow> id \<Rightarrow> update_ticket_type_dto \<Rightarrow> db \<Rightarrow> error + int" where
  "quantity_delta ev tid d s =
     (case List.find (\<lambda>tt. tt_id tt = tid \<and> tt_eventId tt = ev) (ticketTypes s) of
        None \<Rightarrow> Inl (Not_found Ticket_type_not_found)
      | Some tt \<Rightarrow>
          (case ut_quantity d of
             None \<Rightarrow> Inr 0
           | Some n \<Rightarrow>
               if tt_kind tt = Seated then
                 (if n \<noteq> tt_quantity tt then Inl (Bad_request Seated_capacity) else Inr 0)
               else if n < tt_quantity tt - tt_remaining tt
                 then Inl (Bad_request (Below_claimed (tt_quantity tt - tt_remaining tt)))
               else Inr (n - tt_quantity tt)))"

text \<open>What it writes, given the difference it computed.\<close>

definition edit_ticket_type :: "update_ticket_type_dto \<Rightarrow> ticket_type \<Rightarrow> ticket_type" where
  "edit_ticket_type d tt = tt\<lparr>tt_name := or_else (map_option trim (ut_name d)) (tt_name tt),
     tt_maxPerOrder := or_else (ut_maxPerOrder d) (tt_maxPerOrder tt),
     tt_quantity := or_else (ut_quantity d) (tt_quantity tt)\<rparr>"

definition shift_remaining :: "id \<Rightarrow> int \<Rightarrow> unit db_tx" where
  "shift_remaining tid delta s =
     (let hit = (\<lambda>tt. tt_id tt = tid \<and> tt_remaining tt + delta \<ge> 0)
      in if count_where hit (ticketTypes s) \<noteq> 1 then Inl (Conflict Sold_while_changing)
         else Inr ((), s\<lparr>ticketTypes := update_where hit
                (\<lambda>tt. tt\<lparr>tt_remaining := tt_remaining tt + delta\<rparr>) (ticketTypes s)\<rparr>))"

definition write_ticket_type :: "id \<Rightarrow> update_ticket_type_dto \<Rightarrow> int \<Rightarrow> ticket_type db_tx" where
  "write_ticket_type tid d delta =
     bindT (whenT (delta \<noteq> 0) (shift_remaining tid delta)) (\<lambda>_.
     bindT (writeT (\<lambda>s. s\<lparr>ticketTypes :=
        update_where (\<lambda>tt. tt_id tt = tid) (edit_ticket_type d) (ticketTypes s)\<rparr>)) (\<lambda>_.
     bindT (readT (find_ticket_type tid)) (\<lambda>found. someT (Prisma P2025) found)))"

definition updateTicketType_tx :: "id \<Rightarrow> id \<Rightarrow> update_ticket_type_dto \<Rightarrow> ticket_type db_tx" where
  "updateTicketType_tx ev tid d s =
     (case quantity_delta ev tid d s of Inl e \<Rightarrow> Inl e | Inr delta \<Rightarrow> write_ticket_type tid d delta s)"

definition updateTicketType :: "id \<Rightarrow> id \<Rightarrow> id \<Rightarrow> update_ticket_type_dto \<Rightarrow> ticket_type handler" where
  "updateTicketType ev tid u d =
     bindR (askR (requireEventRole ev u Manager)) (\<lambda>_. commit (updateTicketType_tx ev tid d))"

section \<open>Slugs are well formed\<close>

lemma hyphenate_chars: "c \<in> set (hyphenate b s) \<Longrightarrow> c = CHR ''-'' \<or> is_alnum c \<and> c \<in> set s"
  by (induction s arbitrary: b) (auto split: if_splits)

lemma strip_hyphens_subset: "set (strip_hyphens s) \<subseteq> set s"
  unfolding strip_hyphens_def set_rev by (metis set_dropWhileD set_rev subsetI)

lemma strip_hyphens_hd: "strip_hyphens s = c # cs \<Longrightarrow> c \<noteq> CHR ''-''"
proof (rule notI)
  assume *: "strip_hyphens s = c # cs" and c: "c = CHR ''-''"
  define d where "d = dropWhile (\<lambda>c. c = CHR ''-'') s"
  have "d \<noteq> [] \<Longrightarrow> hd d \<noteq> CHR ''-''" using hd_dropWhile [of _ s] by (simp add: d_def)
  moreover from * have r: "rev (dropWhile (\<lambda>c. c = CHR ''-'') (rev d)) = c # cs"
    by (simp add: strip_hyphens_def d_def)
  have "\<exists>zs. d = rev (dropWhile (\<lambda>c. c = CHR ''-'') (rev d)) @ zs"
    by (metis rev_append rev_rev_ident takeWhile_dropWhile_id)
  with r have "d \<noteq> [] \<and> hd d = c" by auto
  ultimately show False using c by blast
qed

lemma lower_not_upper: "65 \<le> (of_char (lower_char c) :: nat) \<Longrightarrow> \<not> (of_char (lower_char c) :: nat) \<le> 90"
proof (cases "65 \<le> (of_char c :: nat) \<and> (of_char c :: nat) \<le> 90")
  case True
  then have "(of_char (lower_char c) :: nat) = of_char c + 32"
    by (simp add: lower_char_def Let_def of_char_of)
  with True show ?thesis by simp
qed (auto simp: lower_char_def Let_def)

definition slug_char :: "char \<Rightarrow> bool" where
  "slug_char c \<longleftrightarrow> c = CHR ''-'' \<or> (let n = of_char c :: nat in 48 \<le> n \<and> n \<le> 57 \<or> 97 \<le> n \<and> n \<le> 122)"

lemma slugify_chars: "c \<in> set (slugify title) \<Longrightarrow> slug_char c"
proof -
  assume c: "c \<in> set (slugify title)"
  let ?base = "take 60 (strip_hyphens (hyphenate False (to_lower title)))"
  show "slug_char c"
  proof (cases "?base = []")
    case True
    with c have "c \<in> set ''event''" by (simp add: slugify_def)
    then show ?thesis by (auto simp: slug_char_def)
  next
    case False
    with c have "c \<in> set ?base" by (simp add: slugify_def)
    then have "c \<in> set (hyphenate False (to_lower title))"
      using strip_hyphens_subset by (blast dest: in_set_takeD)
    then have "c = CHR ''-'' \<or> is_alnum c \<and> c \<in> set (to_lower title)"
      by (rule hyphenate_chars)
    then show ?thesis
      using lower_not_upper by (auto simp: slug_char_def is_alnum_def Let_def to_lower_def)
  qed
qed

lemma slugify_shape: "slugify title \<noteq> [] \<and> length (slugify title) \<le> 60 \<and> hd (slugify title) \<noteq> CHR ''-''"
proof -
  let ?st = "strip_hyphens (hyphenate False (to_lower title))"
  show ?thesis
  proof (cases ?st)
    case Nil
    then show ?thesis by (simp add: slugify_def)
  next
    case (Cons c cs)
    then have "c \<noteq> CHR ''-''" by (rule strip_hyphens_hd)
    with Cons show ?thesis by (simp add: slugify_def)
  qed
qed

section \<open>Properties\<close>

lemma update_two:
  "(\<And>r. p (f r) = p r) \<Longrightarrow> update_where p g (update_where (\<lambda>r. p r \<and> q r) f rs) =
     map (\<lambda>r. if p r then g (if q r then f r else r) else r) rs"
  by (induction rs) auto

text \<open>The row that is written, and that it is the only one that changes.\<close>

lemma write_ticket_type_rows:
  assumes run: "write_ticket_type tid d x s = Inr (tt', s')" and ids: "distinct (map tt_id (ticketTypes s))"
    and stock: "list_all (\<lambda>tt. 0 \<le> tt_remaining tt) (ticketTypes s)"
    and tt: "tt \<in> set (ticketTypes s)" "tt_id tt = tid"
  defines "new \<equiv> edit_ticket_type d (tt\<lparr>tt_remaining := tt_remaining tt + x\<rparr>)"
  shows "s' = s\<lparr>ticketTypes := update_where (\<lambda>q. tt_id q = tid) (\<lambda>q. new) (ticketTypes s)\<rparr>"
    and "0 \<le> tt_remaining tt + x" and "tt' = new"
proof -
  have one: "q = tt" if "q \<in> set (ticketTypes s)" "tt_id q = tid" for q
    using distinct_map_key_eq [OF ids that(1) tt(1)] that(2) tt(2) by simp
  show pos: "0 \<le> tt_remaining tt + x"
  proof (cases "x = 0")
    case True
    with stock tt(1) show ?thesis by (auto simp: list_all_iff)
  next
    case False
    with run have "count_where (\<lambda>q. tt_id q = tid \<and> 0 \<le> tt_remaining q + x) (ticketTypes s) = 1"
      by (auto simp: write_ticket_type_def shift_remaining_def Let_def tx_simps split: if_splits)
    then have "0 < count_where (\<lambda>q. tt_id q = tid \<and> 0 \<le> tt_remaining q + x) (ticketTypes s)" by simp
    then obtain q where "q \<in> set (ticketTypes s)" "tt_id q = tid" "0 \<le> tt_remaining q + x"
      by (auto simp: count_where_pos)
    with one show ?thesis by simp
  qed
  have "ticketTypes s' = map (\<lambda>q. if tt_id q = tid then edit_ticket_type d
      (if 0 \<le> tt_remaining q + x then q\<lparr>tt_remaining := tt_remaining q + x\<rparr> else q) else q) (ticketTypes s)"
    using run by (cases "x = 0") (auto simp: write_ticket_type_def shift_remaining_def Let_def tx_simps
        update_where_def update_two [unfolded update_where_def] split: if_splits)
  also have "\<dots> = update_where (\<lambda>q. tt_id q = tid) (\<lambda>q. new) (ticketTypes s)"
    unfolding update_where_def new_def using one pos by (intro map_cong) auto
  finally have rows: "ticketTypes s' = \<dots>" .
  moreover have "s' = s\<lparr>ticketTypes := ticketTypes s'\<rparr>"
    using run by (auto simp: write_ticket_type_def shift_remaining_def Let_def tx_simps split: if_splits)
  ultimately show "s' = s\<lparr>ticketTypes := update_where (\<lambda>q. tt_id q = tid) (\<lambda>q. new) (ticketTypes s)\<rparr>" by simp
  have "find_ticket_type tid s' = Some tt'" using run by (auto simp: write_ticket_type_def tx_simps)
  then have "tt' \<in> set (ticketTypes s')" "tt_id tt' = tid" by (auto simp: find_ticket_type_def dest: find_SomeD)
  then show "tt' = new" using rows by (auto simp: row_simps split: if_splits)
qed

text \<open>
  C31: Changing a tier's quantity never breaks a promise. When a manager's change of a ticket type goes
  through, the number of tickets already claimed (quantity minus remaining) is the same before and
  after, the remaining stock is not negative, a seated tier keeps its quantity, kind, price and event
  are untouched, and no other ticket type changes.
\<close>

theorem capacity_change_keeps_claims:
  assumes "updateTicketType ev tid u d w = (Inr tt', w')"
    and "distinct (map tt_id (ticketTypes (w_db w)))"
    and "list_all (\<lambda>tt. 0 \<le> tt_remaining tt) (ticketTypes (w_db w))"
  shows "\<exists>tt. tt \<in> set (ticketTypes (w_db w)) \<and> tt_id tt = tid \<and> tt_eventId tt = ev \<and>
    tt_quantity tt' - tt_remaining tt' = tt_quantity tt - tt_remaining tt \<and> 0 \<le> tt_remaining tt' \<and>
    (tt_kind tt = Ga \<or> tt_quantity tt' = tt_quantity tt) \<and>
    tt' = tt\<lparr>tt_name := tt_name tt', tt_maxPerOrder := tt_maxPerOrder tt', tt_quantity := tt_quantity tt',
       tt_remaining := tt_remaining tt'\<rparr> \<and>
    w' = w\<lparr>w_db := (w_db w)\<lparr>ticketTypes := update_where (\<lambda>q. tt_id q = tid) (\<lambda>q. tt') (ticketTypes (w_db w))\<rparr>\<rparr>"
proof -
  let ?s = "w_db w"
  from assms(1) obtain s' x where run: "write_ticket_type tid d x ?s = Inr (tt', s')"
    and delta: "quantity_delta ev tid d ?s = Inr x" and w': "w' = w\<lparr>w_db := s'\<rparr>"
    by (auto simp: updateTicketType_def updateTicketType_tx_def handler_defs split: sum.splits prod.splits)
  from delta obtain tt where tt: "tt \<in> set (ticketTypes ?s)" "tt_id tt = tid" "tt_eventId tt = ev"
    and x: "x = or_else (ut_quantity d) (tt_quantity tt) - tt_quantity tt"
    and seated: "tt_kind tt = Seated \<Longrightarrow> x = 0"
    by (auto simp: quantity_delta_def or_else_def dest!: find_SomeD split: option.splits if_splits)
  let ?new = "edit_ticket_type d (tt\<lparr>tt_remaining := tt_remaining tt + x\<rparr>)"
  note written = write_ticket_type_rows [OF run assms(2,3) tt(1,2)]
  have "tt_quantity ?new = or_else (ut_quantity d) (tt_quantity tt)"
    by (simp add: edit_ticket_type_def or_else_def split: option.split)
  with x have q: "tt_quantity ?new = tt_quantity tt + x" by simp
  have r: "tt_remaining ?new = tt_remaining tt + x" by (simp add: edit_ticket_type_def)
  have "tt_kind tt = Ga \<or> x = 0" using seated by (cases "tt_kind tt") auto
  moreover have "?new = tt\<lparr>tt_name := tt_name ?new, tt_maxPerOrder := tt_maxPerOrder ?new, tt_quantity := tt_quantity ?new,
       tt_remaining := tt_remaining ?new\<rparr>" by (simp add: edit_ticket_type_def)
  ultimately show ?thesis
    unfolding written(3) using tt q r written(1,2) w' by (intro exI [of _ tt]) auto
qed

definition shrink_floor :: update_ticket_type_dto where
  "shrink_floor = \<lparr>ut_name = None, ut_quantity = Some 4, ut_maxPerOrder = None\<rparr>"

lemma shrink_floor_ok: "updateTicketType 1 3 6 shrink_floor (demo_world paid_db) =
    (Inr (demo_ga\<lparr>tt_quantity := 4, tt_remaining := 2\<rparr>), snd (updateTicketType 1 3 6 shrink_floor (demo_world paid_db)))"
  by code_simp

theorem capacity_change_keeps_claims_witness:
  "\<exists>tt. tt \<in> set (ticketTypes (w_db (demo_world paid_db))) \<and> tt_id tt = 3 \<and> tt_eventId tt = 1 \<and>
    tt_quantity (demo_ga\<lparr>tt_quantity := 4, tt_remaining := 2\<rparr>) - tt_remaining (demo_ga\<lparr>tt_quantity := 4, tt_remaining := 2\<rparr>) =
      tt_quantity tt - tt_remaining tt"
  using capacity_change_keeps_claims [OF shrink_floor_ok] by (force simp: demo_defs)

text \<open>
  Slugs are safe in addresses. Whatever the title, the slug of an event is one to sixty characters
  long, uses only lower-case letters, digits and hyphens and does not begin with a hyphen.
\<close>

theorem slug_well_formed:
  "1 \<le> length (slugify title) \<and> length (slugify title) \<le> 60 \<and> hd (slugify title) \<noteq> CHR ''-'' \<and>
    list_all slug_char (slugify title)"
  using slugify_shape [of title] slugify_chars [of _ title]
  by (cases "slugify title") (auto simp: list_all_iff)

end
