(* ===== verification/Dashboard.thy ===== *)
theory Dashboard
  imports Checkin Events Refunds
begin

text \<open>
  \<^verbatim>\<open>dashboard/dashboard.service.ts\<close>: what the organizer's pages show. A day is its number since
  the epoch (\<^verbatim>\<open>startOfDayUtc\<close> and \<^verbatim>\<open>dayKey\<close> name the same day by its first instant and by its
  text); \<^verbatim>\<open>Math.round\<close> of the sell-through ratio is computed on integers.
\<close>

definition DAY_MS :: millis where "DAY_MS = 86400000"
definition MAX_TIMELINE_DAYS :: int where "MAX_TIMELINE_DAYS = 45"

definition day_of :: "millis \<Rightarrow> int" where
  "day_of t = t div DAY_MS"

definition paid :: "order \<Rightarrow> bool" where
  "paid r \<longleftrightarrow> o_status r \<in> set PAID_ORDER_STATUSES"

section \<open>The timeline\<close>

record bucket =
  bk_day :: int
  bk_orders :: int
  bk_ticketsSold :: int
  bk_grossSatang :: satang

definition earliestCreatedAt :: "millis list \<Rightarrow> millis option \<Rightarrow> millis option" where
  "earliestCreatedAt rows current =
     fold (\<lambda>t e. case e of None \<Rightarrow> Some t | Some x \<Rightarrow> if t < x then Some t else e) rows current"

definition timeline_start :: "millis \<Rightarrow> millis \<Rightarrow> millis list \<Rightarrow> millis list \<Rightarrow> int" where
  "timeline_start eventCreatedAt now paidOrders ts =
     (let earliest = (case earliestCreatedAt ts (earliestCreatedAt paidOrders None) of
            None \<Rightarrow> eventCreatedAt | Some x \<Rightarrow> x);
          start = day_of earliest
      in if day_of now - start > MAX_TIMELINE_DAYS then day_of now - MAX_TIMELINE_DAYS else start)"

definition in_bucket :: "int \<Rightarrow> (bucket \<Rightarrow> bucket) \<Rightarrow> bucket list \<Rightarrow> bucket list" where
  "in_bucket day f bs = map (\<lambda>b. if bk_day b = day then f b else b) bs"

definition count_order :: "millis \<times> satang \<Rightarrow> bucket list \<Rightarrow> bucket list" where
  "count_order p = in_bucket (day_of (fst p)) (\<lambda>b. b\<lparr>bk_orders := bk_orders b + 1,
     bk_grossSatang := bk_grossSatang b + snd p\<rparr>)"

definition count_ticket :: "millis \<Rightarrow> bucket list \<Rightarrow> bucket list" where
  "count_ticket t = in_bucket (day_of t) (\<lambda>b. b\<lparr>bk_ticketsSold := bk_ticketsSold b + 1\<rparr>)"

definition empty_buckets :: "int \<Rightarrow> int \<Rightarrow> bucket list" where
  "empty_buckets start end_day = map (\<lambda>d. \<lparr>bk_day = d, bk_orders = 0, bk_ticketsSold = 0, bk_grossSatang = 0\<rparr>)
     [start..end_day]"

definition buildTimeline :: "millis \<Rightarrow> millis \<Rightarrow> (millis \<times> satang) list \<Rightarrow> millis list \<Rightarrow> bucket list" where
  "buildTimeline eventCreatedAt now paidOrders ts =
     fold count_ticket ts (fold count_order paidOrders
       (empty_buckets (timeline_start eventCreatedAt now (map fst paidOrders) ts) (day_of now)))"

section \<open>Totals, tiers and sections\<close>

record totals =
  to_grossSatang :: satang
  to_paidOrders :: nat
  to_pendingOrders :: nat
  to_ticketsSold :: nat
  to_ticketsCheckedIn :: nat
  to_liveHolds :: nat
  to_capacity :: int
  to_sellThroughBp :: int

definition net_gross :: "id \<Rightarrow> db \<Rightarrow> satang" where
  "net_gross ev s = sum_by o_totalSatang (filter (\<lambda>r. o_eventId r = ev \<and> paid r) (orders s))
     - sum_by o_refundedSatang (filter (\<lambda>r. o_eventId r = ev \<and> paid r) (orders s))"

definition sold_count :: "id \<Rightarrow> db \<Rightarrow> nat" where
  "sold_count ev s = count_where (\<lambda>t. t_eventId t = ev \<and> live t) (tickets s)"

definition checked_in_count :: "id \<Rightarrow> db \<Rightarrow> nat" where
  "checked_in_count ev s = count_where (\<lambda>t. t_eventId t = ev \<and> t_status t = Checked_in) (tickets s)"

definition capacity_of :: "id \<Rightarrow> db \<Rightarrow> int" where
  "capacity_of ev s = sum_by tt_quantity (event_types ev s)"

text \<open>\<^verbatim>\<open>Math.round((sold / capacity) * 10000)\<close>.\<close>

definition basis_points :: "int \<Rightarrow> int \<Rightarrow> int" where
  "basis_points sold capacity =
     (if capacity > 0 then (20000 * sold + capacity) div (2 * capacity) else 0)"

definition event_totals :: "millis \<Rightarrow> id \<Rightarrow> db \<Rightarrow> totals" where
  "event_totals now ev s =
     \<lparr>to_grossSatang = net_gross ev s,
      to_paidOrders = count_where (\<lambda>r. o_eventId r = ev \<and> paid r) (orders s),
      to_pendingOrders = count_where (\<lambda>r. o_eventId r = ev \<and> o_status r = Awaiting_payment) (orders s),
      to_ticketsSold = sold_count ev s, to_ticketsCheckedIn = checked_in_count ev s,
      to_liveHolds = count_where (\<lambda>h. h_eventId h = ev \<and> h_expiresAt h > now) (holds s),
      to_capacity = capacity_of ev s,
      to_sellThroughBp = basis_points (int (sold_count ev s)) (capacity_of ev s)\<rparr>"

record tier_stat =
  ts_type :: ticket_type
  ts_issued :: int
  ts_claimed :: int
  ts_grossSatang :: satang

definition tier_stats :: "id \<Rightarrow> db \<Rightarrow> tier_stat list" where
  "tier_stats ev s =
     map (\<lambda>tt. let issued = int (count_where (\<lambda>t. t_eventId t = ev \<and> live t \<and> t_ticketTypeId t = tt_id tt) (tickets s))
               in \<lparr>ts_type = tt, ts_issued = issued, ts_claimed = tt_quantity tt - tt_remaining tt,
                   ts_grossSatang = issued * tt_priceSatang tt\<rparr>)
       (event_types ev s)"

record occupancy =
  oc_capacity :: int
  oc_sold :: int
  oc_held :: int

definition count_seat :: "id list \<Rightarrow> id list \<Rightarrow> seat \<Rightarrow> (string \<times> occupancy) list \<Rightarrow> (string \<times> occupancy) list" where
  "count_seat soldSet heldSet st m =
     (let e = (case map_of m (s_section st) of
            None \<Rightarrow> \<lparr>oc_capacity = 0, oc_sold = 0, oc_held = 0\<rparr> | Some e \<Rightarrow> e);
          e1 = e\<lparr>oc_capacity := oc_capacity e + 1\<rparr>;
          e2 = (if s_id st \<in> set soldSet then e1\<lparr>oc_sold := oc_sold e1 + 1\<rparr>
                else if s_id st \<in> set heldSet then e1\<lparr>oc_held := oc_held e1 + 1\<rparr> else e1)
      in AList.update (s_section st) e2 m)"

definition section_map :: "id list \<Rightarrow> id list \<Rightarrow> seat list \<Rightarrow> (string \<times> occupancy) list" where
  "section_map soldSet heldSet sts = fold (count_seat soldSet heldSet) sts []"

definition oc_available :: "occupancy \<Rightarrow> int" where
  "oc_available e = oc_capacity e - oc_sold e - oc_held e"

definition section_occupancy :: "millis \<Rightarrow> id \<Rightarrow> db \<Rightarrow> (string \<times> occupancy) list" where
  "section_occupancy now ev s =
     (let soldSet = List.map_filter t_seatId (filter (\<lambda>t. t_eventId t = ev \<and> live t) (tickets s));
          heldSet = filter (\<lambda>i. i \<notin> set soldSet)
            (map h_seatId (filter (\<lambda>h. h_eventId h = ev \<and> h_expiresAt h > now) (holds s)))
      in section_map soldSet heldSet (filter (\<lambda>st. s_eventId st = ev) (seats s)))"

section \<open>The queries\<close>

record event_card =
  ec_event :: event_row
  ec_seated :: bool
  ec_capacity :: int
  ec_ticketsSold :: nat
  ec_ticketsCheckedIn :: nat
  ec_grossSatang :: "satang option"
  ec_myRole :: role

definition card_role :: "id \<Rightarrow> event_row \<Rightarrow> db \<Rightarrow> role" where
  "card_role u e s = (if ev_organizerId e = u then Owner
     else (case membershipRole (ev_id e) u s of None \<Rightarrow> Staff | Some r \<Rightarrow> r))"

definition event_card_of :: "id \<Rightarrow> db \<Rightarrow> event_row \<Rightarrow> event_card" where
  "event_card_of u s e =
     \<lparr>ec_event = e, ec_seated = (\<exists>st \<in> set (seats s). s_eventId st = ev_id e),
      ec_capacity = capacity_of (ev_id e) s, ec_ticketsSold = sold_count (ev_id e) s,
      ec_ticketsCheckedIn = checked_in_count (ev_id e) s,
      ec_grossSatang = (if card_role u e s = Staff then None else Some (net_gross (ev_id e) s)),
      ec_myRole = card_role u e s\<rparr>"

definition organizerEvents :: "id \<Rightarrow> db \<Rightarrow> event_card list" where
  "organizerEvents u s = map (event_card_of u s)
     (sort_key (\<lambda>e. - ev_createdAt e)
       (filter (\<lambda>e. ev_organizerId e = u \<or>
          (\<exists>m \<in> set (teamMembers s). tm_eventId m = ev_id e \<and> tm_userId m = Some u)) (events s)))"

definition eventSummary :: "id \<Rightarrow> id \<Rightarrow> db \<Rightarrow> error + event_row \<times> nat \<times> nat \<times> role" where
  "eventSummary ev u s =
     (case requireEventRole ev u Staff s of
        Inl e \<Rightarrow> Inl e
      | Inr (e, r) \<Rightarrow> Inr (e, sold_count ev s, checked_in_count ev s, r))"

record event_dashboard =
  ed_card :: event_card
  ed_totals :: totals
  ed_timeline :: "bucket list"
  ed_tiers :: "tier_stat list"
  ed_sections :: "(string \<times> occupancy) list"

definition recent_orders :: "millis \<Rightarrow> id \<Rightarrow> db \<Rightarrow> (millis \<times> satang) list" where
  "recent_orders now ev s = map (\<lambda>r. (o_createdAt r, o_totalSatang r))
     (filter (\<lambda>r. o_eventId r = ev \<and> paid r \<and>
        o_createdAt r \<ge> (day_of now - MAX_TIMELINE_DAYS) * DAY_MS) (orders s))"

definition recent_tickets :: "millis \<Rightarrow> id \<Rightarrow> db \<Rightarrow> millis list" where
  "recent_tickets now ev s = map t_createdAt
     (filter (\<lambda>t. t_eventId t = ev \<and> live t \<and>
        t_createdAt t \<ge> (day_of now - MAX_TIMELINE_DAYS) * DAY_MS) (tickets s))"

definition eventDashboard :: "millis \<Rightarrow> id \<Rightarrow> id \<Rightarrow> db \<Rightarrow> error + event_dashboard" where
  "eventDashboard now ev u s =
     (case requireEventRole ev u Manager s of
        Inl e \<Rightarrow> Inl e
      | Inr (e, r) \<Rightarrow> Inr
          \<lparr>ed_card = \<lparr>ec_event = e, ec_seated = (\<exists>st \<in> set (seats s). s_eventId st = ev),
             ec_capacity = capacity_of ev s, ec_ticketsSold = sold_count ev s,
             ec_ticketsCheckedIn = checked_in_count ev s,
             ec_grossSatang = Some (net_gross ev s), ec_myRole = r\<rparr>,
           ed_totals = event_totals now ev s,
           ed_timeline = buildTimeline (ev_createdAt e) now (recent_orders now ev s) (recent_tickets now ev s),
           ed_tiers = tier_stats ev s, ed_sections = section_occupancy now ev s\<rparr>)"

definition page_size :: "int \<Rightarrow> int \<Rightarrow> nat" where
  "page_size limit cap = nat (min (max limit 1) cap)"

fun status_rank :: "ticket_status \<Rightarrow> nat" where
  "status_rank Issued = 0" | "status_rank Checked_in = 1" | "status_rank Void = 2"

record attendee =
  ad_ticketId :: id
  ad_name :: string
  ad_email :: string
  ad_ticketType :: string
  ad_seat :: "string option"
  ad_status :: ticket_status
  ad_checkedInAt :: "millis option"

definition attendee_of :: "db \<Rightarrow> ticket \<Rightarrow> attendee" where
  "attendee_of s t = \<lparr>ad_ticketId = t_id t, ad_name = t_attendeeName t, ad_email = t_attendeeEmail t,
     ad_ticketType = tier_name s t, ad_seat = ticket_seat s t, ad_status = t_status t,
     ad_checkedInAt = t_checkedInAt t\<rparr>"

definition eventAttendees :: "id \<Rightarrow> id \<Rightarrow> int \<Rightarrow> db \<Rightarrow> error + attendee list" where
  "eventAttendees ev u limit s =
     (case requireEventRole ev u Staff s of
        Inl e \<Rightarrow> Inl e
      | Inr _ \<Rightarrow> Inr (map (attendee_of s)
          (take (page_size limit 2000) (sort_key (\<lambda>t. status_rank (t_status t)) (sort_key t_createdAt
            (filter (\<lambda>t. t_eventId t = ev \<and> live t) (tickets s)))))))"

record order_row =
  or_order :: order
  or_tickets :: "(ticket \<times> string \<times> string option \<times> satang) list"
  or_refunds :: "refund list"

definition order_row_of :: "db \<Rightarrow> order \<Rightarrow> order_row" where
  "order_row_of s r =
     \<lparr>or_order = r,
      or_tickets = map (\<lambda>t. (t, tier_name s t, ticket_seat s t, price_by_type (o_items r) (t_ticketTypeId t)))
        (sort_key t_createdAt (filter (\<lambda>t. t_orderId t = o_id r) (tickets s))),
      or_refunds = sort_key r_createdAt (filter (\<lambda>f. r_orderId f = o_id r) (refunds s))\<rparr>"

definition eventOrders :: "id \<Rightarrow> id \<Rightarrow> int \<Rightarrow> db \<Rightarrow> error + order_row list" where
  "eventOrders ev u limit s =
     (case requireEventRole ev u Manager s of
        Inl e \<Rightarrow> Inl e
      | Inr _ \<Rightarrow> Inr (map (order_row_of s) (take (page_size limit 500)
          (sort_key (\<lambda>r. - o_createdAt r) (filter (\<lambda>r. o_eventId r = ev \<and> paid r) (orders s))))))"

section \<open>Nothing is lost in the timeline\<close>

lemma in_bucket_days [simp]: "(\<And>b. bk_day (f b) = bk_day b) \<Longrightarrow> map bk_day (in_bucket d f bs) = map bk_day bs"
  by (induction bs) (auto simp: in_bucket_def)

lemma sum_in_bucket:
  assumes "distinct (map bk_day bs)" and "d \<in> bk_day ` set bs" and "\<And>b. g (f b) = g b + k"
  shows "sum_by g (in_bucket d f bs) = sum_by g bs + k"
  using assms(1,2)
proof (induction bs)
  case Nil
  then show ?case by simp
next
  case (Cons b bs)
  show ?case
  proof (cases "bk_day b = d")
    case True
    with Cons.prems(1) have "\<forall>c \<in> set bs. bk_day c \<noteq> d" by (auto simp: rev_image_eqI)
    then have "in_bucket d f bs = bs" unfolding in_bucket_def by (intro map_idI) simp
    moreover have "in_bucket d f (b # bs) = f b # in_bucket d f bs" by (simp add: in_bucket_def True)
    ultimately show ?thesis by (simp add: assms(3))
  next
    case False
    moreover have "in_bucket d f (b # bs) = b # in_bucket d f bs" using False by (simp add: in_bucket_def)
    ultimately show ?thesis using Cons by simp
  qed
qed

lemma sum_in_bucket_same: "(\<And>b. g (f b) = g b) \<Longrightarrow> sum_by g (in_bucket d f bs) = sum_by g bs"
  by (induction bs) (auto simp: in_bucket_def)

lemma bucket_days [simp]:
  "map bk_day (count_order p bs) = map bk_day bs" "map bk_day (count_ticket t bs) = map bk_day bs"
  "map bk_day (fold count_order ps bs) = map bk_day bs" "map bk_day (fold count_ticket ts bs) = map bk_day bs"
proof -
  show 1: "map bk_day (count_order p bs) = map bk_day bs" for p bs by (simp add: count_order_def)
  show 2: "map bk_day (count_ticket t bs) = map bk_day bs" for t bs by (simp add: count_ticket_def)
  show "map bk_day (fold count_order ps bs) = map bk_day bs"
    by (induction ps arbitrary: bs) (simp_all add: 1)
  show "map bk_day (fold count_ticket ts bs) = map bk_day bs"
    by (induction ts arbitrary: bs) (simp_all add: 2)
qed

lemma day_in: "map bk_day bs = map bk_day cs \<Longrightarrow> bk_day ` set bs = bk_day ` set cs"
  by (metis list.set_map)

lemma sum_orders:
  assumes "distinct (map bk_day bs)" and "\<forall>p \<in> set ps. day_of (fst p) \<in> bk_day ` set bs"
  shows "sum_by bk_orders (fold count_order ps bs) = sum_by bk_orders bs + int (length ps)"
    and "sum_by bk_grossSatang (fold count_order ps bs) = sum_by bk_grossSatang bs + sum_by snd ps"
    and "sum_by bk_ticketsSold (fold count_order ps bs) = sum_by bk_ticketsSold bs"
  using assms
proof (induction ps arbitrary: bs)
  case Nil
  {
    case 1 then show ?case by simp
  next
    case 2 then show ?case by simp
  next
    case 3 then show ?case by simp
  }
next
  case (Cons p ps)
  have d: "bk_day ` set (count_order p bs) = bk_day ` set bs" for bs
    by (rule day_in) simp
  {
    case 1
    then have "sum_by bk_orders (count_order p bs) = sum_by bk_orders bs + 1"
      unfolding count_order_def by (intro sum_in_bucket) auto
    with 1 Cons.IH(1) [of "count_order p bs"] show ?case by (simp add: d)
  next
    case 2
    then have "sum_by bk_grossSatang (count_order p bs) = sum_by bk_grossSatang bs + snd p"
      unfolding count_order_def by (intro sum_in_bucket) auto
    with 2 Cons.IH(2) [of "count_order p bs"] show ?case by (simp add: d)
  next
    case 3
    have "sum_by bk_ticketsSold (count_order p bs) = sum_by bk_ticketsSold bs"
      unfolding count_order_def by (intro sum_in_bucket_same) simp
    with 3 Cons.IH(3) [of "count_order p bs"] show ?case by (simp add: d)
  }
qed

lemma sum_tickets:
  assumes "distinct (map bk_day bs)" and "\<forall>t \<in> set ts. day_of t \<in> bk_day ` set bs"
  shows "sum_by bk_ticketsSold (fold count_ticket ts bs) = sum_by bk_ticketsSold bs + int (length ts)"
    and "sum_by bk_orders (fold count_ticket ts bs) = sum_by bk_orders bs"
    and "sum_by bk_grossSatang (fold count_ticket ts bs) = sum_by bk_grossSatang bs"
  using assms
proof (induction ts arbitrary: bs)
  case Nil
  {
    case 1 then show ?case by simp
  next
    case 2 then show ?case by simp
  next
    case 3 then show ?case by simp
  }
next
  case (Cons t ts)
  have d: "bk_day ` set (count_ticket t bs) = bk_day ` set bs" for bs
    by (rule day_in) simp
  {
    case 1
    then have "sum_by bk_ticketsSold (count_ticket t bs) = sum_by bk_ticketsSold bs + 1"
      unfolding count_ticket_def by (intro sum_in_bucket) auto
    with 1 Cons.IH(1) [of "count_ticket t bs"] show ?case by (simp add: d)
  next
    case 2
    have "sum_by bk_orders (count_ticket t bs) = sum_by bk_orders bs"
      unfolding count_ticket_def by (intro sum_in_bucket_same) simp
    with 2 Cons.IH(2) [of "count_ticket t bs"] show ?case by (simp add: d)
  next
    case 3
    have "sum_by bk_grossSatang (count_ticket t bs) = sum_by bk_grossSatang bs"
      unfolding count_ticket_def by (intro sum_in_bucket_same) simp
    with 3 Cons.IH(3) [of "count_ticket t bs"] show ?case by (simp add: d)
  }
qed

lemma empty_buckets_days: "map bk_day (empty_buckets a b) = [a..b]"
  by (simp add: empty_buckets_def comp_def)

lemma earliest_le:
  "case fold (\<lambda>t e. case e of None \<Rightarrow> Some t | Some x \<Rightarrow> if t < x then Some t else e) rows current of
     None \<Rightarrow> rows = [] \<and> current = None
   | Some m \<Rightarrow> (\<forall>t \<in> set rows. m \<le> t) \<and> (\<forall>c. current = Some c \<longrightarrow> m \<le> (c::millis))"
  by (induction rows arbitrary: current) (fastforce split: option.splits if_splits)+

lemma timeline_start_le:
  assumes "t \<in> set os \<or> t \<in> set ts" and "day_of now - MAX_TIMELINE_DAYS \<le> day_of t"
  shows "timeline_start created now os ts \<le> day_of t"
proof -
  obtain m where m: "earliestCreatedAt ts (earliestCreatedAt os None) = Some m" "m \<le> t"
    using assms(1) earliest_le [of ts "earliestCreatedAt os None"] earliest_le [of os None]
    unfolding earliestCreatedAt_def
    by (auto split: option.splits)
  then have "day_of m \<le> day_of t" by (simp add: day_of_def DAY_MS_def zdiv_mono1)
  with m assms(2) show ?thesis by (simp add: timeline_start_def Let_def)
qed

section \<open>The sections partition the seats\<close>

definition occupancy_ok :: "occupancy \<Rightarrow> bool" where
  "occupancy_ok e \<longleftrightarrow> 0 \<le> oc_sold e \<and> 0 \<le> oc_held e \<and> 0 \<le> oc_available e"

lemma count_seat_ok:
  assumes "\<forall>e \<in> ran (map_of m). occupancy_ok e"
  shows "\<forall>e \<in> ran (map_of (count_seat a b st m)). occupancy_ok e"
proof
  fix e assume "e \<in> ran (map_of (count_seat a b st m))"
  then obtain k where k: "map_of (count_seat a b st m) k = Some e" by (auto simp: ran_def)
  show "occupancy_ok e"
  proof (cases "k = s_section st")
    case False
    with k assms show ?thesis by (auto simp: count_seat_def Let_def map_of_alist_update ran_def)
  next
    case True
    have "case map_of m k of None \<Rightarrow> True | Some f \<Rightarrow> occupancy_ok f"
      using assms by (auto simp: ran_def split: option.splits)
    with True k show ?thesis
      by (auto simp: count_seat_def Let_def map_of_alist_update occupancy_ok_def oc_available_def
          split: option.splits if_splits)
  qed
qed

lemma fold_count_seat_ok:
  "\<forall>e \<in> ran (map_of m). occupancy_ok e \<Longrightarrow>
     \<forall>e \<in> ran (map_of (fold (count_seat a b) sts m)). occupancy_ok e"
proof (induction sts arbitrary: m)
  case Nil
  then show ?case by simp
next
  case (Cons st sts)
  from Cons.IH [OF count_seat_ok [OF Cons.prems]] show ?case by simp
qed

lemma distinct_fold_count_seat:
  "distinct (map fst m) \<Longrightarrow> distinct (map fst (fold (count_seat a b) sts m))"
  by (induction sts arbitrary: m) (auto simp: count_seat_def Let_def distinct_update)

lemma map_of_fold_capacity:
  "(case map_of (fold (count_seat a b) sts m) k of None \<Rightarrow> 0 | Some e \<Rightarrow> oc_capacity e) =
     (case map_of m k of None \<Rightarrow> 0 | Some e \<Rightarrow> oc_capacity e) +
     int (count_where (\<lambda>st. s_section st = k) sts)"
proof (induction sts arbitrary: m)
  case Nil
  then show ?case by simp
next
  case (Cons st sts)
  have "(case map_of (count_seat a b st m) k of None \<Rightarrow> 0 | Some e \<Rightarrow> oc_capacity e) =
      (case map_of m k of None \<Rightarrow> 0 | Some e \<Rightarrow> oc_capacity e) + (if s_section st = k then 1 else 0)"
    by (auto simp: count_seat_def Let_def map_of_alist_update split: option.splits)
  with Cons.IH [of "count_seat a b st m"] show ?case by simp
qed

section \<open>Properties\<close>

lemma timeline_days: "map bk_day (buildTimeline created now os ts) =
    [timeline_start created now (map fst os) ts..day_of now]"
  by (simp add: buildTimeline_def empty_buckets_days)

text \<open>
  C35: The sales chart loses nothing. Over orders and tickets of the last 45 days (none from the
  future), the buckets are consecutive days that end today, at most 46, and sum to exactly the number
  of paid orders, their gross amount and the number of tickets.
\<close>

theorem timeline_complete:
  assumes "list_all (\<lambda>p. day_of now - MAX_TIMELINE_DAYS \<le> day_of (fst p) \<and> day_of (fst p) \<le> day_of now) os"
    and "list_all (\<lambda>t. day_of now - MAX_TIMELINE_DAYS \<le> day_of t \<and> day_of t \<le> day_of now) ts"
  shows "sum_by bk_orders (buildTimeline created now os ts) = int (length os) \<and>
    sum_by bk_grossSatang (buildTimeline created now os ts) = sum_by snd os \<and>
    sum_by bk_ticketsSold (buildTimeline created now os ts) = int (length ts) \<and>
    (\<exists>start. map bk_day (buildTimeline created now os ts) = [start..day_of now] \<and> day_of now - MAX_TIMELINE_DAYS \<le> start)"
proof -
  let ?start = "timeline_start created now (map fst os) ts"
  let ?bs = "empty_buckets ?start (day_of now)"
  have days: "map bk_day ?bs = [?start..day_of now]" by (rule empty_buckets_days)
  then have d: "distinct (map bk_day ?bs)" by simp
  have range: "bk_day ` set ?bs = {?start..day_of now}" using arg_cong [OF days, of set] by simp
  have ps: "\<forall>p \<in> set os. day_of (fst p) \<in> bk_day ` set ?bs"
    using assms(1) timeline_start_le [of _ "map fst os" ts now created] unfolding range by (auto simp: list_all_iff)
  have ts: "\<forall>t \<in> set ts. day_of t \<in> bk_day ` set (fold count_order os ?bs)"
    using assms(2) timeline_start_le [of _ "map fst os" ts now created]
    unfolding day_in [OF bucket_days(3)] range by (auto simp: list_all_iff)
  have d': "distinct (map bk_day (fold count_order os ?bs))" using d by simp
  have zero: "sum_by bk_orders ?bs = 0" "sum_by bk_grossSatang ?bs = 0" "sum_by bk_ticketsSold ?bs = 0"
    by (auto simp: empty_buckets_def sum_by_map intro: sum_by_zero)
  have "day_of now - MAX_TIMELINE_DAYS \<le> ?start"
    by (simp add: timeline_start_def Let_def)
  then show ?thesis
    using sum_orders [OF d ps] sum_tickets [OF d' ts] zero timeline_days
    by (auto simp: buildTimeline_def)
qed

theorem timeline_complete_witness:
  "sum_by bk_orders (buildTimeline 0 172800000 [(0, 500), (172800000, 300)] [5, 86400000]) = 2 \<and>
    sum_by bk_grossSatang (buildTimeline 0 172800000 [(0, 500), (172800000, 300)] [5, 86400000]) =
      sum_by snd [(0::millis, 500), (172800000, 300)] \<and>
    sum_by bk_ticketsSold (buildTimeline 0 172800000 [(0, 500), (172800000, 300)] [5, 86400000]) = 2 \<and>
    (\<exists>start. map bk_day (buildTimeline 0 172800000 [(0, 500), (172800000, 300)] [5, 86400000]) =
      [start..day_of 172800000] \<and> day_of 172800000 - MAX_TIMELINE_DAYS \<le> start)"
  using timeline_complete [of 172800000 "[(0, 500), (172800000, 300)]" "[5, 86400000]" 0]
  by (simp add: day_of_def DAY_MS_def MAX_TIMELINE_DAYS_def)

lemma section_map_ok:
  "(k, e) \<in> set (section_map sold held sts) \<Longrightarrow>
     occupancy_ok e \<and> oc_capacity e = int (count_where (\<lambda>st. s_section st = k) sts)"
proof -
  assume k: "(k, e) \<in> set (section_map sold held sts)"
  have "distinct (map fst (section_map sold held sts))"
    unfolding section_map_def by (rule distinct_fold_count_seat) simp
  with k have e: "map_of (section_map sold held sts) k = Some e" by simp
  have "\<forall>e \<in> ran (map_of (section_map sold held sts)). occupancy_ok e"
    unfolding section_map_def by (rule fold_count_seat_ok) simp
  with e have "occupancy_ok e" by (auto simp: ran_def)
  moreover have "oc_capacity e = int (count_where (\<lambda>st. s_section st = k) sts)"
    using map_of_fold_capacity [where m = "[]" and a = sold and b = held and sts = sts and k = k] e by (simp add: section_map_def)
  ultimately show ?thesis ..
qed

text \<open>
  Section occupancy is a partition. In the dashboard of an event every section reports as capacity
  exactly the seats of the event in that section; sold, held and available are never negative and add
  up to it, and no section is listed twice.
\<close>

theorem sections_partition:
  "distinct (map fst (section_occupancy now ev s)) \<and>
    list_all (\<lambda>(k, e). oc_capacity e = int (count_where (\<lambda>st. s_eventId st = ev \<and> s_section st = k) (seats s)) \<and>
      0 \<le> oc_sold e \<and> 0 \<le> oc_held e \<and> 0 \<le> oc_available e \<and>
      oc_sold e + oc_held e + oc_available e = oc_capacity e) (section_occupancy now ev s)"
proof
  show "distinct (map fst (section_occupancy now ev s))"
    unfolding section_occupancy_def section_map_def Let_def by (rule distinct_fold_count_seat) simp
  have "count_where (\<lambda>st. s_section st = k) (filter (\<lambda>st. s_eventId st = ev) (seats s)) =
      count_where (\<lambda>st. s_eventId st = ev \<and> s_section st = k) (seats s)" for k
    by (simp add: count_where_def conj_commute)
  then show "list_all (\<lambda>(k, e). oc_capacity e = int (count_where (\<lambda>st. s_eventId st = ev \<and> s_section st = k) (seats s)) \<and>
      0 \<le> oc_sold e \<and> 0 \<le> oc_held e \<and> 0 \<le> oc_available e \<and>
      oc_sold e + oc_held e + oc_available e = oc_capacity e) (section_occupancy now ev s)"
    using section_map_ok by (fastforce simp: section_occupancy_def Let_def list_all_iff occupancy_ok_def oc_available_def)
qed

end
