(* ===== verification/Auth.thy ===== *)
theory Auth
  imports Samples
begin

text \<open>
  \<^verbatim>\<open>auth/auth.service.ts\<close> with its DTOs and controller: accounts and rotating refresh tokens. The
  cryptography is a record of parameters; the random text of a new refresh token is an argument
  of the request that draws it. The cookie is the token handed out and presented.
\<close>

definition MAX_DISPLAY_NAME_LENGTH :: nat where "MAX_DISPLAY_NAME_LENGTH = 80"
definition DEFAULT_REFRESH_TTL_DAYS :: int where "DEFAULT_REFRESH_TTL_DAYS = 30"

record google_payload =
  g_sub :: "string option"
  g_email :: "string option"
  g_verified :: bool
  g_name :: "string option"

text \<open>
  argon2, SHA-256, the JWT signer and Google's verifier, and the two configured values the
  service reads. The verifier throws (\<open>None\<close>) or gives a ticket, which may lack a payload.
\<close>

record crypto =
  argon_hash :: "string \<Rightarrow> string"
  argon_verify :: "string \<Rightarrow> string \<Rightarrow> bool"
  sha :: "string \<Rightarrow> string"
  sign_jwt :: "id \<Rightarrow> string \<Rightarrow> string"
  google_verify :: "string \<Rightarrow> string \<Rightarrow> google_payload option option"
  google_client :: "string option"
  refresh_days :: "int option"

record register_dto =
  rg_email :: string
  rg_password :: string
  rg_displayName :: string

definition valid_register :: "(string \<Rightarrow> bool) \<Rightarrow> register_dto \<Rightarrow> bool" where
  "valid_register is_email d \<longleftrightarrow> is_email (rg_email d) \<and>
     8 \<le> length (rg_password d) \<and> length (rg_password d) \<le> 72 \<and>
     1 \<le> length (rg_displayName d) \<and> length (rg_displayName d) \<le> MAX_DISPLAY_NAME_LENGTH"

record public_user =
  pu_id :: id
  pu_email :: string
  pu_displayName :: string
  pu_isDemo :: bool

record auth_tokens =
  at_accessToken :: string
  at_refreshToken :: string
  at_refreshExpiresAt :: millis

definition toPublicUser :: "user \<Rightarrow> public_user" where
  "toPublicUser u = \<lparr>pu_id = u_id u, pu_email = u_email u, pu_displayName = u_displayName u,
     pu_isDemo = u_isDemo u\<rparr>"

definition refreshTtlMs :: "crypto \<Rightarrow> millis" where
  "refreshTtlMs cr = (case refresh_days cr of None \<Rightarrow> DEFAULT_REFRESH_TTL_DAYS | Some d \<Rightarrow> d)
     * 24 * 60 * 60 * 1000"

text \<open>The e-mail address as accounts store it.\<close>

definition normal_email :: "string \<Rightarrow> string" where
  "normal_email e = to_lower (trim e)"

section \<open>Writes\<close>

text \<open>\<^verbatim>\<open>users_email_key\<close>, \<^verbatim>\<open>users_google_id_key\<close> and \<^verbatim>\<open>refresh_tokens_token_hash_key\<close>.\<close>

definition insert_user :: "user \<Rightarrow> unit db_tx" where
  "insert_user u s =
     (if \<exists>v \<in> set (users s). u_email v = u_email u \<or>
           (u_googleId u \<noteq> None \<and> u_googleId v = u_googleId u) then Inl (Prisma P2002)
      else Inr ((), s\<lparr>users := users s @ [u]\<rparr>))"

definition create_user :: "string \<Rightarrow> string \<Rightarrow> string option \<Rightarrow> string option \<Rightarrow> user db_tx" where
  "create_user email name pw google =
     bindT fresh_id (\<lambda>i.
     let u = \<lparr>u_id = i, u_email = email, u_displayName = name, u_passwordHash = pw,
              u_googleId = google, u_isDemo = False\<rparr>
     in bindT (insert_user u) (\<lambda>_. returnT u))"

definition insert_refresh_token :: "id \<Rightarrow> string \<Rightarrow> millis \<Rightarrow> unit db_tx" where
  "insert_refresh_token u h expires =
     bindT fresh_id (\<lambda>i s.
       if h \<in> rt_tokenHash ` set (refreshTokens s) then Inl (Prisma P2002)
       else Inr ((), s\<lparr>refreshTokens := refreshTokens s @
         [\<lparr>rt_id = i, rt_userId = u, rt_tokenHash = h, rt_expiresAt = expires, rt_revokedAt = None\<rparr>]\<rparr>))"

definition open_invite :: "string \<Rightarrow> team_member \<Rightarrow> bool" where
  "open_invite email m \<longleftrightarrow> tm_email m = email \<and> tm_userId m = None"

definition claimMemberships :: "millis \<Rightarrow> id \<Rightarrow> string \<Rightarrow> unit db_tx" where
  "claimMemberships now u email = writeT (\<lambda>s. s\<lparr>teamMembers := update_where (open_invite email)
     (\<lambda>m. m\<lparr>tm_userId := Some u, tm_linkedAt := Some now\<rparr>) (teamMembers s)\<rparr>)"

section \<open>Sessions\<close>

definition issueTokens :: "crypto \<Rightarrow> millis \<Rightarrow> string \<Rightarrow> user \<Rightarrow> auth_tokens handler" where
  "issueTokens cr now token u =
     (let expires = now + refreshTtlMs cr in
      bindR (commit (insert_refresh_token (u_id u) (sha cr token) expires)) (\<lambda>_.
      returnR \<lparr>at_accessToken = sign_jwt cr (u_id u) (u_email u), at_refreshToken = token,
               at_refreshExpiresAt = expires\<rparr>))"

definition session :: "crypto \<Rightarrow> millis \<Rightarrow> string \<Rightarrow> user \<Rightarrow> (public_user \<times> auth_tokens) handler" where
  "session cr now token u =
     bindR (issueTokens cr now token u) (\<lambda>tk. returnR (toPublicUser u, tk))"

definition find_token :: "string \<Rightarrow> db \<Rightarrow> refresh_token option" where
  "find_token h s = List.find (\<lambda>r. rt_tokenHash r = h) (refreshTokens s)"

definition find_user :: "id \<Rightarrow> db \<Rightarrow> user option" where
  "find_user i s = List.find (\<lambda>u. u_id u = i) (users s)"

definition revoke_where :: "(refresh_token \<Rightarrow> bool) \<Rightarrow> millis \<Rightarrow> unit db_tx" where
  "revoke_where p now = writeT (\<lambda>s. s\<lparr>refreshTokens :=
     update_where p (\<lambda>r. r\<lparr>rt_revokedAt := Some now\<rparr>) (refreshTokens s)\<rparr>)"

definition live_token_of :: "id \<Rightarrow> refresh_token \<Rightarrow> bool" where
  "live_token_of u r \<longleftrightarrow> rt_userId r = u \<and> rt_revokedAt r = None"

text \<open>What follows the checks of a rotation: revoke the row that was read, issue a new one.\<close>

definition rotate_finish :: "crypto \<Rightarrow> millis \<Rightarrow> string \<Rightarrow> refresh_token \<Rightarrow> user \<Rightarrow>
    (public_user \<times> auth_tokens) handler" where
  "rotate_finish cr now token r u =
     bindR (commit (revoke_where (\<lambda>q. rt_id q = rt_id r) now)) (\<lambda>_. session cr now token u)"

definition rotateRefreshToken :: "crypto \<Rightarrow> millis \<Rightarrow> string \<Rightarrow> string \<Rightarrow> (public_user \<times> auth_tokens) handler" where
  "rotateRefreshToken cr now token presented =
     bindR (queryR (find_token (sha cr presented))) (\<lambda>found.
     bindR (someR (Unauthorized Invalid_refresh) found) (\<lambda>r.
     if rt_revokedAt r \<noteq> None then
       bindR (commit (revoke_where (live_token_of (rt_userId r)) now)) (\<lambda>_.
       throwR (Unauthorized Reuse_detected))
     else
       bindR (guardR (\<not> rt_expiresAt r < now) (Unauthorized Refresh_expired)) (\<lambda>_.
       bindR (queryR (find_user (rt_userId r))) (\<lambda>owner.
       bindR (someR (Prisma P2025) owner) (\<lambda>u. rotate_finish cr now token r u)))))"

definition revokeRefreshToken :: "crypto \<Rightarrow> millis \<Rightarrow> string \<Rightarrow> unit handler" where
  "revokeRefreshToken cr now presented =
     commit (revoke_where (\<lambda>r. rt_tokenHash r = sha cr presented \<and> rt_revokedAt r = None) now)"

text \<open>The controller's refresh and logout: the cookie may be missing.\<close>

definition refresh_request :: "crypto \<Rightarrow> millis \<Rightarrow> string \<Rightarrow> string option \<Rightarrow> (public_user \<times> auth_tokens) handler" where
  "refresh_request cr now token cookie =
     (case cookie of
        None \<Rightarrow> throwR (Unauthorized Missing_refresh)
      | Some c \<Rightarrow> if c = [] then throwR (Unauthorized Missing_refresh)
                  else rotateRefreshToken cr now token c)"

definition logout :: "crypto \<Rightarrow> millis \<Rightarrow> string option \<Rightarrow> unit handler" where
  "logout cr now cookie = whenR (truthy cookie) (revokeRefreshToken cr now (the cookie))"

section \<open>Accounts\<close>

definition register :: "crypto \<Rightarrow> millis \<Rightarrow> string \<Rightarrow> register_dto \<Rightarrow> (public_user \<times> auth_tokens) handler" where
  "register cr now token d =
     (let email = normal_email (rg_email d); pw = argon_hash cr (rg_password d) in
      tryR
        (bindR (commit (create_user email (trim (rg_displayName d)) (Some pw) None)) (\<lambda>u.
         bindR (commit (claimMemberships now (u_id u) (u_email u))) (\<lambda>_.
         session cr now token u)))
        (\<lambda>e. if e = Prisma P2002 then throwR (Conflict Email_registered) else throwR e))"

definition find_email :: "string \<Rightarrow> db \<Rightarrow> user option" where
  "find_email e s = List.find (\<lambda>u. u_email u = e) (users s)"

definition login :: "crypto \<Rightarrow> millis \<Rightarrow> string \<Rightarrow> string \<Rightarrow> string \<Rightarrow> (public_user \<times> auth_tokens) handler" where
  "login cr now token email password =
     bindR (queryR (find_email (normal_email email))) (\<lambda>found.
     case found of
       None \<Rightarrow> throwR (Unauthorized Invalid_credentials)
     | Some u \<Rightarrow>
         if \<not> truthy (u_passwordHash u) then throwR (Unauthorized Invalid_credentials)
         else
           bindR (guardR (argon_verify cr (the (u_passwordHash u)) password)
              (Unauthorized Invalid_credentials)) (\<lambda>_. session cr now token u))"

definition link_google :: "id \<Rightarrow> string \<Rightarrow> user db_tx" where
  "link_google i google s =
     (if \<exists>v \<in> set (users s). u_id v \<noteq> i \<and> u_googleId v = Some google then Inl (Prisma P2002)
      else let s' = s\<lparr>users := update_where (\<lambda>u. u_id u = i)
             (\<lambda>u. u\<lparr>u_googleId := Some google, u_passwordHash := None\<rparr>) (users s)\<rparr>
           in case find_user i s' of None \<Rightarrow> Inl (Prisma P2025) | Some u \<Rightarrow> Inr (u, s'))"

definition find_google :: "string \<Rightarrow> db \<Rightarrow> user option" where
  "find_google g s = List.find (\<lambda>u. u_googleId u = Some g) (users s)"

definition findOrCreateGoogleUser :: "millis \<Rightarrow> string \<Rightarrow> string \<Rightarrow> string \<Rightarrow> user handler" where
  "findOrCreateGoogleUser now google email name =
     bindR (queryR (find_google google)) (\<lambda>byGoogle. case byGoogle of
       Some u \<Rightarrow> returnR u
     | None \<Rightarrow>
       bindR (queryR (find_email email)) (\<lambda>byEmail. case byEmail of
         Some u \<Rightarrow> commit (link_google (u_id u) google)
       | None \<Rightarrow> tryR
           (bindR (commit (create_user email name None (Some google))) (\<lambda>u.
            bindR (commit (claimMemberships now (u_id u) (u_email u))) (\<lambda>_. returnR u)))
           (\<lambda>e. if e = Prisma P2002 then
                  bindR (queryR (\<lambda>s. List.find (\<lambda>u. u_googleId u = Some google \<or> u_email u = email) (users s))) (\<lambda>ex.
                  case ex of Some u \<Rightarrow> returnR u | None \<Rightarrow> throwR e)
                else throwR e)))"

definition google_display_name :: "google_payload \<Rightarrow> string \<Rightarrow> string" where
  "google_display_name p email =
     (let n = (case g_name p of None \<Rightarrow> [] | Some n \<Rightarrow> trim n)
      in take MAX_DISPLAY_NAME_LENGTH (if n \<noteq> [] then n else hd (split_on (CHR ''@'') email)))"

definition loginWithGoogle :: "crypto \<Rightarrow> millis \<Rightarrow> string \<Rightarrow> string \<Rightarrow> (public_user \<times> auth_tokens) handler" where
  "loginWithGoogle cr now token credential =
     bindR (guardR (truthy (google_client cr)) Google_not_configured) (\<lambda>_.
     bindR (someR (Unauthorized Invalid_google) (google_verify cr (the (google_client cr)) credential)) (\<lambda>payload.
     bindR (someR (Unauthorized Google_unverified) payload) (\<lambda>p.
     bindR (guardR (truthy (g_sub p) \<and> truthy (g_email p) \<and> g_verified p)
        (Unauthorized Google_unverified)) (\<lambda>_.
     let email = normal_email (the (g_email p)) in
     bindR (findOrCreateGoogleUser now (the (g_sub p)) email (google_display_name p email)) (\<lambda>u.
     session cr now token u)))))"

definition getProfile :: "id \<Rightarrow> db \<Rightarrow> error + public_user" where
  "getProfile i s = (case find_user i s of None \<Rightarrow> Inl (Unauthorized No_such_user) | Some u \<Rightarrow> Inr (toPublicUser u))"

section \<open>The unique columns stay unique\<close>

definition accounts_ok :: "db \<Rightarrow> bool" where
  "accounts_ok s \<longleftrightarrow> distinct (map u_email (users s)) \<and>
     distinct (List.map_filter u_googleId (users s)) \<and>
     distinct (map rt_tokenHash (refreshTokens s))"

lemma create_user_accounts: "keepsT accounts_ok (create_user email name pw g)"
  by (auto simp: keepsT_def create_user_def tx_simps Let_def insert_user_def accounts_ok_def
      map_filter_snoc set_map_filter_iff split: if_splits option.splits)

lemma insert_refresh_token_accounts: "keepsT accounts_ok (insert_refresh_token u h x)"
  by (auto simp: keepsT_def insert_refresh_token_def bindT_Inr fresh_id_Inr accounts_ok_def
      split: if_splits)

lemma claimMemberships_accounts: "keepsT accounts_ok (claimMemberships now u email)"
  by (auto simp: keepsT_def claimMemberships_def tx_simps accounts_ok_def)

lemma revoke_where_accounts: "keepsT accounts_ok (revoke_where p now)"
  by (auto simp: keepsT_def revoke_where_def tx_simps accounts_ok_def)

lemma map_filter_link:
  assumes "distinct (List.map_filter u_googleId us)" and "distinct (map u_id us)"
    and "\<not> (\<exists>v \<in> set us. u_id v \<noteq> i \<and> u_googleId v = Some g)"
  shows "distinct (List.map_filter u_googleId (update_where (\<lambda>u. u_id u = i)
    (\<lambda>u. u\<lparr>u_googleId := Some g, u_passwordHash := None\<rparr>) us))"
  using assms
proof (induction us)
  case Nil
  then show ?case by (simp add: List.map_filter_def)
next
  case (Cons u us)
  have rest: "distinct (List.map_filter u_googleId us)"
    using Cons.prems(1) by (auto simp: List.map_filter_simps split: option.splits)
  show ?case
  proof (cases "u_id u = i")
    case True
    then have "i \<notin> u_id ` set us" using Cons.prems(2) by simp
    then have "\<forall>v \<in> set us. u_id v \<noteq> i" by (metis imageI)
    then have "update_where (\<lambda>u. u_id u = i)
        (\<lambda>u. u\<lparr>u_googleId := Some g, u_passwordHash := None\<rparr>) us = us"
      by (intro update_where_id) auto
    moreover have "g \<notin> set (List.map_filter u_googleId us)"
      using Cons.prems(3) \<open>\<forall>v \<in> set us. u_id v \<noteq> i\<close> by (auto simp: set_map_filter_iff)
    ultimately show ?thesis using True rest by (simp add: List.map_filter_simps)
  next
    case False
    have "u_googleId u \<noteq> Some g" using Cons.prems(3) False by auto
    then have "u_googleId u = Some y \<Longrightarrow> y \<notin> set (List.map_filter u_googleId (update_where (\<lambda>u. u_id u = i)
        (\<lambda>u. u\<lparr>u_googleId := Some g, u_passwordHash := None\<rparr>) us))" for y
      using Cons.prems(1)
      by (auto simp: set_map_filter_iff List.map_filter_simps row_simps split: option.splits if_splits)
    with False Cons rest show ?thesis
      by (auto simp: List.map_filter_simps split: option.splits)
  qed
qed

definition user_ids_ok :: "db \<Rightarrow> bool" where
  "user_ids_ok s \<longleftrightarrow> distinct (map u_id (users s)) \<and> (\<forall>u \<in> set (users s). u_id u < next_id s)"

definition accounts_inv :: "db \<Rightarrow> bool" where
  "accounts_inv s \<longleftrightarrow> accounts_ok s \<and> user_ids_ok s"

lemma create_user_ids: "keepsT user_ids_ok (create_user email name pw gg)"
  by (auto simp: keepsT_def create_user_def tx_simps Let_def insert_user_def user_ids_ok_def
      less_Suc_eq split: if_splits)

lemma other_tables_ids:
  "keepsT user_ids_ok (insert_refresh_token u h x)"
  "keepsT user_ids_ok (claimMemberships now u email)"
  "keepsT user_ids_ok (revoke_where p now)"
  by (auto simp: keepsT_def insert_refresh_token_def bindT_Inr fresh_id_Inr user_ids_ok_def
      claimMemberships_def revoke_where_def writeT_Inr less_Suc_eq split: if_splits)

lemma keepsT_accounts: "keepsT accounts_ok m \<Longrightarrow> keepsT user_ids_ok m \<Longrightarrow> keepsT accounts_inv m"
  by (auto simp: keepsT_def accounts_inv_def)

lemma link_google_accounts: "keepsT accounts_inv (link_google i g)"
proof (unfold keepsT_def, intro allI impI)
  fix s :: db and u s' assume inv: "accounts_inv s" and ok: "link_google i g s = Inr (u, s')"
  let ?us = "update_where (\<lambda>u. u_id u = i) (\<lambda>u. u\<lparr>u_googleId := Some g, u_passwordHash := None\<rparr>) (users s)"
  from ok have no: "\<not> (\<exists>v \<in> set (users s). u_id v \<noteq> i \<and> u_googleId v = Some g)"
      and s': "s' = s\<lparr>users := ?us\<rparr>"
    by (auto simp: link_google_def Let_def split: if_splits option.splits)
  have "distinct (List.map_filter u_googleId ?us)"
    using inv no by (intro map_filter_link) (auto simp: accounts_inv_def accounts_ok_def user_ids_ok_def)
  with inv show "accounts_inv s'"
    by (auto simp: s' accounts_inv_def accounts_ok_def user_ids_ok_def row_simps)
qed

lemmas accounts_tx = keepsT_accounts [OF create_user_accounts create_user_ids]
  keepsT_accounts [OF insert_refresh_token_accounts other_tables_ids(1)]
  keepsT_accounts [OF claimMemberships_accounts other_tables_ids(2)]
  keepsT_accounts [OF revoke_where_accounts other_tables_ids(3)]
  link_google_accounts

lemma session_accounts: "keepsR (\<lambda>w. accounts_inv (w_db w)) (session cr now token u)"
  unfolding session_def issueTokens_def Let_def by (intro keeps accounts_tx)

lemma rotate_accounts: "keepsR (\<lambda>w. accounts_inv (w_db w)) (rotateRefreshToken cr now token presented)"
  unfolding rotateRefreshToken_def rotate_finish_def
  by (intro keeps accounts_tx session_accounts | simp only: split: if_split | intro conjI impI)+

lemma register_accounts: "keepsR (\<lambda>w. accounts_inv (w_db w)) (register cr now token d)"
  unfolding register_def Let_def
  by (intro keeps accounts_tx session_accounts | simp only: split: if_split | intro conjI impI)+

lemma login_accounts: "keepsR (\<lambda>w. accounts_inv (w_db w)) (login cr now token email pw)"
  unfolding login_def
  by (intro keeps session_accounts | simp only: split: if_split option.split | intro conjI impI allI)+

lemma google_accounts: "keepsR (\<lambda>w. accounts_inv (w_db w)) (loginWithGoogle cr now token credential)"
  unfolding loginWithGoogle_def findOrCreateGoogleUser_def Let_def
  by (intro keeps accounts_tx session_accounts | simp only: split: if_split option.split | intro conjI impI allI)+

section \<open>A refresh token works once\<close>

lemma find_token_unique:
  "distinct (map rt_tokenHash (refreshTokens s)) \<Longrightarrow> r \<in> set (refreshTokens s) \<Longrightarrow>
     find_token (rt_tokenHash r) s = Some r"
  unfolding find_token_def by (rule find_key)

text \<open>A successful rotation leaves the presented token revoked in the table.\<close>

lemma rotate_ok:
  assumes "rotateRefreshToken cr now token presented w = (Inr res, w')"
  obtains r u where "find_token (sha cr presented) (w_db w) = Some r" and "rt_revokedAt r = None"
    and "\<not> rt_expiresAt r < now" and "find_user (rt_userId r) (w_db w) = Some u"
    and "refreshTokens (w_db w') =
      update_where (\<lambda>q. rt_id q = rt_id r) (\<lambda>r. r\<lparr>rt_revokedAt := Some now\<rparr>) (refreshTokens (w_db w)) @
      [\<lparr>rt_id = next_id (w_db w), rt_userId = u_id u, rt_tokenHash = sha cr token,
        rt_expiresAt = now + refreshTtlMs cr, rt_revokedAt = None\<rparr>]"
    and "users (w_db w') = users (w_db w)"
  using assms
  by (auto simp: rotateRefreshToken_def rotate_finish_def session_def issueTokens_def handler_defs
      revoke_where_def writeT_def insert_refresh_token_def bindT_def fresh_id_def Let_def row_simps
      image_image split: option.splits if_splits sum.splits prod.splits)

lemma rotate_again:
  assumes first: "rotateRefreshToken cr now token presented w = (Inr res, w')"
  shows "\<exists>w''. rotateRefreshToken cr now2 token2 presented w' = (Inl (Unauthorized Reuse_detected), w'') \<and>
    (\<forall>q \<in> set (refreshTokens (w_db w'')). rt_userId q = pu_id (fst res) \<longrightarrow> rt_revokedAt q \<noteq> None)"
proof -
  from rotate_ok [OF first] obtain r u where
    r: "find_token (sha cr presented) (w_db w) = Some r" and u: "find_user (rt_userId r) (w_db w) = Some u"
    and rows: "refreshTokens (w_db w') =
      update_where (\<lambda>q. rt_id q = rt_id r) (\<lambda>r. r\<lparr>rt_revokedAt := Some now\<rparr>) (refreshTokens (w_db w)) @
      [\<lparr>rt_id = next_id (w_db w), rt_userId = u_id u, rt_tokenHash = sha cr token,
        rt_expiresAt = now + refreshTtlMs cr, rt_revokedAt = None\<rparr>]"
    by blast
  have same: "u_id u = rt_userId r" using u by (auto simp: find_user_def dest: find_SomeD)
  have "find_token (sha cr presented) (w_db w') = Some (r\<lparr>rt_revokedAt := Some now\<rparr>)"
    using r by (simp add: find_token_def rows find_append find_update_where)
  then have "rotateRefreshToken cr now2 token2 presented w' = (Inl (Unauthorized Reuse_detected),
      w'\<lparr>w_db := (w_db w')\<lparr>refreshTokens := update_where (live_token_of (rt_userId r))
        (\<lambda>r. r\<lparr>rt_revokedAt := Some now2\<rparr>) (refreshTokens (w_db w'))\<rparr>\<rparr>)"
    by (simp add: rotateRefreshToken_def handler_defs revoke_where_def writeT_def)
  moreover have "pu_id (fst res) = rt_userId r"
    using first r u same
    by (auto simp: rotateRefreshToken_def rotate_finish_def session_def issueTokens_def handler_defs
        toPublicUser_def find_user_def revoke_where_def writeT_def
        split: option.splits if_splits sum.splits prod.splits)
  ultimately show ?thesis
    by (intro exI conjI) (auto simp: row_simps live_token_of_def)
qed

section \<open>Properties\<close>

definition demo_crypto :: crypto where
  "demo_crypto = \<lparr>argon_hash = (\<lambda>p. ''h'' @ p), argon_verify = (\<lambda>h p. h = ''h'' @ p), sha = (\<lambda>t. ''s'' @ t),
     sign_jwt = (\<lambda>u e. e), google_verify = (\<lambda>c t. None), google_client = None, refresh_days = None\<rparr>"

definition demo_token_db :: db where
  "demo_token_db = demo_db\<lparr>refreshTokens := [\<lparr>rt_id = 50, rt_userId = 2, rt_tokenHash = ''sone'', rt_expiresAt = 9000,
     rt_revokedAt = None\<rparr>]\<rparr>"

definition demo_rotation :: "(error + public_user \<times> auth_tokens) \<times> world" where
  "demo_rotation = rotateRefreshToken demo_crypto 1000 ''two'' ''one'' (demo_world demo_token_db)"

text \<open>
  C23: A refresh token works once. After a token has been exchanged for a new session, presenting it
  again, at any later time, is refused as a reuse and revokes every refresh token of that user,
  the one the thief or the owner got by the first exchange included.
\<close>

theorem refresh_reuse_detected:
  assumes "rotateRefreshToken cr now token presented w = (Inr res, w')"
  shows "\<exists>w''. rotateRefreshToken cr now2 token2 presented w' = (Inl (Unauthorized Reuse_detected), w'') \<and>
    list_all (\<lambda>q. rt_userId q \<noteq> pu_id (fst res) \<or> rt_revokedAt q \<noteq> None) (refreshTokens (w_db w''))"
  using rotate_again [OF assms, of now2 token2] by (fastforce simp: list_all_iff)

lemma demo_rotation_ok: "rotateRefreshToken demo_crypto 1000 ''two'' ''one'' (demo_world demo_token_db) =
    (Inr (projr (fst demo_rotation)), snd demo_rotation)"
  by code_simp

theorem refresh_reuse_detected_witness:
  "\<exists>w''. rotateRefreshToken demo_crypto 2000 ''three'' ''one'' (snd demo_rotation) =
      (Inl (Unauthorized Reuse_detected), w'') \<and>
    list_all (\<lambda>q. rt_userId q \<noteq> pu_id (fst (projr (fst demo_rotation))) \<or> rt_revokedAt q \<noteq> None)
      (refreshTokens (w_db w''))"
  by (rule refresh_reuse_detected [OF demo_rotation_ok])

text \<open>The requests that touch accounts and sessions, with what each draws from outside.\<close>

datatype account_request =
    Register millis string register_dto
  | Login millis string string string
  | Google millis string string
  | Refresh millis string "string option"
  | Logout millis "string option"

fun account_step :: "crypto \<Rightarrow> account_request \<Rightarrow> world \<Rightarrow> world" where
  "account_step cr (Register now token d) w = snd (register cr now token d w)"
| "account_step cr (Login now token email pw) w = snd (login cr now token email pw w)"
| "account_step cr (Google now token credential) w = snd (loginWithGoogle cr now token credential w)"
| "account_step cr (Refresh now token cookie) w = snd (refresh_request cr now token cookie w)"
| "account_step cr (Logout now cookie) w = snd (logout cr now cookie w)"

lemma account_step_inv: "accounts_inv (w_db w) \<Longrightarrow> accounts_inv (w_db (account_step cr r w))"
proof -
  have step: "keepsR (\<lambda>w. accounts_inv (w_db w)) m \<Longrightarrow> accounts_inv (w_db w) \<Longrightarrow> accounts_inv (w_db (snd (m w)))"
    for m :: "'a handler" by (simp add: keepsR_def)
  have refresh: "keepsR (\<lambda>w. accounts_inv (w_db w)) (refresh_request cr now token cookie)" for now token cookie
    unfolding refresh_request_def by (auto intro: keeps rotate_accounts split: option.split)
  have out: "keepsR (\<lambda>w. accounts_inv (w_db w)) (logout cr now cookie)" for now cookie
    unfolding logout_def revokeRefreshToken_def by (intro keeps accounts_tx)
  assume "accounts_inv (w_db w)"
  then show ?thesis
    using step [OF register_accounts] step [OF login_accounts] step [OF google_accounts] step [OF refresh] step [OF out]
    by (cases r) simp_all
qed

lemma accounts_kept: "accounts_inv (w_db w) \<Longrightarrow> accounts_inv (w_db (fold (account_step cr) rs w))"
  by (induction rs arbitrary: w) (simp_all add: account_step_inv)

text \<open>An account as \<open>register\<close> files it, and the address a Google login speaks for.\<close>

definition registered_user :: "crypto \<Rightarrow> id \<Rightarrow> register_dto \<Rightarrow> user" where
  "registered_user cr i d = \<lparr>u_id = i, u_email = normal_email (rg_email d), u_displayName = trim (rg_displayName d),
     u_passwordHash = Some (argon_hash cr (rg_password d)), u_googleId = None, u_isDemo = False\<rparr>"

fun google_address :: "crypto \<Rightarrow> account_request \<Rightarrow> string option" where
  "google_address cr (Google now token credential) =
     (case google_verify cr (the (google_client cr)) credential of
        Some (Some p) \<Rightarrow> map_option normal_email (g_email p)
      | _ \<Rightarrow> None)"
| "google_address cr _ = None"

definition on_file :: "user \<Rightarrow> db \<Rightarrow> bool" where
  "on_file u s \<longleftrightarrow> accounts_inv s \<and> u \<in> set (users s)"

lemma on_file_tx:
  "keepsT (on_file u) (create_user email name pw g)" "keepsT (on_file u) (insert_refresh_token i h x)"
  "keepsT (on_file u) (claimMemberships now i email)" "keepsT (on_file u) (revoke_where p now)"
proof -
  have both: "keepsT (on_file u) m" if "keepsT accounts_inv m" "keepsT (\<lambda>s. u \<in> set (users s)) m" for m :: "'a db_tx"
    using that unfolding keepsT_def on_file_def by blast
  show "keepsT (on_file u) (create_user email name pw g)"
    by (intro both accounts_tx) (auto simp: keepsT_def create_user_def tx_simps Let_def insert_user_def split: if_splits)
  show "keepsT (on_file u) (insert_refresh_token i h x)"
    by (intro both accounts_tx) (auto simp: keepsT_def insert_refresh_token_def bindT_Inr fresh_id_Inr split: if_splits)
  show "keepsT (on_file u) (claimMemberships now i email)"
    by (intro both accounts_tx) (auto simp: keepsT_def claimMemberships_def tx_simps)
  show "keepsT (on_file u) (revoke_where p now)"
    by (intro both accounts_tx) (auto simp: keepsT_def revoke_where_def tx_simps)
qed

lemma on_file_link:
  "i \<noteq> u_id u \<Longrightarrow> keepsT (on_file u) (link_google i g)"
  using link_google_accounts [of i g]
  by (auto simp: on_file_def keepsT_def link_google_def Let_def set_update_where split: if_splits option.splits)

lemma find_email_other:
  assumes "on_file u s" and "find_email e s = Some v" and "e \<noteq> u_email u"
  shows "u_id v \<noteq> u_id u"
proof
  assume "u_id v = u_id u"
  moreover have "v \<in> set (users s)" "u_email v = e" using assms(2) by (auto simp: find_email_def dest: find_SomeD)
  ultimately show False
    using assms by (auto simp: on_file_def accounts_inv_def user_ids_ok_def dest: distinct_map_key_eq)
qed

lemma on_file_session: "keepsR (\<lambda>w. on_file u (w_db w)) (session cr now token v)"
  unfolding session_def issueTokens_def Let_def by (intro keeps on_file_tx)

lemma on_file_google_user:
  assumes "email \<noteq> u_email u"
  shows "keepsR (\<lambda>w. on_file u (w_db w)) (findOrCreateGoogleUser now google email name)"
proof -
  let ?new = "tryR
           (bindR (commit (create_user email name None (Some google))) (\<lambda>u.
            bindR (commit (claimMemberships now (u_id u) (u_email u))) (\<lambda>_. returnR u)))
           (\<lambda>e. if e = Prisma P2002 then
                  bindR (queryR (\<lambda>s. List.find (\<lambda>u. u_googleId u = Some google \<or> u_email u = email) (users s))) (\<lambda>ex.
                  case ex of Some u \<Rightarrow> returnR u | None \<Rightarrow> throwR e)
                else throwR e)"
  have new: "keepsR (\<lambda>w. on_file u (w_db w)) ?new"
    by (intro keeps on_file_tx | simp only: split: if_split option.split | intro conjI impI allI)+
  have link: "on_file u (w_db (snd (commit (link_google (u_id v) google) w)))"
    if "on_file u (w_db w)" "find_email email (w_db w) = Some v" for v and w :: world
    using commit_keeps [OF on_file_link [OF find_email_other [OF that assms]]] that(1) unfolding keepsR_def by blast
  have ret: "snd (returnR v w) = w" for v :: user and w :: world by (simp add: returnR_def)
  show ?thesis
    unfolding keepsR_def
  proof (intro allI impI)
    fix w :: world assume ok: "on_file u (w_db w)"
    then show "on_file u (w_db (snd (findOrCreateGoogleUser now google email name w)))"
      using link [OF ok] new [unfolded keepsR_def, rule_format, OF ok]
      by (simp add: findOrCreateGoogleUser_def bindR_def [of "queryR _"] queryR_def [of "find_google _"] queryR_def [of "find_email _"]
          ret split: option.split)
  qed
qed

lemma on_file_google:
  assumes "google_address cr (Google now token credential) \<noteq> Some (u_email u)"
  shows "keepsR (\<lambda>w. on_file u (w_db w)) (loginWithGoogle cr now token credential)"
proof (cases "\<exists>p e. google_verify cr (the (google_client cr)) credential = Some (Some p) \<and> g_email p = Some e")
  case False
  then have "snd (loginWithGoogle cr now token credential w) = w" for w :: world
    by (auto simp: loginWithGoogle_def bindR_def guardR_def someR_def truthy_def split: option.splits)
  then show ?thesis by (simp add: keepsR_def)
next
  case True
  then obtain p e where p: "google_verify cr (the (google_client cr)) credential = Some (Some p)" "g_email p = Some e" by blast
  with assms have "normal_email (the (g_email p)) \<noteq> u_email u" by simp
  note user = on_file_google_user [OF this]
  have some: "bindR (someR err (Some a)) f = f a" for err and a :: 'b and f :: "'b \<Rightarrow> 'c handler"
    by (rule ext) (simp add: bindR_def someR_def)
  have "loginWithGoogle cr now token credential =
    bindR (guardR (truthy (google_client cr)) Google_not_configured) (\<lambda>_.
    bindR (guardR (truthy (g_sub p) \<and> truthy (g_email p) \<and> g_verified p) (Unauthorized Google_unverified)) (\<lambda>_.
    bindR (findOrCreateGoogleUser now (the (g_sub p)) (normal_email (the (g_email p)))
      (google_display_name p (normal_email (the (g_email p))))) (session cr now token)))"
    by (simp only: loginWithGoogle_def p(1) some Let_def)
  then show ?thesis by (simp only:) (intro keeps user on_file_session)
qed

lemma on_file_step:
  assumes "on_file u (w_db w)" and "google_address cr r \<noteq> Some (u_email u)"
  shows "on_file u (w_db (account_step cr r w))"
proof -
  have step: "on_file u (w_db (snd (m w)))" if "keepsR (\<lambda>w. on_file u (w_db w)) m" for m :: "'a handler"
    using that assms(1) unfolding keepsR_def by blast
  have register: "keepsR (\<lambda>w. on_file u (w_db w)) (register cr now token d)" for now token d
    unfolding register_def Let_def
    by (intro keeps on_file_tx on_file_session | simp only: split: if_split | intro conjI impI)+
  have login: "keepsR (\<lambda>w. on_file u (w_db w)) (login cr now token email pw)" for now token email pw
    unfolding login_def
    by (intro keeps on_file_session | simp only: split: if_split option.split | intro conjI impI allI)+
  have rotate: "keepsR (\<lambda>w. on_file u (w_db w)) (rotateRefreshToken cr now token c)" for now token c
    unfolding rotateRefreshToken_def rotate_finish_def
    by (intro keeps on_file_tx on_file_session | simp only: split: if_split | intro conjI impI)+
  have refresh: "keepsR (\<lambda>w. on_file u (w_db w)) (refresh_request cr now token cookie)" for now token cookie
    unfolding refresh_request_def by (auto intro: keeps rotate split: option.split)
  have out: "keepsR (\<lambda>w. on_file u (w_db w)) (logout cr now cookie)" for now cookie
    unfolding logout_def revokeRefreshToken_def by (intro keeps on_file_tx)
  show ?thesis
    using step [OF register] step [OF login] step [OF refresh] step [OF out] step [OF on_file_google [of cr]] assms(2)
    by (cases r) (simp_all del: google_address.simps)
qed

lemma on_file_run:
  "on_file u (w_db w) \<Longrightarrow> list_all (\<lambda>r. google_address cr r \<noteq> Some (u_email u)) rs \<Longrightarrow>
     on_file u (w_db (fold (account_step cr) rs w))"
  by (induction rs arbitrary: w) (simp_all del: google_address.simps add: on_file_step)

lemma registered:
  assumes "register cr now token d w = (Inr (pu, tk), w1)" and "accounts_inv (w_db w)"
  shows "on_file (registered_user cr (pu_id pu) d) (w_db w1) \<and> toPublicUser (registered_user cr (pu_id pu) d) = pu"
proof
  have "accounts_inv (w_db w1)"
    using register_accounts [of cr now token d, unfolded keepsR_def] assms by (metis snd_conv)
  moreover have "registered_user cr (pu_id pu) d \<in> set (users (w_db w1))"
    using assms(1)
    by (auto simp: register_def Let_def tryR_def throwR_def handler_defs create_user_def tx_simps insert_user_def
        claimMemberships_def session_def issueTokens_def insert_refresh_token_def toPublicUser_def registered_user_def
        split: sum.splits prod.splits if_splits)
  ultimately show "on_file (registered_user cr (pu_id pu) d) (w_db w1)" by (simp add: on_file_def)
  show "toPublicUser (registered_user cr (pu_id pu) d) = pu"
    using assms(1)
    by (auto simp: register_def Let_def tryR_def throwR_def handler_defs create_user_def tx_simps insert_user_def
        claimMemberships_def session_def issueTokens_def insert_refresh_token_def toPublicUser_def registered_user_def
        split: sum.splits prod.splits if_splits)
qed

lemma find_on_file: "on_file u s \<Longrightarrow> find_email (u_email u) s = Some u"
  unfolding find_email_def by (rule find_key) (auto simp: on_file_def accounts_inv_def accounts_ok_def)

lemma login_on_file:
  assumes "on_file u (w_db w)" and "normal_email e = u_email u" and "u_passwordHash u = Some h" and "h \<noteq> []"
  shows "\<not> argon_verify cr h pw \<Longrightarrow> login cr now token e pw w = (Inl (Unauthorized Invalid_credentials), w)"
    and "argon_verify cr h pw \<Longrightarrow> sha cr token \<notin> rt_tokenHash ` set (refreshTokens (w_db w)) \<Longrightarrow>
      \<exists>tk w'. login cr now token e pw w = (Inr (toPublicUser u, tk), w')"
  using find_on_file [OF assms(1)] assms(2-4)
  by (simp_all add: login_def handler_defs truthy_def session_def issueTokens_def Let_def insert_refresh_token_def
      bindT_def fresh_id_def)

lemma register_on_file:
  assumes "on_file u (w_db w)" and "normal_email (rg_email d) = u_email u"
  shows "register cr now token d w = (Inl (Conflict Email_registered), w)"
proof -
  have "\<exists>v \<in> set (users (w_db w)). u_email v = u_email u" using assms(1) unfolding on_file_def by blast
  then show ?thesis
    using assms(2)
    by (simp add: register_def Let_def tryR_def throwR_def handler_defs create_user_def bindT_def fresh_id_def insert_user_def)
qed

text \<open>
  C36: An account belongs to its password. After an account was registered, and after any sequence of
  registrations, logins, Google logins for other addresses, refreshes and logouts, successful or
  refused, logging in with its address, however it is spelled, is refused with a wrong password and
  changes nothing, and with the right one opens a session of that very account; registering the
  address again is refused in every spelling and changes nothing; and user ids, addresses, Google
  identities and refresh token hashes are unique as before.
\<close>

theorem account_opens_with_password:
  assumes "accounts_inv (w_db w)" and "register cr now token d w = (Inr (pu, tk), w1)"
    and "argon_hash cr (rg_password d) \<noteq> []"
    and "list_all (\<lambda>r. google_address cr r \<noteq> Some (normal_email (rg_email d))) rs"
    and "w2 = fold (account_step cr) rs w1" and "normal_email e = normal_email (rg_email d)"
  shows "pu_email pu = normal_email (rg_email d) \<and> accounts_inv (w_db w2) \<and>
    (\<not> argon_verify cr (argon_hash cr (rg_password d)) pw \<longrightarrow>
       login cr now2 token2 e pw w2 = (Inl (Unauthorized Invalid_credentials), w2)) \<and>
    (argon_verify cr (argon_hash cr (rg_password d)) pw \<and> sha cr token2 \<notin> rt_tokenHash ` set (refreshTokens (w_db w2)) \<longrightarrow>
       (\<exists>tk2 w3. login cr now2 token2 e pw w2 = (Inr (pu, tk2), w3))) \<and>
    register cr now2 token2 \<lparr>rg_email = e, rg_password = pw, rg_displayName = n\<rparr> w2 =
      (Inl (Conflict Email_registered), w2)"
proof -
  let ?u = "registered_user cr (pu_id pu) d"
  have u: "u_email ?u = normal_email (rg_email d)" "u_passwordHash ?u = Some (argon_hash cr (rg_password d))"
    by (simp_all add: registered_user_def)
  from registered [OF assms(2,1)] have w1: "on_file ?u (w_db w1)" and pu: "toPublicUser ?u = pu" by auto
  have w2: "on_file ?u (w_db w2)"
    using on_file_run [OF w1, of cr rs] assms(4) unfolding assms(5) u(1) by blast
  have e: "normal_email e = u_email ?u" using assms(6) u(1) by simp
  note login_on_file [OF w2 e u(2) assms(3), where cr = cr and pw = pw and now = now2 and token = token2, unfolded pu]
  moreover have "pu_email pu = normal_email (rg_email d)" using arg_cong [OF pu, of pu_email] u(1) by (simp add: toPublicUser_def)
  ultimately show ?thesis
    using register_on_file [OF w2, of "\<lparr>rg_email = e, rg_password = pw, rg_displayName = n\<rparr>" cr now2 token2] e w2
    by (simp add: on_file_def)
qed

definition demo_register :: register_dto where
  "demo_register = \<lparr>rg_email = '' Ann@x'', rg_password = ''password'', rg_displayName = ''Ann''\<rparr>"

definition registration :: "(error + public_user \<times> auth_tokens) \<times> world" where
  "registration = register demo_crypto 1000 ''two'' demo_register (demo_world demo_token_db)"

lemma registration_ok: "register demo_crypto 1000 ''two'' demo_register (demo_world demo_token_db) =
    (Inr (fst (projr (fst registration)), snd (projr (fst registration))), snd registration)"
  by code_simp

definition account_day :: "account_request list" where
  "account_day = [Login 1001 ''three'' ''ann@X'' ''guess'', Register 1002 ''four'' demo_register,
     Refresh 1003 ''five'' (Some ''two'')]"

theorem account_opens_with_password_witness:
  "login demo_crypto 2000 ''six'' ''ANN@x '' ''guess'' (fold (account_step demo_crypto) account_day (snd registration)) =
      (Inl (Unauthorized Invalid_credentials), fold (account_step demo_crypto) account_day (snd registration)) \<and>
    (\<exists>tk w3. login demo_crypto 2000 ''six'' ''ANN@x '' ''password''
      (fold (account_step demo_crypto) account_day (snd registration)) = (Inr (fst (projr (fst registration)), tk), w3))"
proof -
  have start: "accounts_inv (w_db (demo_world demo_token_db))"
    by (simp add: accounts_inv_def accounts_ok_def user_ids_ok_def demo_token_db_def demo_defs List.map_filter_def)
  have side: "argon_hash demo_crypto (rg_password demo_register) \<noteq> []"
    "list_all (\<lambda>r. google_address demo_crypto r \<noteq> Some (normal_email (rg_email demo_register))) account_day"
    "normal_email ''ANN@x '' = normal_email (rg_email demo_register)"
    "\<not> argon_verify demo_crypto (argon_hash demo_crypto (rg_password demo_register)) ''guess''"
    "argon_verify demo_crypto (argon_hash demo_crypto (rg_password demo_register)) ''password''"
    by code_simp+
  have fresh: "sha demo_crypto ''six'' \<notin> rt_tokenHash `
      set (refreshTokens (w_db (fold (account_step demo_crypto) account_day (snd registration))))"
    by code_simp
  note opens = account_opens_with_password [OF start registration_ok side(1,2) refl side(3)]
  show ?thesis using opens [of "''guess''" 2000 "''six''"] opens [of "''password''" 2000 "''six''"] side(4,5) fresh by blast
qed

end
