(* ===== verification/Gateway.thy ===== *)
theory Gateway
  imports Realtime
begin

text \<open>
  The two doors in front of the services: \<^verbatim>\<open>admission/admission-token.ts\<close> with
  \<^verbatim>\<open>admission.guard.ts\<close>, which check the waiting room's token on the routes of a drop, and
  \<^verbatim>\<open>realtime/realtime.gateway.ts\<close>, which decides who may listen to which socket room. The keyed
  hash and the reader of the token's claims are parameters.
\<close>

section \<open>Admission tokens\<close>

record admission_claims =
  ac_eventId :: "id option"
  ac_exp :: "int option"

definition verifyAdmissionToken :: "(string \<Rightarrow> string \<Rightarrow> string) \<Rightarrow> (string \<Rightarrow> admission_claims option) \<Rightarrow>
    string \<Rightarrow> string \<Rightarrow> id \<Rightarrow> millis \<Rightarrow> bool" where
  "verifyAdmissionToken hmac claims_of secret token ev now =
     (case split_on (CHR ''.'') token of
        [header, payload, signature] \<Rightarrow>
          if hmac secret (header @ ''.'' @ payload) \<noteq> signature then False
          else (case claims_of payload of
             None \<Rightarrow> False
           | Some c \<Rightarrow>
               if ac_eventId c \<noteq> Some ev then False
               else (case ac_exp c of
                  None \<Rightarrow> False
                | Some x \<Rightarrow> if x = 0 \<or> now \<ge> 1000 * x then False else True))
      | _ \<Rightarrow> False)"

text \<open>The guard: \<open>None\<close> as event when the route has no event parameter.\<close>

definition canActivate :: "(string \<Rightarrow> string \<Rightarrow> string) \<Rightarrow> (string \<Rightarrow> admission_claims option) \<Rightarrow>
    string \<Rightarrow> string option \<Rightarrow> id option \<Rightarrow> millis \<Rightarrow> db \<Rightarrow> error + unit" where
  "canActivate hmac claims_of secret header ev now s =
     (case ev of
        None \<Rightarrow> Inr ()
      | Some i \<Rightarrow>
          (case find_event i s of
             None \<Rightarrow> Inr ()
           | Some e \<Rightarrow>
               if \<not> ev_dropMode e then Inr ()
               else if truthy header \<and> verifyAdmissionToken hmac claims_of secret (the header) i now
                 then Inr ()
               else Inl Admission_required))"

lemma verified_token_form:
  assumes "verifyAdmissionToken hmac claims_of secret token ev now"
  shows "\<exists>header payload x. token = header @ ''.'' @ payload @ ''.'' @ hmac secret (header @ ''.'' @ payload) \<and>
    claims_of payload = Some \<lparr>ac_eventId = Some ev, ac_exp = Some x\<rparr> \<and> now < 1000 * x"
proof -
  from assms obtain header payload signature c x where
    p: "split_on (CHR ''.'') token = [header, payload, signature]"
    and sig: "signature = hmac secret (header @ ''.'' @ payload)"
    and c: "claims_of payload = Some c" "ac_eventId c = Some ev" "ac_exp c = Some x" "now < 1000 * x"
    by (auto simp: verifyAdmissionToken_def split: list.splits option.splits if_splits)
  have "token = join_with ''.'' (split_on (CHR ''.'') token)" by (simp add: split_on_join)
  then have "token = header @ ''.'' @ payload @ ''.'' @ signature" by (simp add: p)
  with sig c show ?thesis by (intro exI [of _ header] exI [of _ payload] exI [of _ x]) auto
qed

section \<open>Socket rooms\<close>

datatype room = Event_room string | Order_room id

definition roomFor :: "string option \<Rightarrow> room option" where
  "roomFor ev = (case ev of
     None \<Rightarrow> None
   | Some e \<Rightarrow> if length e = 0 \<or> length e > 64 then None else Some (Event_room e))"

text \<open>What a socket sends; a field that is not a string is \<open>None\<close>.\<close>

datatype socket_command =
    Join "string option"
  | Join_order "id option" "id option"
  | Leave "string option"

type_synonym rooms = "(nat \<times> room) list"

definition join_room :: "nat \<Rightarrow> room \<Rightarrow> rooms \<Rightarrow> rooms" where
  "join_room client r rs = (if (client, r) \<in> set rs then rs else rs @ [(client, r)])"

text \<open>The flag is the \<^verbatim>\<open>joined\<close> or \<^verbatim>\<open>left\<close> of the acknowledgement.\<close>

fun socket_step :: "db \<Rightarrow> nat \<Rightarrow> socket_command \<Rightarrow> rooms \<Rightarrow> bool \<times> rooms" where
  "socket_step s client (Join ev) rs =
     (case roomFor ev of None \<Rightarrow> (False, rs) | Some r \<Rightarrow> (True, join_room client r rs))"
| "socket_step s client (Join_order ord token) rs =
     (case (ord, token) of
        (Some i, Some t) \<Rightarrow>
          (case List.find (\<lambda>r. o_id r = i \<and> o_guestToken r = t) (orders s) of
             None \<Rightarrow> (False, rs)
           | Some r \<Rightarrow> (True, join_room client (Order_room (o_id r)) rs))
      | _ \<Rightarrow> (False, rs))"
| "socket_step s client (Leave ev) rs =
     (case roomFor ev of None \<Rightarrow> (False, rs)
      | Some r \<Rightarrow> (True, filter (\<lambda>x. x \<noteq> (client, r)) rs))"

text \<open>A run of commands, each against the database as it is at that moment.\<close>

fun socket_run :: "(db \<times> nat \<times> socket_command) list \<Rightarrow> rooms \<Rightarrow> rooms" where
  "socket_run [] rs = rs"
| "socket_run ((s, client, c) # cs) rs = socket_run cs (snd (socket_step s client c rs))"

lemma join_room_set [simp]: "set (join_room client r rs) = insert (client, r) (set rs)"
  by (auto simp: join_room_def)

lemma socket_step_order_room:
  assumes "(client, Order_room i) \<in> set (snd (socket_step s c cmd rs))"
    and "(client, Order_room i) \<notin> set rs"
  shows "\<exists>t. c = client \<and> cmd = Join_order (Some i) (Some t) \<and>
    (\<exists>r \<in> set (orders s). o_id r = i \<and> o_guestToken r = t)"
proof (cases cmd)
  case (Join ev)
  with assms show ?thesis by (auto simp: roomFor_def split: option.splits if_splits)
next
  case (Join_order ord token)
  with assms obtain j t r where "ord = Some j" "token = Some t"
      "List.find (\<lambda>r. o_id r = j \<and> o_guestToken r = t) (orders s) = Some r" "c = client" "o_id r = i"
    by (auto split: option.splits)
  with Join_order show ?thesis by (auto dest: find_SomeD)
next
  case (Leave ev)
  with assms show ?thesis by (auto split: option.splits)
qed

lemma socket_run_order_room:
  assumes "(client, Order_room i) \<in> set (socket_run cs rs)" and "(client, Order_room i) \<notin> set rs"
  shows "\<exists>s t. (s, client, Join_order (Some i) (Some t)) \<in> set cs \<and>
    (\<exists>r \<in> set (orders s). o_id r = i \<and> o_guestToken r = t)"
  using assms
proof (induction cs arbitrary: rs)
  case Nil
  then show ?case by simp
next
  case (Cons c cs)
  obtain s k cmd where c: "c = (s, k, cmd)" by (cases c)
  let ?rs = "snd (socket_step s k cmd rs)"
  show ?case
  proof (cases "(client, Order_room i) \<in> set ?rs")
    case True
    from socket_step_order_room [OF this Cons.prems(2)] show ?thesis by (auto simp: c)
  next
    case False
    with Cons.IH [of ?rs] Cons.prems(1) show ?thesis by (auto simp: c)
  qed
qed

section \<open>Properties\<close>

text \<open>
  C27: The waiting room cannot be bypassed. For an event in drop mode the guard lets a request pass
  exactly when its header is a token the gate signed: three parts, the third the signature of the
  first two under the shared secret, the claims naming this very event and an expiry still ahead.
  For every other request (no such event, or no drop mode) it lets it pass.
\<close>

theorem admission_guard_exact:
  assumes "find_event i s = Some e" and "ev_dropMode e"
    and "\<forall>m. CHR ''.'' \<notin> set (hmac secret m)"
  shows "canActivate hmac claims_of secret header (Some i) now s = Inr () \<longleftrightarrow>
    (\<exists>h p x. CHR ''.'' \<notin> set h \<and> CHR ''.'' \<notin> set p \<and>
       header = Some (h @ ''.'' @ p @ ''.'' @ hmac secret (h @ ''.'' @ p)) \<and>
       claims_of p = Some \<lparr>ac_eventId = Some i, ac_exp = Some x\<rparr> \<and> x \<noteq> 0 \<and> now < 1000 * x)"
    (is "?pass \<longleftrightarrow> ?token")
proof
  assume ?pass
  with assms(1,2) obtain t where t: "header = Some t" "verifyAdmissionToken hmac claims_of secret t i now"
    by (auto simp: canActivate_def truthy_def split: if_splits)
  from t(2) obtain h p where parts: "split_on (CHR ''.'') t = [h, p, hmac secret (h @ ''.'' @ p)]"
    by (auto simp: verifyAdmissionToken_def split: list.splits if_splits)
  with t(2) obtain c x where "claims_of p = Some c" "ac_eventId c = Some i" "ac_exp c = Some x" "x \<noteq> 0" "now < 1000 * x"
    by (auto simp: verifyAdmissionToken_def split: option.splits if_splits)
  moreover from this have "c = \<lparr>ac_eventId = Some i, ac_exp = Some x\<rparr>" by (cases c) simp
  moreover have "t = h @ ''.'' @ p @ ''.'' @ hmac secret (h @ ''.'' @ p)"
    using split_on_join [of "CHR ''.''" t] parts by simp
  moreover have "CHR ''.'' \<notin> set h" "CHR ''.'' \<notin> set p"
    using split_on_no_sep [of _ "CHR ''.''" t] parts by auto
  ultimately show ?token using t(1) by blast
next
  assume ?token
  then obtain h p x where t: "CHR ''.'' \<notin> set h" "CHR ''.'' \<notin> set p"
      "header = Some (h @ ''.'' @ p @ ''.'' @ hmac secret (h @ ''.'' @ p))"
      "claims_of p = Some \<lparr>ac_eventId = Some i, ac_exp = Some x\<rparr>" "x \<noteq> 0" "now < 1000 * x" by blast
  have "split_on (CHR ''.'') (h @ CHR ''.'' # p @ CHR ''.'' # hmac secret (h @ CHR ''.'' # p)) =
      [h, p, hmac secret (h @ CHR ''.'' # p)]"
    using t(1,2) assms(3) by (simp add: split_on_sep split_on_none)
  with t assms(1,2) show ?pass by (simp add: canActivate_def truthy_def verifyAdmissionToken_def)
qed

theorem admission_guard_exact_witness:
  "canActivate (\<lambda>k m. ''5f'') (\<lambda>p. Some \<lparr>ac_eventId = Some 1, ac_exp = Some 2000\<rparr>) ''key'' (Some ''e30.e30.5f'') (Some 1)
      1000 demo_db = Inr () \<longleftrightarrow>
    (\<exists>h p x. CHR ''.'' \<notin> set h \<and> CHR ''.'' \<notin> set p \<and>
       Some ''e30.e30.5f'' = Some (h @ ''.'' @ p @ ''.'' @ (\<lambda>k m. ''5f'') ''key'' (h @ ''.'' @ p)) \<and>
       (\<lambda>p. Some \<lparr>ac_eventId = Some (1::id), ac_exp = Some 2000\<rparr>) p = Some \<lparr>ac_eventId = Some 1, ac_exp = Some x\<rparr> \<and>
       x \<noteq> 0 \<and> 1000 < 1000 * x)"
  by (rule admission_guard_exact [where e = demo_event]) (simp_all add: find_event_def demo_defs)

text \<open>
  C37: Order rooms are private. Whatever sockets send and however the orders change between commands, a
  socket is in the room of an order only if it was there at the start or it itself sent a command
  with that order's id and its guest token.
\<close>

theorem order_rooms_private:
  assumes "(client, Order_room i) \<in> set (socket_run cs rs)"
  shows "(client, Order_room i) \<in> set rs \<or>
    list_ex (\<lambda>(s, c, cmd). c = client \<and>
      list_ex (\<lambda>r. o_id r = i \<and> cmd = Join_order (Some i) (Some (o_guestToken r))) (orders s)) cs"
proof (cases "(client, Order_room i) \<in> set rs")
  case False
  from socket_run_order_room [OF assms False] obtain s t r where
    "(s, client, Join_order (Some i) (Some t)) \<in> set cs" "r \<in> set (orders s)" "o_id r = i" "o_guestToken r = t" by blast
  then show ?thesis by (force simp: list_ex_iff)
qed simp

theorem order_rooms_private_witness:
  "(4::nat, Order_room 20) \<in> set [] \<or>
    list_ex (\<lambda>(s, c, cmd). c = (4::nat) \<and>
      list_ex (\<lambda>r. o_id r = 20 \<and> cmd = Join_order (Some 20) (Some (o_guestToken r))) (orders s))
      [(paid_db, 4, Join (Some ''1'')), (paid_db, 4, Join_order (Some 20) (Some 21))]"
  by (rule order_rooms_private [where rs = "[]"]) (simp add: demo_defs roomFor_def)

end
