(* ===== verification/Team.thy ===== *)
theory Team
  imports Access
begin

text \<open>
  \<^verbatim>\<open>team/team.service.ts\<close>: the owner lists, adds, changes and removes the members of an
  event's team; a member is a row keyed by the event and a trimmed lower-case email, linked to a
  user when one has registered with it.
\<close>

record member_view =
  mv_id :: id
  mv_email :: string
  mv_role :: member_role
  mv_linked :: bool
  mv_createdAt :: millis

definition toView :: "team_member \<Rightarrow> member_view" where
  "toView m = \<lparr>mv_id = tm_id m, mv_email = tm_email m, mv_role = tm_role m,
     mv_linked = (tm_userId m \<noteq> None), mv_createdAt = tm_createdAt m\<rparr>"

definition team_list :: "id \<Rightarrow> id \<Rightarrow> db \<Rightarrow> error + member_view list" where
  "team_list ev u s =
     (case requireEventRole ev u Owner s of
        Inl e \<Rightarrow> Inl e
      | Inr _ \<Rightarrow> Inr (map toView
          (sort_key tm_createdAt (filter (\<lambda>m. tm_eventId m = ev) (teamMembers s)))))"

text \<open>\<^verbatim>\<open>team_members_event_id_email_key\<close>.\<close>

definition insert_member :: "team_member \<Rightarrow> unit db_tx" where
  "insert_member r s =
     (if \<exists>m \<in> set (teamMembers s). tm_eventId m = tm_eventId r \<and> tm_email m = tm_email r
      then Inl (Prisma P2002)
      else Inr ((), s\<lparr>teamMembers := teamMembers s @ [r]\<rparr>))"

definition team_add :: "millis \<Rightarrow> id \<Rightarrow> id \<Rightarrow> string \<Rightarrow> member_role \<Rightarrow> member_view handler" where
  "team_add now ev u email0 role =
     bindR (askR (requireEventRole ev u Owner)) (\<lambda>(event, _).
     let email = to_lower (trim email0) in
     bindR (queryR (\<lambda>s. List.find (\<lambda>x. u_id x = ev_organizerId event) (users s))) (\<lambda>organizer.
     bindR (guardR (map_option u_email organizer \<noteq> Some email)
              (Bad_request Owner_already_on_team)) (\<lambda>_.
     bindR (queryR (\<lambda>s. List.find (\<lambda>x. u_email x = email) (users s))) (\<lambda>linkedUser.
     tryR
       (commit (bindT fresh_id (\<lambda>i.
          let m = \<lparr>tm_id = i, tm_eventId = ev, tm_email = email,
                   tm_userId = map_option u_id linkedUser, tm_role = role, tm_invitedById = u,
                   tm_createdAt = now,
                   tm_linkedAt = (if linkedUser = None then None else Some now)\<rparr>
          in bindT (insert_member m) (\<lambda>_. returnT (toView m)))))
       (\<lambda>e. throwR (if e = Prisma P2002 then Conflict Email_on_team else e))))))"

definition changeRole :: "id \<Rightarrow> id \<Rightarrow> id \<Rightarrow> member_role \<Rightarrow> member_view handler" where
  "changeRole ev u memberId role =
     bindR (askR (requireEventRole ev u Owner)) (\<lambda>_.
     bindR (queryR (\<lambda>s. List.find (\<lambda>m. tm_id m = memberId \<and> tm_eventId m = ev) (teamMembers s)))
       (\<lambda>member.
     bindR (guardR (member \<noteq> None) (Not_found Member_not_found)) (\<lambda>_.
     commit (\<lambda>s.
       let s' = s\<lparr>teamMembers := update_where (\<lambda>m. tm_id m = memberId)
                  (\<lambda>m. m\<lparr>tm_role := role\<rparr>) (teamMembers s)\<rparr>
       in case List.find (\<lambda>m. tm_id m = memberId) (teamMembers s') of
            None \<Rightarrow> Inl (Prisma P2025)
          | Some m \<Rightarrow> Inr (toView m, s')))))"

definition team_remove :: "id \<Rightarrow> id \<Rightarrow> id \<Rightarrow> unit handler" where
  "team_remove ev u memberId =
     bindR (askR (requireEventRole ev u Owner)) (\<lambda>_.
     bindR (commit (\<lambda>s.
       let gone = (\<lambda>m. tm_id m = memberId \<and> tm_eventId m = ev)
       in Inr (count_where gone (teamMembers s),
               s\<lparr>teamMembers := delete_where gone (teamMembers s)\<rparr>))) (\<lambda>count.
     guardR (count \<noteq> 0) (Not_found Member_not_found)))"

section \<open>Facts about the roster\<close>

lemma insert_member_Inr [tx_simps]:
  "insert_member r s = Inr (u, s') \<longleftrightarrow>
     (\<forall>m \<in> set (teamMembers s). \<not> (tm_eventId m = tm_eventId r \<and> tm_email m = tm_email r)) \<and>
     s' = s\<lparr>teamMembers := teamMembers s @ [r]\<rparr>"
  by (auto simp: insert_member_def)

text \<open>One row per event and email, which makes the lookups of the services unambiguous.\<close>

definition roster_ok :: "db \<Rightarrow> bool" where
  "roster_ok s \<longleftrightarrow> distinct (map (\<lambda>m. (tm_eventId m, tm_email m)) (teamMembers s))"

lemma distinct_filter_map: "distinct (map f xs) \<Longrightarrow> distinct (map f (filter p xs))"
  by (induction xs) auto

lemma team_add_roster: "keepsR (\<lambda>w. roster_ok (w_db w)) (team_add now ev u email role)"
proof -
  have ins: "keepsT roster_ok (bindT fresh_id (\<lambda>i. bindT (insert_member (m i)) (\<lambda>_. returnT (v i))))"
    for m :: "id \<Rightarrow> team_member" and v :: "id \<Rightarrow> member_view"
    by (auto simp: keepsT_def tx_simps roster_ok_def)
  show ?thesis
    unfolding team_add_def Let_def
    by (intro keeps ins commit_keeps | clarsimp split del: if_split)+
qed

lemma changeRole_roster: "keepsR (\<lambda>w. roster_ok (w_db w)) (changeRole ev u i role)"
  unfolding changeRole_def Let_def
  by (intro keeps commit_keeps) (auto simp: keepsT_def roster_ok_def split: option.splits)

lemma team_remove_roster: "keepsR (\<lambda>w. roster_ok (w_db w)) (team_remove ev u i)"
  unfolding team_remove_def Let_def
  by (intro keeps commit_keeps)
    (auto simp: keepsT_def roster_ok_def delete_where_def intro: distinct_filter_map)

section \<open>Properties\<close>

lemma membershipRole_remove:
  assumes "\<forall>m' \<in> set (teamMembers s). tm_eventId m' = e \<and> tm_userId m' = Some u \<longrightarrow> \<not> gone m'"
  shows "membershipRole e u (s\<lparr>teamMembers := delete_where gone (teamMembers s)\<rparr>) = membershipRole e u s"
proof -
  have "List.find p (delete_where gone ms) = List.find p ms" if "\<forall>m \<in> set ms. p m \<longrightarrow> \<not> gone m"
    for p and ms :: "team_member list"
    using that by (induction ms) (auto simp: delete_where_def)
  from this [of "teamMembers s" "\<lambda>m. tm_eventId m = e \<and> tm_userId m = Some u"] assms
  show ?thesis by (simp add: membershipRole_def)
qed

lemma find_event_team [simp]: "find_event e (s\<lparr>teamMembers := ms\<rparr>) = find_event e s"
  by (simp add: find_event_def)

lemma team_remove_db:
  assumes "team_remove ev owner i w = (Inr (), w')"
  shows "w_db w' = (w_db w)\<lparr>teamMembers := delete_where (\<lambda>m. tm_id m = i \<and> tm_eventId m = ev) (teamMembers (w_db w))\<rparr>"
    and "effective_role (w_db w) ev owner = Some Owner"
proof -
  obtain x where x: "requireEventRole ev owner Owner (w_db w) = Inr x"
    using assms by (cases "requireEventRole ev owner Owner (w_db w)") (auto simp: team_remove_def handler_defs)
  show "w_db w' = (w_db w)\<lparr>teamMembers := delete_where (\<lambda>m. tm_id m = i \<and> tm_eventId m = ev) (teamMembers (w_db w))\<rparr>"
    using assms x by (auto simp: team_remove_def handler_defs Let_def split: if_splits)
  from event_gate.passes_iff [of ev owner Owner "w_db w"] x
  obtain r where "effective_role (w_db w) ev owner = Some r" "Owner \<le> r" by blast
  thus "effective_role (w_db w) ev owner = Some Owner" by (metis Owner_greatest antisym)
qed

text \<open>
  C28: Removing a member takes effect with the next request: once the owner's removal has
  returned, every guarded operation on that event answers the removed user with the same 404 a
  stranger gets, whatever role it asks for, and nobody else's access to any event changes.
\<close>

theorem removed_member_locked_out:
  assumes "team_remove ev owner i w = (Inr (), w')"
    and "m \<in> set (teamMembers (w_db w))" and "tm_id m = i" and "tm_eventId m = ev" and "tm_userId m = Some u"
    and "\<forall>m' \<in> set (teamMembers (w_db w)). (tm_eventId m' = ev \<and> tm_userId m' = Some u \<or> tm_id m' = i) \<longrightarrow> m' = m"
    and "map_option ev_organizerId (find_event ev (w_db w)) \<noteq> Some u"
  shows "requireEventRole ev u r (w_db w') = Inl (Not_found Event_not_found) \<and>
    ((e, v) \<noteq> (ev, u) \<longrightarrow> requireEventRole e v r (w_db w') = requireEventRole e v r (w_db w))"
proof -
  let ?gone = "\<lambda>m. tm_id m = i \<and> tm_eventId m = ev"
  note db = team_remove_db [OF assms(1)]
  have none: "membershipRole ev u (w_db w') = None"
    using assms(3-6)
    by (auto simp: db(1) membershipRole_def delete_where_def find_None_iff)
  hence "effective_role (w_db w') ev u = None"
    using assms(7) by (auto simp: effective_role_def db(1) split: option.splits)
  moreover have "membershipRole e v (w_db w') = membershipRole e v (w_db w)" if other: "(e, v) \<noteq> (ev, u)"
    unfolding db(1)
  proof (rule membershipRole_remove, intro ballI impI notI)
    fix m' assume "m' \<in> set (teamMembers (w_db w))" and own: "tm_eventId m' = e \<and> tm_userId m' = Some v"
      and "?gone m'"
    with assms(6) have "m' = m" by blast
    with own other assms(4,5) show False by simp
  qed
  hence "effective_role (w_db w') e v = effective_role (w_db w) e v" if "(e, v) \<noteq> (ev, u)"
    using that by (simp add: effective_role_def db(1) split: option.splits)
  ultimately show ?thesis by (simp add: event_gate.gate_eq db(1) split: option.split)
qed

theorem removed_member_locked_out_witness:
  "requireEventRole 1 6 Staff (w_db (snd (team_remove 1 2 8 (demo_world demo_db)))) = Inl (Not_found Event_not_found) \<and>
    requireEventRole 1 7 Staff (w_db (snd (team_remove 1 2 8 (demo_world demo_db)))) =
      requireEventRole 1 7 Staff (w_db (demo_world demo_db))"
proof -
  have run: "team_remove 1 2 8 (demo_world demo_db) = (Inr (), snd (team_remove 1 2 8 (demo_world demo_db)))"
    by (simp add: team_remove_def handler_defs requireEventRole_def resolveRole_def find_event_def demo_defs)
  have "requireEventRole 1 6 Staff (w_db (snd (team_remove 1 2 8 (demo_world demo_db)))) = Inl (Not_found Event_not_found) \<and>
    ((1::id, 7::id) \<noteq> (1, 6) \<longrightarrow> requireEventRole 1 7 Staff (w_db (snd (team_remove 1 2 8 (demo_world demo_db)))) =
      requireEventRole 1 7 Staff (w_db (demo_world demo_db)))"
    by (rule removed_member_locked_out [OF run, where m = "demo_member 8 6 ''manager@x'' M_manager"])
      (auto simp: demo_defs find_event_def)
  thus ?thesis by simp
qed

end
