(* ===== verification/Api.thy ===== *)
theory Api
  imports Refunds Payments Seatmaps Dashboard Auth Gateway Team
begin

text \<open>
  The HTTP and GraphQL surface: the controllers and the resolver under \<^verbatim>\<open>apps/api/src\<close>, with the
  guards and the validation NestJS runs before a handler (\<^verbatim>\<open>main.ts\<close>), in its order: guards, pipe,
  handler. What a request finds outside the database (clocks, random text, the answers of the
  payment provider, digests, the e-mail check) is a record; the user of a request is the one
  passport has read from a valid token.
\<close>

record surroundings =
  env_clock :: clock
  env_holdTtl :: "millis option"
  env_crypto :: crypto
  env_random :: string
  env_intent :: "intent http_answer"
  env_refund :: "string http_answer"
  env_collate :: "string \<Rightarrow> nat"
  env_isEmail :: "string \<Rightarrow> bool"
  env_tokenHmac :: "string \<Rightarrow> string \<Rightarrow> string"
  env_tokenClaims :: "string \<Rightarrow> admission_claims option"
  env_gateSecret :: string

record request =
  rq_user :: "id option"
  rq_holdKey :: "string option"
  rq_idempotencyKey :: "string option"
  rq_admission :: "string option"
  rq_cookie :: "string option"

datatype response =
    No_content
  | Order_body order
  | Tickets_body "ticket list"
  | Hold_body "id \<times> millis"
  | Holds_body "(id \<times> millis) list"
  | Refund_body "refund \<times> id list"
  | Event_body public_event
  | My_events_body "(public_event \<times> nat) list"
  | Ticket_type_body ticket_type
  | New_map_body "seat_map \<times> nat"
  | Map_body "seat_map \<times> ticket_type list \<times> seat_view list"
  | Scan_body checkin_result
  | Csv_body string
  | Members_body "member_view list"
  | Member_body member_view
  | Cards_body "event_card list"
  | Dashboard_body event_dashboard
  | Summary_body "event_row \<times> nat \<times> nat \<times> role"
  | Attendees_body "attendee list"
  | Order_rows_body "order_row list"
  | Session_body "public_user \<times> auth_tokens"
  | Profile_body public_user

section \<open>Guards and validation\<close>

definition answerR :: "('a \<Rightarrow> response) \<Rightarrow> 'a handler \<Rightarrow> response handler" where
  "answerR f m = bindR m (\<lambda>a. returnR (f a))"

text \<open>\<^verbatim>\<open>JwtAuthGuard\<close>; the optional guard lets a request without a user pass.\<close>

definition jwtAuthGuard :: "request \<Rightarrow> id handler" where
  "jwtAuthGuard rq = someR (Unauthorized Not_authenticated) (rq_user rq)"

definition admissionGuard :: "surroundings \<Rightarrow> request \<Rightarrow> id \<Rightarrow> unit handler" where
  "admissionGuard env rq ev = askR (canActivate (env_tokenHmac env) (env_tokenClaims env)
     (env_gateSecret env) (rq_admission rq) (Some ev) (app_now (env_clock env)))"

definition validationPipe :: "bool \<Rightarrow> unit handler" where
  "validationPipe ok = guardR ok (Bad_request Invalid_dto)"

text \<open>The DTOs that have no theory of their own.\<close>

definition valid_event_update :: "update_event_dto \<Rightarrow> bool" where
  "valid_event_update d \<longleftrightarrow>
     (case ue_title d of None \<Rightarrow> True | Some x \<Rightarrow> 3 \<le> length x \<and> length x \<le> 120) \<and>
     (case ue_description d of None \<Rightarrow> True | Some x \<Rightarrow> length x \<le> 5000) \<and>
     (case ue_venueName d of None \<Rightarrow> True | Some x \<Rightarrow> 1 \<le> length x \<and> length x \<le> 160)"

definition valid_login :: "(string \<Rightarrow> bool) \<Rightarrow> string \<Rightarrow> string \<Rightarrow> bool" where
  "valid_login is_email email password \<longleftrightarrow> is_email email \<and> length password \<le> 72"

section \<open>Controllers\<close>

datatype team_route =
    Team_list | Team_add string member_role | Team_change id member_role | Team_delete id

fun teamController :: "surroundings \<Rightarrow> id \<Rightarrow> id \<Rightarrow> team_route \<Rightarrow> response handler" where
  "teamController env ev u Team_list = answerR Members_body (askR (team_list ev u))"
| "teamController env ev u (Team_add email role) =
     bindR (validationPipe (env_isEmail env email)) (\<lambda>_.
     answerR Member_body (team_add (app_now (env_clock env)) ev u email role))"
| "teamController env ev u (Team_change memberId role) =
     answerR Member_body (changeRole ev u memberId role)"
| "teamController env ev u (Team_delete memberId) = answerR (\<lambda>_. No_content) (team_remove ev u memberId)"

datatype event_route =
    Event_create create_event_dto
  | Event_mine
  | Event_update id update_event_dto
  | Event_publish id
  | Type_add id ticket_type_dto
  | Type_update id id update_ticket_type_dto

fun eventsController :: "surroundings \<Rightarrow> id \<Rightarrow> event_route \<Rightarrow> response handler" where
  "eventsController env u (Event_create d) =
     bindR (validationPipe (valid_event_dto d)) (\<lambda>_.
     answerR Event_body (create_event (db_now (env_clock env)) (env_random env) u d))"
| "eventsController env u Event_mine = answerR My_events_body (queryR (listMyEvents u))"
| "eventsController env u (Event_update i d) =
     bindR (validationPipe (valid_event_update d)) (\<lambda>_. answerR Event_body (update_event i u d))"
| "eventsController env u (Event_publish i) = answerR Event_body (publish i u)"
| "eventsController env u (Type_add i d) =
     bindR (validationPipe (valid_ticket_type d)) (\<lambda>_.
     answerR Ticket_type_body (addTicketType (db_now (env_clock env)) i u d))"
| "eventsController env u (Type_update i tid d) =
     bindR (validationPipe (valid_ticket_type_update d)) (\<lambda>_.
     answerR Ticket_type_body (updateTicketType i tid u d))"

text \<open>\<^verbatim>\<open>idempotencyKey?.slice(0, 120) ?? null\<close>.\<close>

definition order_params :: "request \<Rightarrow> id \<Rightarrow> create_params" where
  "order_params rq ev = \<lparr>cp_eventId = ev, cp_buyerUserId = rq_user rq,
     cp_idempotencyKey = map_option (take 120) (rq_idempotencyKey rq), cp_holderKey = rq_holdKey rq\<rparr>"

datatype order_route =
    Order_create id create_order_dto
  | Order_get id "id option"
  | My_tickets

fun ordersController :: "surroundings \<Rightarrow> request \<Rightarrow> order_route \<Rightarrow> response handler" where
  "ordersController env rq (Order_create ev d) =
     bindR (admissionGuard env rq ev) (\<lambda>_.
     bindR (validationPipe (valid_order_dto (env_isEmail env) d)) (\<lambda>_.
     answerR (\<lambda>(r, replayed). Order_body r) (create (env_clock env) (env_intent env) d (order_params rq ev))))"
| "ordersController env rq (Order_get i token) =
     answerR Order_body (askR (getById i (rq_user rq) token))"
| "ordersController env rq My_tickets =
     bindR (jwtAuthGuard rq) (\<lambda>u. answerR Tickets_body (queryR (listMyTickets u)))"

datatype checkin_route = Checkin_scan id | Attendees_csv

fun checkinController :: "surroundings \<Rightarrow> id \<Rightarrow> id \<Rightarrow> checkin_route \<Rightarrow> response handler" where
  "checkinController env ev u (Checkin_scan qr) =
     answerR Scan_body (checkIn (app_now (env_clock env)) ev u qr)"
| "checkinController env ev u Attendees_csv =
     answerR Csv_body (askR (attendeesCsv (env_collate env) ev u))"

datatype refund_route = Refund_create id id "id list" | Refund_retry id

fun refundsController :: "surroundings \<Rightarrow> request \<Rightarrow> id \<Rightarrow> refund_route \<Rightarrow> response handler" where
  "refundsController env rq u (Refund_create ev ord xs) =
     bindR (validationPipe (valid_refund_dto xs)) (\<lambda>_.
     answerR (\<lambda>(v, replayed). Refund_body v) (create_refund (env_clock env) (env_refund env)
       (refund_request ev ord xs u (rq_idempotencyKey rq))))"
| "refundsController env rq u (Refund_retry rid) =
     answerR Refund_body (retry (env_refund env) rid u)"

datatype hold_route = Hold_acquire id | Holds_mine | Hold_release id

fun holdsController :: "surroundings \<Rightarrow> request \<Rightarrow> id \<Rightarrow> hold_route \<Rightarrow> response handler" where
  "holdsController env rq ev (Hold_acquire seat) =
     bindR (admissionGuard env rq ev) (\<lambda>_.
     bindR (askR (\<lambda>_. requireHolderKey (rq_holdKey rq))) (\<lambda>key.
     answerR Hold_body (acquire (env_clock env) (holdTtlMs (env_holdTtl env)) ev seat key)))"
| "holdsController env rq ev Holds_mine =
     bindR (askR (\<lambda>_. requireHolderKey (rq_holdKey rq))) (\<lambda>key.
     answerR Holds_body (queryR (listMine (app_now (env_clock env)) ev key)))"
| "holdsController env rq ev (Hold_release seat) =
     bindR (askR (\<lambda>_. requireHolderKey (rq_holdKey rq))) (\<lambda>key.
     answerR (\<lambda>_. No_content) (release ev seat key))"

datatype map_route = Map_create "section_dto list" | Map_get

fun seatmapsController :: "surroundings \<Rightarrow> request \<Rightarrow> id \<Rightarrow> map_route \<Rightarrow> response handler" where
  "seatmapsController env rq ev (Map_create ds) =
     bindR (jwtAuthGuard rq) (\<lambda>u.
     bindR (validationPipe (valid_map_dto ds)) (\<lambda>_.
     answerR New_map_body (create_map (db_now (env_clock env)) ev u ds)))"
| "seatmapsController env rq ev Map_get =
     bindR (admissionGuard env rq ev) (\<lambda>_.
     answerR Map_body (askR (getForEvent (app_now (env_clock env)) ev (rq_holdKey rq))))"

datatype dashboard_query =
    Organizer_events | Event_dashboard id | Event_summary id | Event_attendees id int | Event_orders id int

fun dashboardResolver :: "surroundings \<Rightarrow> id \<Rightarrow> dashboard_query \<Rightarrow> response handler" where
  "dashboardResolver env u Organizer_events = answerR Cards_body (queryR (organizerEvents u))"
| "dashboardResolver env u (Event_dashboard ev) =
     answerR Dashboard_body (askR (eventDashboard (app_now (env_clock env)) ev u))"
| "dashboardResolver env u (Event_summary ev) = answerR Summary_body (askR (eventSummary ev u))"
| "dashboardResolver env u (Event_attendees ev n) = answerR Attendees_body (askR (eventAttendees ev u n))"
| "dashboardResolver env u (Event_orders ev n) = answerR Order_rows_body (askR (eventOrders ev u n))"

datatype auth_route =
    Auth_register register_dto
  | Auth_login string string
  | Auth_google string
  | Auth_refresh
  | Auth_logout
  | Auth_me

fun authController :: "surroundings \<Rightarrow> request \<Rightarrow> auth_route \<Rightarrow> response handler" where
  "authController env rq (Auth_register d) =
     bindR (validationPipe (valid_register (env_isEmail env) d)) (\<lambda>_.
     answerR Session_body (register (env_crypto env) (app_now (env_clock env)) (env_random env) d))"
| "authController env rq (Auth_login email password) =
     bindR (validationPipe (valid_login (env_isEmail env) email password)) (\<lambda>_.
     answerR Session_body (login (env_crypto env) (app_now (env_clock env)) (env_random env) email password))"
| "authController env rq (Auth_google credential) =
     bindR (validationPipe (credential \<noteq> [])) (\<lambda>_.
     answerR Session_body (loginWithGoogle (env_crypto env) (app_now (env_clock env)) (env_random env) credential))"
| "authController env rq Auth_refresh = answerR Session_body
     (refresh_request (env_crypto env) (app_now (env_clock env)) (env_random env) (rq_cookie rq))"
| "authController env rq Auth_logout = answerR (\<lambda>_. No_content)
     (logout (env_crypto env) (app_now (env_clock env)) (rq_cookie rq))"
| "authController env rq Auth_me =
     bindR (jwtAuthGuard rq) (\<lambda>u. answerR Profile_body (askR (getProfile u)))"

text \<open>\<^verbatim>\<open>demo/demo.service.ts\<close> and its controller.\<close>

datatype demo_role = Demo_buyer | Demo_organizer | Demo_staff

fun DEMO_EMAILS :: "demo_role \<Rightarrow> string" where
  "DEMO_EMAILS Demo_buyer = ''demo-buyer@openseat.dev''"
| "DEMO_EMAILS Demo_organizer = ''demo-organizer@openseat.dev''"
| "DEMO_EMAILS Demo_staff = ''demo-staff@openseat.dev''"

definition loginAs :: "surroundings \<Rightarrow> demo_role \<Rightarrow> (public_user \<times> auth_tokens) handler" where
  "loginAs env role =
     bindR (queryR (\<lambda>s. List.find (\<lambda>u. u_email u = DEMO_EMAILS role \<and> u_isDemo u) (users s))) (\<lambda>found.
     bindR (someR Demo_not_seeded found) (\<lambda>u.
     session (env_crypto env) (app_now (env_clock env)) (env_random env) u))"

section \<open>The router\<close>

datatype route =
    Team_routes id team_route
  | Event_routes event_route
  | Event_by_slug string
  | Order_routes order_route
  | Checkin_routes id checkin_route
  | Refund_routes refund_route
  | Hold_routes id hold_route
  | Map_routes id map_route
  | Dashboard_queries dashboard_query
  | Auth_routes auth_route
  | Demo_login demo_role

fun api :: "surroundings \<Rightarrow> request \<Rightarrow> route \<Rightarrow> response handler" where
  "api env rq (Team_routes ev r) = bindR (jwtAuthGuard rq) (\<lambda>u. teamController env ev u r)"
| "api env rq (Event_routes r) = bindR (jwtAuthGuard rq) (\<lambda>u. eventsController env u r)"
| "api env rq (Event_by_slug slug) = answerR Event_body (askR (getBySlug slug (rq_user rq)))"
| "api env rq (Order_routes r) = ordersController env rq r"
| "api env rq (Checkin_routes ev r) = bindR (jwtAuthGuard rq) (\<lambda>u. checkinController env ev u r)"
| "api env rq (Refund_routes r) = bindR (jwtAuthGuard rq) (\<lambda>u. refundsController env rq u r)"
| "api env rq (Hold_routes ev r) = holdsController env rq ev r"
| "api env rq (Map_routes ev r) = seatmapsController env rq ev r"
| "api env rq (Dashboard_queries q) = bindR (jwtAuthGuard rq) (\<lambda>u. dashboardResolver env u q)"
| "api env rq (Auth_routes r) = authController env rq r"
| "api env rq (Demo_login role) = answerR Session_body (loginAs env role)"

end
