(* ===== verification/Writes.thy ===== *)
theory Writes
  imports Payments Checkin Events Seatmaps
begin

text \<open>
  How the transactions may change a row, as interfaces. A predicate that survives each kind of
  write the transactions are made of survives every transaction: a \<open>quiet_invariant\<close> survives
  the transactions that have nothing to do with refunds, a \<open>settle_invariant\<close> also the booking
  and the status of refunds, a \<open>void_invariant\<close> the voiding of tickets, a \<open>write_invariant\<close> all
  transactions. The life cycles of orders, tickets and refunds, the log of provider events and the
  ledger of refunds are read off them.
\<close>

lemma bindT_fresh: "bindT fresh_id f s = f (next_id s) (s\<lparr>next_id := Suc (next_id s)\<rparr>)"
  by (simp add: bindT_def fresh_id_def)

lemma bindT_refund_Inr:
  "bindT (insert_refund q) f s = Inr x \<longleftrightarrow>
     \<not> refund_key_taken (r_orderId q) (r_idempotencyKey q) s \<and> f () (s\<lparr>refunds := refunds s @ [q]\<rparr>) = Inr x"
  by (simp add: bindT_def insert_refund_def)

lemma refunds_next: "refunds (s\<lparr>next_id := n\<rparr>) = refunds s"
  by simp

lemma keepsT_write: "(\<And>s. P s \<Longrightarrow> P (f s)) \<Longrightarrow> keepsT P (writeT f)"
  by (auto simp: keepsT_def writeT_Inr)

fun order_next :: "order_status \<Rightarrow> order_status \<Rightarrow> bool" where
  "order_next Awaiting_payment st = True"
| "order_next Paid st = (st \<in> {Paid, Partially_refunded, Refunded})"
| "order_next Partially_refunded st = (st \<in> {Partially_refunded, Refunded})"
| "order_next Refunded st = (st = Refunded)"
| "order_next Expired st = (st = Expired)"
| "order_next Canceled st = (st = Canceled)"

lemma order_next_refl [simp]: "order_next st st"
  by (cases st) auto

lemma order_next_trans: "order_next a b \<Longrightarrow> order_next b c \<Longrightarrow> order_next a c"
  by (cases a; cases b) auto

fun ticket_next :: "ticket_status \<Rightarrow> ticket_status \<Rightarrow> bool" where
  "ticket_next Issued st = True"
| "ticket_next Checked_in st = (st = Checked_in)"
| "ticket_next Void st = (st = Void)"

fun refund_next :: "refund_status \<Rightarrow> refund_status \<Rightarrow> bool" where
  "refund_next R_succeeded st = (st = R_succeeded)"
| "refund_next R_pending st = True"
| "refund_next R_failed st = True"

lemma refund_next_refl [simp]: "refund_next st st"
  by (cases st) auto

definition order_edit :: "(order \<Rightarrow> bool) \<Rightarrow> (order \<Rightarrow> order) \<Rightarrow> bool" where
  "order_edit p f \<longleftrightarrow> (\<forall>r. p r \<longrightarrow>
     f r = r\<lparr>o_status := o_status (f r)\<rparr> \<and>
     order_next (o_status r) (o_status (f r)))"

definition ticket_edit :: "(ticket \<Rightarrow> bool) \<Rightarrow> (ticket \<Rightarrow> ticket) \<Rightarrow> bool" where
  "ticket_edit p f \<longleftrightarrow> (\<forall>k. p k \<longrightarrow>
     f k = k\<lparr>t_status := t_status (f k), t_refundId := t_refundId (f k), t_checkedInAt := t_checkedInAt (f k)\<rparr> \<and>
     t_status k = Issued \<and> t_status (f k) \<noteq> Issued)"

lemma ticket_edits: "ticket_edit (admissible i) (admit now)" "ticket_edit (voidable rp) (void_ticket rid)"
  by (simp_all add: ticket_edit_def admissible_def admit_def voidable_def void_ticket_def)

definition refund_edit :: "(refund \<Rightarrow> bool) \<Rightarrow> (refund \<Rightarrow> refund) \<Rightarrow> bool" where
  "refund_edit p f \<longleftrightarrow> (\<forall>r. p r \<longrightarrow>
     f r = r\<lparr>r_status := r_status (f r), r_providerRefundId := r_providerRefundId (f r),
            r_settledAt := r_settledAt (f r)\<rparr> \<and>
     refund_next (r_status r) (r_status (f r)))"

locale quiet_invariant =
  fixes P :: "db \<Rightarrow> bool"
  assumes next_write: "P s \<Longrightarrow> next_id s \<le> n \<Longrightarrow> P (s\<lparr>next_id := n\<rparr>)"
    and outbox_write: "P s \<Longrightarrow> P (s\<lparr>outboxEvents := es\<rparr>)"
    and hold_write: "P s \<Longrightarrow> P (s\<lparr>holds := hs\<rparr>)"
    and stock_write: "P s \<Longrightarrow> P (s\<lparr>ticketTypes := ts\<rparr>)"
    and map_write: "P s \<Longrightarrow> P (s\<lparr>seatMaps := ms\<rparr>)"
    and seat_write: "P s \<Longrightarrow> P (s\<lparr>seats := sts\<rparr>)"
    and payment_write: "P s \<Longrightarrow> P (s\<lparr>payments := ps\<rparr>)"
    and order_add: "P s \<Longrightarrow> o_id r = next_id s \<Longrightarrow> o_refundedSatang r = 0 \<Longrightarrow>
      P (s\<lparr>next_id := Suc (Suc (next_id s)), orders := orders s @ [r]\<rparr>)"
    and order_write: "P s \<Longrightarrow> order_edit oq og \<Longrightarrow> P (s\<lparr>orders := update_where oq og (orders s)\<rparr>)"
    and settle_write: "P s \<Longrightarrow> find_order i s = Some r \<Longrightarrow> order_next (o_status r) st \<Longrightarrow> P (set_status i st s)"
    and ticket_add: "P s \<Longrightarrow> t_id k = next_id s \<Longrightarrow> t_status k = Issued \<Longrightarrow>
      P (s\<lparr>next_id := Suc (Suc (next_id s)), tickets := tickets s @ [k]\<rparr>)"
    and admit_write: "P s \<Longrightarrow> P (s\<lparr>tickets := update_where (admissible i) (admit now) (tickets s)\<rparr>)"
begin

lemma keeps_fresh: "keepsT P fresh_id"
  by (auto simp: keepsT_def fresh_id_Inr intro: next_write)

lemma keeps_outbox: "keepsT P (writeInTx now pl)"
proof -
  have "P (s\<lparr>next_id := Suc (next_id s), outboxEvents := es\<rparr>)" if "P s" for s es
    using outbox_write [OF next_write [OF that, of "Suc (next_id s)"]] by simp
  then show ?thesis by (auto simp: keepsT_def writeInTx_Inr)
qed

lemma keeps_remaining: "keepsT P (add_remaining t x)"
  by (auto simp: keepsT_def add_remaining_Inr intro: stock_write)

lemma keeps_claim_ga: "keepsT P (claim_ga it)"
  by (auto simp: keepsT_def claim_ga_def Let_def intro: stock_write split: if_splits)

lemma keeps_issue: "keepsT P (issue_ticket now i ev email name sp)"
  by (auto simp: keepsT_def issue_ticket_def bindT_Inr fresh_id_Inr insert_ticket_Inr intro: ticket_add)

lemmas keeps_pieces = keeps_fresh keeps_outbox keeps_remaining keeps_claim_ga keeps_issue

lemma keeps_bind_holds: "keepsT P (bind_holds clk pl i)"
  unfolding bind_holds_def by (intro keeps keepsT_write hold_write)

lemma keeps_consume_holds: "keepsT P (consume_holds clk pl)"
  unfolding consume_holds_def by (intro keeps keeps_pieces keepsT_write hold_write)

lemma keeps_issue_free: "keepsT P (issue_free clk pl i)"
  unfolding issue_free_def by (intro keeps keeps_pieces)

lemma keeps_create: "keepsT P (create_tx clk pl)"
proof -
  let ?rest = "\<lambda>i. bindT (whenT (pl_seatIds pl \<noteq> [])
        (if requiresPayment pl then bind_holds clk pl i else consume_holds clk pl)) (\<lambda>_.
     bindT (whenT (\<not> requiresPayment pl) (issue_free clk pl i)) (\<lambda>_. returnT i))"
  have rest: "keepsT P (?rest i)" for i
    by (intro keeps keeps_issue_free | simp add: keeps_bind_holds keeps_consume_holds)+
  have claims: "keepsT P (for_eachT claim_ga (pl_ga pl))" by (intro keeps keeps_pieces)
  show ?thesis
  proof (unfold keepsT_def, intro allI impI)
    fix s j s' assume ok: "P s" and run: "create_tx clk pl s = Inr (j, s')"
    then obtain u s1 where s1: "for_eachT claim_ga (pl_ga pl) s = Inr (u, s1)"
      and more: "?rest (next_id s1) (s1\<lparr>next_id := Suc (Suc (next_id s1)),
        orders := orders s1 @ [new_order clk pl (next_id s1) (Suc (next_id s1))]\<rparr>) = Inr (j, s')"
      by (auto simp: create_tx_def bindT_Inr fresh_id_Inr insert_order_Inr)
    have "P s1" using keepsTD [OF claims ok s1] .
    then have "P (s1\<lparr>next_id := Suc (Suc (next_id s1)),
        orders := orders s1 @ [new_order clk pl (next_id s1) (Suc (next_id s1))]\<rparr>)"
      by (rule order_add) (simp_all add: new_order_def)
    with keepsTD [OF rest _ more] show "P s'" by blast
  qed
qed

lemma release_edit: "order_edit (claim_release i) (\<lambda>r. r\<lparr>o_status := st\<rparr>)"
  by (auto simp: order_edit_def claim_release_def)

lemma keeps_release: "keepsT P (releaseOrderInventoryInTx now i st)"
  unfolding releaseOrderInventoryInTx_def release_seats_def
  by (intro keeps keeps_pieces keepsT_write hold_write order_write release_edit
      | simp only: split: if_split | intro conjI impI)+

lemma keeps_fulfil: "keepsT P (fulfil_tx now r)"
  unfolding fulfil_tx_def
  by (intro keeps keeps_pieces keepsT_write hold_write | simp only: split: prod.split | intro allI impI)+

lemma keeps_set_payment: "keepsT P (writeT (set_payment i st))"
  by (intro keepsT_write) (simp add: set_payment_def payment_write)

lemma keeps_claim_paid: "keepsT P (writeT (claim_paid i))"
  by (intro keepsT_write) (simp add: claim_paid_def order_write release_edit)

lemma keeps_succeeded: "keepsT P (succeeded_tx now intent)"
  unfolding succeeded_tx_def
  by (intro keeps keeps_set_payment keeps_claim_paid keeps_fulfil
      | simp only: split: if_split option.split | intro conjI impI allI)+

lemma keeps_failed: "keepsT P (failed_tx now intent)"
  unfolding failed_tx_def
  by (intro keeps keeps_set_payment keeps_release
      | simp only: split: if_split option.split | intro conjI impI allI)+

lemma keeps_holds:
  "keepsT P (acquire_tx clk ev seat key x)" "keepsT P (refresh_tx i x)" "keepsT P (sweep_tx now)"
proof -
  have "P (s\<lparr>next_id := Suc (next_id s), holds := hs\<rparr>)" if "P s" for s hs
    using hold_write [OF next_write [OF that, of "Suc (next_id s)"]] by simp
  then show "keepsT P (acquire_tx clk ev seat key x)"
    by (auto simp: keepsT_def acquire_tx_Inr Let_def drop_expired_def split: if_splits)
  show "keepsT P (refresh_tx i x)" "keepsT P (sweep_tx now)"
    by (auto simp: keepsT_def refresh_tx_def sweep_tx_def Let_def intro: hold_write split: option.splits)
qed

lemma keeps_admit: "keepsT P (admit_tx now i)"
  using admit_write by (auto simp: keepsT_def admit_tx_def)

lemma keeps_type: "keepsT P (updateTicketType_tx ev tid d)" "keepsT P (insert_ticket_type now ev dt)"
proof -
  have "P (s\<lparr>next_id := Suc (next_id s), ticketTypes := ts\<rparr>)" if "P s" for s ts
    using stock_write [OF next_write [OF that, of "Suc (next_id s)"]] by simp
  then show "keepsT P (insert_ticket_type now ev dt)"
    by (auto simp: keepsT_def insert_ticket_type_def bindT_Inr fresh_id_Inr writeT_Inr)
  show "keepsT P (updateTicketType_tx ev tid d)"
    by (auto simp: keepsT_def updateTicketType_tx_def write_ticket_type_def tx_simps
        shift_remaining_def Let_def intro: stock_write split: sum.splits if_splits)
qed

lemma keeps_insert_seat: "keepsT P (insert_seat st)"
proof -
  have "P (s\<lparr>next_id := Suc (next_id s), seats := sts\<rparr>)" if "P s" for s sts
    using seat_write [OF next_write [OF that, of "Suc (next_id s)"]] by simp
  then show ?thesis by (auto simp: keepsT_def insert_seat_def bindT_Inr fresh_id_Inr split: if_splits)
qed

lemma keeps_create_map: "keepsT P (create_map_tx now ev ds)"
proof -
  have "keepsT P (insert_map m ev template)" for m template
    by (auto simp: keepsT_def insert_map_def intro: map_write split: if_splits)
  moreover have "keepsT P (create_section now ev m p)" for m p
    unfolding create_section_def
    by (intro keeps keeps_fresh keeps_insert_seat keepsT_write stock_write)
  ultimately show ?thesis
    unfolding create_map_tx_def Let_def by (intro keeps keeps_fresh keepsT_write map_write)
qed

text \<open>Once the amount is booked, the rest of a settlement is quiet.\<close>

lemma settle_tail:
  assumes run: "settleInTx now i x s = Inr (a, s')" and s1: "P (add_refunded i x s)"
  shows "P s'"
proof -
  from run obtain r where r: "find_order i s = Some r" by (auto simp: settleInTx_def tx_simps)
  let ?r = "r\<lparr>o_refundedSatang := o_refundedSatang r + x\<rparr>"
  let ?s = "(add_refunded i x s)\<lparr>next_id := Suc (next_id s), outboxEvents := outboxEvents s @
    [\<lparr>ob_id = next_id s, ob_payload = Order_refunded i x, ob_attempts = 0, ob_createdAt = now, ob_processedAt = None\<rparr>]\<rparr>"
  have w: "writeInTx now (Order_refunded i x) (add_refunded i x s) = Inr ((), ?s)"
    by (simp add: writeInTx_Inr add_refunded_def)
  have s2: "P ?s" using keepsTD [OF keeps_outbox s1 w] .
  have "find_order i (add_refunded i x s) = Some ?r"
    using r by (simp add: find_order_def add_refunded_def find_update_where) (auto dest: find_SomeD)
  then have found: "find_order i ?s = Some ?r" by (simp add: find_order_def)
  let ?st = "settled_status i ?s"
  have body: "settleInTx now i x s =
    (if o_status r \<notin> set REFUNDABLE_ORDER_STATUSES then Inr ((), ?s)
     else writeInTx now (Order_updated i ?st) (set_status i ?st ?s))"
    using r w by (simp add: settleInTx_def bindT_def readT_def someT_def writeT_def returnT_def)
  show "P s'"
  proof (cases "o_status r \<in> set REFUNDABLE_ORDER_STATUSES")
    case False
    with body run s2 show ?thesis by simp
  next
    case True
    then have "order_next (o_status ?r) ?st" by (auto simp: REFUNDABLE_ORDER_STATUSES_def settled_status_def)
    with settle_write [OF s2 found] have "P (set_status i ?st ?s)" by simp
    moreover have "writeInTx now (Order_updated i ?st) (set_status i ?st ?s) = Inr (a, s')"
      using body run True by simp
    ultimately show ?thesis by (rule keepsTD [OF keeps_outbox])
  qed
qed

end

text \<open>Booking a refund on its order, and the status of the refund.\<close>

locale settle_invariant = quiet_invariant +
  assumes refunded_write: "P s \<Longrightarrow> P (add_refunded i x s)"
    and refund_write: "P s \<Longrightarrow> refund_edit rq rg \<Longrightarrow> P (s\<lparr>refunds := update_where rq rg (refunds s)\<rparr>)"
begin

lemma keeps_settle: "keepsT P (settleInTx now i x)"
  unfolding keepsT_def using settle_tail refunded_write by blast

lemma settle_row_edit: "refund_edit (refund_in rid R_pending) (settle_row now prov)"
  by (simp add: refund_edit_def refund_in_def settle_row_def)

lemma keeps_refunded: "keepsT P (refunded_tx clk rid prov)"
  unfolding refunded_tx_def
  by (intro keeps keeps_settle keepsT_write refund_write settle_row_edit
      | simp only: split: if_split | intro conjI impI)+

lemma keeps_money_leg:
  "keepsT P (set_provider_refund rid prov)" "keepsT P (fail_refund rid)" "keepsT P (reopen_refund rid)"
proof -
  have edits: "refund_edit (\<lambda>r. r_id r = rid) (\<lambda>r. r\<lparr>r_providerRefundId := Some prov\<rparr>)"
    "refund_edit (refund_in rid R_pending) (\<lambda>r. r\<lparr>r_status := R_failed\<rparr>)"
    "refund_edit (refund_in rid R_failed) (\<lambda>r. r\<lparr>r_status := R_pending\<rparr>)"
    by (simp_all add: refund_edit_def refund_in_def)
  show "keepsT P (set_provider_refund rid prov)"
    using refund_write [OF _ edits(1)] by (auto simp: keepsT_def set_provider_refund_def split: option.splits)
  show "keepsT P (fail_refund rid)"
    unfolding fail_refund_def by (intro keepsT_write refund_write edits)
  show "keepsT P (reopen_refund rid)"
    using refund_write [OF _ edits(3)] by (auto simp: keepsT_def reopen_refund_def)
qed

end

text \<open>Voiding the tickets of a refund.\<close>

locale void_invariant = quiet_invariant +
  assumes void_write: "P s \<Longrightarrow>
    P (s\<lparr>tickets := update_where (voidable rp) (void_ticket rid) (tickets s)\<rparr>)"
begin

lemma keeps_void: "keepsT P (void_tickets rp rid)"
  unfolding void_tickets_def by (intro keeps keepsT_write void_write)

end

text \<open>The refund desk also adds rows to the refunds.\<close>

locale write_invariant = settle_invariant + void_invariant +
  assumes refund_add: "P s \<Longrightarrow> r_id q = next_id s \<Longrightarrow>
      P (s\<lparr>next_id := Suc (next_id s), refunds := refunds s @ [q]\<rparr>)"
begin

lemma keeps_refund_tx: "keepsT P (refund_tx clk rp)"
proof (unfold keepsT_def, intro allI impI)
  fix s a s' assume ok: "P s" and run: "refund_tx clk rp s = Inr (a, s')"
  let ?q = "new_refund clk rp (next_id s)"
  let ?rest = "bindT (void_tickets rp (next_id s)) (\<lambda>_.
     bindT (for_eachT (\<lambda>(tid, n). add_remaining tid n) (restored rp)) (\<lambda>_.
     bindT (announce_refund clk rp) (\<lambda>_. returnT (next_id s))))"
  have "keepsT P ?rest"
    unfolding announce_refund_def
    by (intro keeps keeps_void keeps_pieces keeps_settle
        | simp only: split: if_split prod.split | intro conjI impI allI)+
  moreover have "P (s\<lparr>next_id := Suc (next_id s), refunds := refunds s @ [?q]\<rparr>)"
    using ok by (rule refund_add) (simp add: new_refund_def)
  moreover have "?rest (s\<lparr>next_id := Suc (next_id s), refunds := refunds s @ [?q]\<rparr>) = Inr (a, s')"
    using run unfolding refund_tx_def bindT_fresh bindT_refund_Inr refunds_next by (elim conjE)
  ultimately show "P s'" by (rule keepsTD)
qed

lemma keeps_compensation: "keepsT P (compensation_tx clk i x)"
  by (auto simp: keepsT_def compensation_tx_def bindT_Inr fresh_id_Inr insert_refund_Inr returnT_Inr
      intro: refund_add)

end

section \<open>The log of provider events\<close>

interpretation webhook_log: write_invariant "\<lambda>s. webhookEvents s = W" for W
  by unfold_locales (simp_all add: set_status_def add_refunded_def)

end
