(* ===== verification/Inventory.thy ===== *)
theory Inventory
  imports Payments Events Seatmaps Checkin
begin

text \<open>
  Conservation of stock. For a ticket type, the unsold tickets, the live tickets and, for general
  admission, the tickets reserved by orders that await payment add up to its quantity. \<open>bal\<close> is
  the difference of the two sides; \<open>moves s s' d\<close> says that a piece of a transaction takes
  \<open>s\<close> to \<open>s'\<close>, keeps the identifiers and the kinds, and shifts the balance of type
  \<open>t\<close> by \<open>d t\<close>. Every transaction of the services is a chain of such pieces whose shifts
  add up to zero.
\<close>

section \<open>Measures\<close>

definition kind_of :: "id \<Rightarrow> db \<Rightarrow> ticket_kind option" where
  "kind_of t s = map_option tt_kind (find_ticket_type t s)"

definition awaiting :: "order \<Rightarrow> bool" where
  "awaiting r \<longleftrightarrow> o_status r = Awaiting_payment"

definition items_qty :: "id \<Rightarrow> order_item list \<Rightarrow> int" where
  "items_qty t its = sum_by (\<lambda>it. if i_ticketTypeId it = t then i_quantity it else 0) its"

definition awaiting_qty :: "id \<Rightarrow> order list \<Rightarrow> int" where
  "awaiting_qty t os = sum_by (\<lambda>r. if awaiting r then items_qty t (o_items r) else 0) os"

definition rem_of :: "id \<Rightarrow> ticket_type list \<Rightarrow> int" where
  "rem_of t ts = sum_by (\<lambda>tt. if tt_id tt = t then tt_remaining tt else 0) ts"

definition qty_of :: "id \<Rightarrow> ticket_type list \<Rightarrow> int" where
  "qty_of t ts = sum_by (\<lambda>tt. if tt_id tt = t then tt_quantity tt else 0) ts"

definition live_of :: "id \<Rightarrow> ticket list \<Rightarrow> int" where
  "live_of t ks = sum_by (\<lambda>k. if t_ticketTypeId k = t \<and> live k then 1 else 0) ks"

definition reserved :: "id \<Rightarrow> db \<Rightarrow> int" where
  "reserved t s = (if kind_of t s = Some Ga then awaiting_qty t (orders s) else 0)"

definition bal :: "id \<Rightarrow> db \<Rightarrow> int" where
  "bal t s = rem_of t (ticketTypes s) + live_of t (tickets s) + reserved t s - qty_of t (ticketTypes s)"

text \<open>Primary keys, and the check constraint on \<^verbatim>\<open>remaining\<close>.\<close>

definition ids_ok :: "db \<Rightarrow> bool" where
  "ids_ok s \<longleftrightarrow> distinct (map tt_id (ticketTypes s)) \<and> distinct (map o_id (orders s)) \<and>
     distinct (map t_id (tickets s)) \<and>
     (\<forall>x \<in> set (ticketTypes s). tt_id x < next_id s) \<and> (\<forall>x \<in> set (orders s). o_id x < next_id s) \<and>
     (\<forall>x \<in> set (tickets s). t_id x < next_id s) \<and>
     (\<forall>x \<in> set (ticketTypes s). 0 \<le> tt_remaining x)"

definition stock_balanced :: "db \<Rightarrow> bool" where
  "stock_balanced s \<longleftrightarrow> (\<forall>t. bal t s = 0)"

definition moves :: "db \<Rightarrow> db \<Rightarrow> (id \<Rightarrow> int) \<Rightarrow> bool" where
  "moves s s' d \<longleftrightarrow> ids_ok s \<longrightarrow> ids_ok s' \<and> next_id s \<le> next_id s' \<and> (\<forall>t. kind_of t s' = kind_of t s) \<and>
     (\<forall>t. bal t s' = bal t s + d t)"

named_theorems moves_rules "pieces of transactions and what they do to the balances"

lemma moves_refl: "moves s s (\<lambda>_. 0)"
  by (simp add: moves_def)

lemma moves_trans: "moves s s1 d \<Longrightarrow> moves s1 s2 e \<Longrightarrow> moves s s2 (\<lambda>t. d t + e t)"
  by (auto simp: moves_def)

lemma moves_cong: "moves s s' d \<Longrightarrow> (\<And>t. d t = e t) \<Longrightarrow> moves s s' e"
  by (simp add: moves_def)

lemma moves_same:
  assumes "ticketTypes s' = ticketTypes s" and "orders s' = orders s" and "tickets s' = tickets s"
    and "next_id s \<le> next_id s'"
  shows "moves s s' (\<lambda>_. 0)"
  using assms by (auto simp: moves_def ids_ok_def kind_of_def find_ticket_type_def bal_def reserved_def)

lemma moves_loop:
  assumes "\<And>x s s'. x \<in> set xs \<Longrightarrow> f x s = Inr ((), s') \<Longrightarrow> moves s s' (d x)"
    and "for_eachT f xs s = Inr (u, s')"
  shows "moves s s' (\<lambda>t. sum_by (\<lambda>x. d x t) xs)"
  using assms
proof (induction xs arbitrary: s)
  case Nil
  then show ?case by (simp add: moves_refl)
next
  case (Cons x xs)
  from Cons.prems(2) obtain v s1 where "f x s = Inr (v, s1)" "for_eachT f xs s1 = Inr (u, s')"
    by (auto simp only: for_eachT_Cons_Inr)
  with Cons.prems(1) [of x s s1] Cons.IH [of s1] Cons.prems(1)
  have "moves s s1 (d x)" "moves s1 s' (\<lambda>t. sum_by (\<lambda>x. d x t) xs)" by auto
  from moves_trans [OF this] show ?case by simp
qed

section \<open>Pieces\<close>

lemma bal_types:
  assumes "map (\<lambda>tt. (tt_id tt, tt_kind tt)) ts = map (\<lambda>tt. (tt_id tt, tt_kind tt)) (ticketTypes s)"
  shows "kind_of t (s\<lparr>ticketTypes := ts\<rparr>) = kind_of t s"
    and "bal t (s\<lparr>ticketTypes := ts\<rparr>) = bal t s + (rem_of t ts - rem_of t (ticketTypes s)) -
      (qty_of t ts - qty_of t (ticketTypes s))"
proof -
  have *: "map_option tt_kind (List.find (\<lambda>tt. tt_id tt = t) xs) =
      map_option snd (List.find (\<lambda>p. fst p = t) (map (\<lambda>tt. (tt_id tt, tt_kind tt)) xs))" for xs
    by (induction xs) auto
  show kind: "kind_of t (s\<lparr>ticketTypes := ts\<rparr>) = kind_of t s"
    by (simp add: kind_of_def find_ticket_type_def * assms)
  then show "bal t (s\<lparr>ticketTypes := ts\<rparr>) = bal t s + (rem_of t ts - rem_of t (ticketTypes s)) -
      (qty_of t ts - qty_of t (ticketTypes s))"
    by (simp add: bal_def reserved_def)
qed

text \<open>Shifting \<^verbatim>\<open>remaining\<close> of the one row with an id.\<close>

lemma moves_remaining:
  assumes "tt \<in> set (ticketTypes s)" and "p tt" and "\<And>q. p q \<Longrightarrow> tt_id q = tid"
    and "0 \<le> tt_remaining tt + x"
  shows "moves s (s\<lparr>ticketTypes := update_where p (\<lambda>q. q\<lparr>tt_remaining := tt_remaining q + x\<rparr>) (ticketTypes s)\<rparr>)
    (\<lambda>t. if t = tid then x else 0)"
proof (unfold moves_def, intro impI)
  assume ok: "ids_ok s"
  let ?f = "\<lambda>q. q\<lparr>tt_remaining := tt_remaining q + x\<rparr>"
  let ?ts = "update_where p ?f (ticketTypes s)"
  have one: "filter p (ticketTypes s) = [tt]"
    using ok assms(1-3) by (intro update_one [where k = tt_id]) (auto simp: ids_ok_def)
  have keys: "map (\<lambda>tt. (tt_id tt, tt_kind tt)) ?ts = map (\<lambda>tt. (tt_id tt, tt_kind tt)) (ticketTypes s)"
    by (rule map_update_where) simp
  have "rem_of t ?ts = rem_of t (ticketTypes s) + (if t = tid then x else 0)" for t
    using assms(2,3) by (auto simp: rem_of_def sum_by_update_where one)
  moreover have "qty_of t ?ts = qty_of t (ticketTypes s)" for t
    unfolding qty_of_def by (rule sum_by_update_same) simp
  moreover have "q = tt" if "q \<in> set (ticketTypes s)" "p q" for q
  proof -
    from that have "q \<in> set (filter p (ticketTypes s))" by simp
    then show ?thesis by (simp add: one)
  qed
  then have "\<forall>q \<in> set ?ts. 0 \<le> tt_remaining q"
    using ok assms(4) by (auto simp: row_simps ids_ok_def)
  ultimately show "ids_ok (s\<lparr>ticketTypes := ?ts\<rparr>) \<and> next_id s \<le> next_id (s\<lparr>ticketTypes := ?ts\<rparr>) \<and>
      (\<forall>t. kind_of t (s\<lparr>ticketTypes := ?ts\<rparr>) = kind_of t s) \<and>
      (\<forall>t. bal t (s\<lparr>ticketTypes := ?ts\<rparr>) = bal t s + (if t = tid then x else 0))"
    using ok bal_types [OF keys] by (auto simp: ids_ok_def row_simps)
qed

lemma moves_add_remaining [moves_rules]:
  assumes "add_remaining tid x s = Inr (u, s')"
  shows "moves s s' (\<lambda>t. if t = tid then x else 0)"
proof -
  from assms obtain tt where tt: "List.find (\<lambda>tt. tt_id tt = tid) (ticketTypes s) = Some tt"
      "0 \<le> tt_remaining tt + x"
      and s': "s' = s\<lparr>ticketTypes := update_where (\<lambda>tt. tt_id tt = tid)
        (\<lambda>tt. tt\<lparr>tt_remaining := tt_remaining tt + x\<rparr>) (ticketTypes s)\<rparr>"
    by (auto simp: tx_simps)
  with find_SomeD [OF tt(1)] show ?thesis unfolding s' by (intro moves_remaining) auto
qed

lemma moves_claim_ga [moves_rules]:
  assumes "claim_ga it s = Inr (u, s')"
  shows "moves s s' (\<lambda>t. - (if i_ticketTypeId it = t then i_quantity it else 0))"
proof -
  let ?hit = "\<lambda>tt. tt_id tt = i_ticketTypeId it \<and> tt_remaining tt \<ge> i_quantity it"
  from assms have "count_where ?hit (ticketTypes s) = 1"
      and s': "s' = s\<lparr>ticketTypes := update_where ?hit
        (\<lambda>tt. tt\<lparr>tt_remaining := tt_remaining tt - i_quantity it\<rparr>) (ticketTypes s)\<rparr>"
    by (auto simp: claim_ga_def Let_def split: if_splits)
  then have "0 < count_where ?hit (ticketTypes s)" by simp
  then obtain tt where tt: "tt \<in> set (ticketTypes s)" "?hit tt" unfolding count_where_pos by blast
  have "moves s (s\<lparr>ticketTypes := update_where ?hit
      (\<lambda>q. q\<lparr>tt_remaining := tt_remaining q + - i_quantity it\<rparr>) (ticketTypes s)\<rparr>)
      (\<lambda>t. if t = i_ticketTypeId it then - i_quantity it else 0)"
    using tt by (intro moves_remaining) auto
  then show ?thesis unfolding s' diff_conv_add_uminus by (rule moves_cong) simp
qed

lemma moves_shift_remaining:
  assumes "shift_remaining tid x s = Inr (u, s')"
  shows "moves s s' (\<lambda>t. if t = tid then x else 0)"
proof -
  let ?hit = "\<lambda>tt. tt_id tt = tid \<and> tt_remaining tt + x \<ge> 0"
  from assms have "count_where ?hit (ticketTypes s) = 1"
      and s': "s' = s\<lparr>ticketTypes := update_where ?hit
        (\<lambda>tt. tt\<lparr>tt_remaining := tt_remaining tt + x\<rparr>) (ticketTypes s)\<rparr>"
    by (auto simp: shift_remaining_def Let_def split: if_splits)
  then have "0 < count_where ?hit (ticketTypes s)" by simp
  then obtain tt where "tt \<in> set (ticketTypes s)" "?hit tt" unfolding count_where_pos by blast
  then show ?thesis unfolding s' by (intro moves_remaining) auto
qed

lemma moves_fresh_id [moves_rules]: "fresh_id s = Inr (i, s') \<Longrightarrow> moves s s' (\<lambda>_. 0)"
  by (auto simp: tx_simps intro: moves_same)

lemma moves_writeInTx [moves_rules]: "writeInTx now p s = Inr (u, s') \<Longrightarrow> moves s s' (\<lambda>_. 0)"
  by (auto simp: tx_simps intro: moves_same)

lemma moves_holds [moves_rules]: "moves s (s\<lparr>holds := hs\<rparr>) (\<lambda>_. 0)"
  by (rule moves_same) simp_all

lemma moves_when:
  "whenT b m s = Inr (u, s') \<Longrightarrow> (b \<Longrightarrow> m s = Inr (u, s') \<Longrightarrow> moves s s' (\<lambda>_. 0)) \<Longrightarrow> moves s s' (\<lambda>_. 0)"
  by (auto simp: tx_simps intro: moves_refl)

lemma kind_of_frame [simp]:
  "kind_of t (s\<lparr>tickets := ks\<rparr>) = kind_of t s" "kind_of t (s\<lparr>orders := os\<rparr>) = kind_of t s"
  "kind_of t (s\<lparr>next_id := n\<rparr>) = kind_of t s" "kind_of t (s\<lparr>holds := hs\<rparr>) = kind_of t s"
  "kind_of t (s\<lparr>refunds := rs\<rparr>) = kind_of t s" "kind_of t (s\<lparr>outboxEvents := es\<rparr>) = kind_of t s"
  "kind_of t (s\<lparr>payments := ps\<rparr>) = kind_of t s" "kind_of t (s\<lparr>events := evs\<rparr>) = kind_of t s"
  by (simp_all add: kind_of_def find_ticket_type_def)

lemma moves_issue_ticket [moves_rules]:
  assumes "issue_ticket now ord ev email name sp s = Inr (u, s')"
  shows "moves s s' (\<lambda>t. if fst sp = t then 1 else 0)"
  using assms
  by (auto simp: issue_ticket_def tx_simps moves_def ids_ok_def bal_def reserved_def live_of_def
      live_def less_Suc_eq)

lemma moves_new_order:
  assumes "o_id r = next_id s" and "\<not> awaiting r"
  shows "moves s (s\<lparr>next_id := Suc (next_id s), orders := orders s @ [r]\<rparr>) (\<lambda>_. 0)"
  using assms
  by (auto simp: moves_def ids_ok_def bal_def reserved_def awaiting_qty_def less_Suc_eq)

section \<open>Loops of the transactions\<close>

lemma moves_claims:
  "for_eachT claim_ga its s = Inr (u, s') \<Longrightarrow> moves s s' (\<lambda>t. - items_qty t its)"
  by (drule moves_loop [rotated, where d = "\<lambda>it t. - (if i_ticketTypeId it = t then i_quantity it else 0)"])
    (auto intro: moves_claim_ga elim!: moves_cong simp: items_qty_def sum_by_scale [of "- 1", simplified])

lemma sum_by_neg: "sum_by (\<lambda>x. - g x) xs = - sum_by g xs"
  using sum_by_scale [of "- 1" g xs] by simp

lemma moves_give_back:
  "for_eachT (\<lambda>it. add_remaining (i_ticketTypeId it) (i_quantity it)) its s = Inr (u, s') \<Longrightarrow>
     moves s s' (\<lambda>t. items_qty t its)"
  by (drule moves_loop [rotated, where d = "\<lambda>it t. if t = i_ticketTypeId it then i_quantity it else 0"])
    (auto intro: moves_add_remaining elim!: moves_cong simp: items_qty_def intro!: sum_by_cong)

lemma moves_take_groups:
  "for_eachT (\<lambda>g. add_remaining (i_ticketTypeId g) (- i_quantity g)) its s = Inr (u, s') \<Longrightarrow>
     moves s s' (\<lambda>t. - items_qty t its)"
  by (drule moves_loop [rotated, where d = "\<lambda>it t. if t = i_ticketTypeId it then - i_quantity it else 0"])
    (auto intro: moves_add_remaining elim!: moves_cong simp: items_qty_def sum_by_neg [symmetric]
      intro!: sum_by_cong)

definition specs_of :: "id \<Rightarrow> ticket_spec list \<Rightarrow> int" where
  "specs_of t sps = sum_by (\<lambda>sp. if fst sp = t then 1 else 0) sps"

lemma moves_issue:
  "for_eachT (issue_ticket now ord ev email name) sps s = Inr (u, s') \<Longrightarrow> moves s s' (\<lambda>t. specs_of t sps)"
  unfolding specs_of_def
  by (drule moves_loop [rotated, where d = "\<lambda>sp t. if fst sp = t then 1 else 0"])
    (auto intro: moves_issue_ticket)

definition seats_of :: "id \<Rightarrow> seat list \<Rightarrow> int" where
  "seats_of t sts = sum_by (\<lambda>st. if s_ticketTypeId st = t then 1 else 0) sts"

lemma moves_tally:
  "for_eachT (\<lambda>(tid, n). add_remaining tid (c * n)) (tally ks) s = Inr (u, s') \<Longrightarrow>
     moves s s' (\<lambda>t. c * sum_by (\<lambda>j. if j = t then 1 else 0) ks)"
proof (drule moves_loop [rotated, where d = "\<lambda>(tid, n) t. if t = tid then c * n else 0"])
  fix x s s' assume "(case x of (tid, n) \<Rightarrow> add_remaining tid (c * n)) s = Inr ((), s')"
  then show "moves s s' (case x of (tid, n) \<Rightarrow> \<lambda>t. if t = tid then c * n else 0)"
    by (cases x) (simp add: moves_add_remaining)
next
  assume m: "moves s s' (\<lambda>t. sum_by (\<lambda>x. (case x of (tid, n) \<Rightarrow> \<lambda>t. if t = tid then c * n else 0) t) (tally ks))"
  have "sum_by (\<lambda>x. (case x of (tid, n) \<Rightarrow> \<lambda>t. if t = tid then c * n else 0) t) (tally ks) =
      c * sum_by (\<lambda>j. if j = t then 1 else 0) ks" for t
  proof -
    have "sum_by (\<lambda>x. (case x of (tid, n) \<Rightarrow> \<lambda>t. if t = tid then c * n else 0) t) (tally ks) =
        c * sum_by (\<lambda>(j, n). if j = t then n else 0) (tally ks)"
      by (subst sum_by_scale [symmetric]) (rule sum_by_cong, auto)
    then show ?thesis by (simp add: sum_by_tally)
  qed
  with m show "moves s s' (\<lambda>t. c * sum_by (\<lambda>j. if j = t then 1 else 0) ks)"
    by (rule moves_cong)
qed

lemma specs_of_append [simp]: "specs_of t (xs @ ys) = specs_of t xs + specs_of t ys"
  by (simp add: specs_of_def)

lemma specs_of_ga: "(\<And>it. it \<in> set its \<Longrightarrow> 0 \<le> i_quantity it) \<Longrightarrow> specs_of t (ga_specs its) = items_qty t its"
  by (induction its) (auto simp: specs_of_def ga_specs_def items_qty_def sum_by_replicate)

lemma specs_of_seats: "specs_of t (seat_specs sts) = seats_of t sts"
  by (simp add: specs_of_def seat_specs_def seats_of_def sum_by_map)

lemma items_qty_append [simp]: "items_qty t (xs @ ys) = items_qty t xs + items_qty t ys"
  by (simp add: items_qty_def)

section \<open>Placing an order\<close>

text \<open>
  What a plan promises about the database its transaction will run in: general admission items
  and seat groups name ticket types of the right kind, and the groups count the seats. All of it
  is immutable, so a plan stays good however long the transaction is delayed.
\<close>

definition plan_ok :: "db \<Rightarrow> order_plan \<Rightarrow> bool" where
  "plan_ok s pl \<longleftrightarrow>
     (\<forall>it \<in> set (pl_ga pl). 0 \<le> i_quantity it \<and> kind_of (i_ticketTypeId it) s = Some Ga) \<and>
     (\<forall>g \<in> set (pl_groups pl). 0 \<le> i_quantity g \<and> kind_of (i_ticketTypeId g) s = Some Seated) \<and>
     (\<forall>t. items_qty t (pl_groups pl) = seats_of t (pl_seats pl)) \<and>
     length (pl_seats pl) = length (pl_seatIds pl)"

lemma movesI: "(ids_ok s \<Longrightarrow> moves s s' d) \<Longrightarrow> moves s s' d"
  by (simp add: moves_def)

lemma items_qty_kind:
  "\<forall>it \<in> set its. kind_of (i_ticketTypeId it) s = Some k \<Longrightarrow> kind_of t s \<noteq> Some k \<Longrightarrow> items_qty t its = 0"
  unfolding items_qty_def by (rule sum_by_zero) auto

lemma moves_insert_order:
  assumes "o_id r = next_id s"
  shows "moves s (s\<lparr>next_id := Suc (Suc (next_id s)), orders := orders s @ [r]\<rparr>)
    (\<lambda>t. if awaiting r \<and> kind_of t s = Some Ga then items_qty t (o_items r) else 0)"
  using assms
  by (auto simp: moves_def ids_ok_def bal_def reserved_def awaiting_qty_def less_SucI)

lemma moves_bind_holds: "bind_holds clk pl i s = Inr (u, s') \<Longrightarrow> moves s s' (\<lambda>_. 0)"
  by (auto simp: bind_holds_def tx_simps intro: moves_holds)

lemma moves_consume_holds:
  assumes "consume_holds clk pl s = Inr (u, s')"
  shows "moves s s' (\<lambda>t. - items_qty t (pl_groups pl))"
proof -
  from assms obtain s1 where "s1 = s\<lparr>holds := delete_where (my_live_hold clk pl) (holds s)\<rparr>"
      and "for_eachT (\<lambda>g. add_remaining (i_ticketTypeId g) (- i_quantity g)) (pl_groups pl) s1 = Inr (u, s')"
    by (auto simp: consume_holds_def tx_simps)
  then show ?thesis
    using moves_trans [OF moves_holds moves_take_groups] by (auto elim: moves_cong)
qed

lemma moves_issue_free:
  assumes "issue_free clk pl i s = Inr (u, s')"
  shows "moves s s' (\<lambda>t. specs_of t (ga_specs (pl_ga pl) @ seat_specs (pl_seats pl)))"
proof -
  from assms obtain u1 u2 s1 s2 where
    1: "for_eachT (issue_ticket (db_now clk) i (pl_eventId pl) (pl_buyerEmail pl) (pl_buyerName pl))
      (ga_specs (pl_ga pl) @ seat_specs (pl_seats pl)) s = Inr (u1, s1)"
    and 2: "writeInTx (db_now clk) (Ticket_issued i) s1 = Inr (u2, s2)"
    and 3: "whenT (pl_seatIds pl \<noteq> [])
      (writeInTx (db_now clk) (Seats_sold (pl_eventId pl) (pl_seatIds pl))) s2 = Inr (u, s')"
    unfolding issue_free_def bindT_Inr by blast
  from 3 have "moves s2 s' (\<lambda>_. 0)" by (rule moves_when) (rule moves_writeInTx)
  with moves_trans [OF moves_issue [OF 1] moves_writeInTx [OF 2]] show ?thesis
    using moves_trans by fastforce
qed

lemma moves_free_holds:
  assumes plan: "plan_ok s pl" and run: "whenT (pl_seatIds pl \<noteq> []) (consume_holds clk pl) s2 = Inr (u, s3)"
  shows "moves s2 s3 (\<lambda>t. - items_qty t (pl_groups pl))"
proof (cases "pl_seatIds pl = []")
  case True
  with plan have "items_qty t (pl_groups pl) = 0" for t by (simp add: plan_ok_def seats_of_def)
  moreover have "s3 = s2" using run True by (simp add: whenT_def)
  ultimately show ?thesis by (simp add: moves_refl)
next
  case False
  with run have "consume_holds clk pl s2 = Inr (u, s3)" by (simp add: whenT_def)
  then show ?thesis by (rule moves_consume_holds)
qed

lemma create_tx_moves:
  assumes plan: "plan_ok s pl" and run: "create_tx clk pl s = Inr (i, s')"
  shows "moves s s' (\<lambda>_. 0)"
proof (rule movesI)
  assume ids: "ids_ok s"
  let ?its = "pl_ga pl @ pl_groups pl"
  from run obtain u s1 where c: "for_eachT claim_ga (pl_ga pl) s = Inr (u, s1)"
    by (auto simp: create_tx_def bindT_Inr)
  define r where "r = new_order clk pl (next_id s1) (Suc (next_id s1))"
  define s2 where "s2 = s1\<lparr>next_id := Suc (Suc (next_id s1)), orders := orders s1 @ [r]\<rparr>"
  have r: "o_id r = next_id s1" "awaiting r \<longleftrightarrow> requiresPayment pl" "o_items r = ?its"
    by (simp_all add: r_def new_order_def awaiting_def)
  from run c obtain u3 u4 s3 where
    h: "whenT (pl_seatIds pl \<noteq> [])
        (if requiresPayment pl then bind_holds clk pl (next_id s1) else consume_holds clk pl) s2 = Inr (u3, s3)"
    and t: "whenT (\<not> requiresPayment pl) (issue_free clk pl (next_id s1)) s3 = Inr (u4, s')"
    unfolding create_tx_def bindT_Inr fresh_id_Inr insert_order_Inr returnT_Inr r_def s2_def by auto
  have m1: "moves s s1 (\<lambda>t. - items_qty t (pl_ga pl))" using c by (rule moves_claims)
  with ids have kinds: "kind_of t s1 = kind_of t s" for t by (simp add: moves_def)
  have m2: "moves s1 s2 (\<lambda>t. if awaiting r \<and> kind_of t s = Some Ga then items_qty t ?its else 0)"
    unfolding s2_def using moves_insert_order [of r s1] r by (auto simp: kinds elim: moves_cong)
  show "moves s s' (\<lambda>_. 0)"
  proof (cases "requiresPayment pl")
    case True
    with h have m3: "moves s2 s3 (\<lambda>_. 0)" by (auto intro: moves_when moves_bind_holds)
    have "s' = s3" using t True by (simp add: whenT_def)
    with moves_trans [OF moves_trans [OF m1 m2] m3] have "moves s s' (\<lambda>t. - items_qty t (pl_ga pl) +
        (if awaiting r \<and> kind_of t s = Some Ga then items_qty t ?its else 0) + 0)" by blast
    then show ?thesis
      using plan r(2) True items_qty_kind [of "pl_ga pl" s Ga] items_qty_kind [of "pl_groups pl" s Seated]
      by (elim moves_cong) (auto simp: plan_ok_def)
  next
    case False
    let ?sps = "ga_specs (pl_ga pl) @ seat_specs (pl_seats pl)"
    from h False have m3: "moves s2 s3 (\<lambda>t. - items_qty t (pl_groups pl))"
      by (intro moves_free_holds [OF plan]) simp
    from t False have "moves s3 s' (\<lambda>t. specs_of t ?sps)"
      unfolding whenT_Inr by (blast intro: moves_issue_free)
    with moves_trans [OF moves_trans [OF m1 m2] m3] have
      "moves s s' (\<lambda>t. - items_qty t (pl_ga pl) +
        (if awaiting r \<and> kind_of t s = Some Ga then items_qty t ?its else 0) + - items_qty t (pl_groups pl) +
        specs_of t ?sps)"
      by (rule moves_trans)
    then show ?thesis
      using plan r(2) False by (elim moves_cong) (auto simp: plan_ok_def specs_of_ga specs_of_seats)
  qed
qed

section \<open>Releasing and fulfilling an order\<close>

lemma find_order_unique:
  "ids_ok s \<Longrightarrow> r \<in> set (orders s) \<Longrightarrow> find_order (o_id r) s = Some r"
  unfolding find_order_def by (rule find_key) (simp add: ids_ok_def)

text \<open>Taking an order out of \<open>Awaiting_payment\<close> frees what it had reserved.\<close>

lemma moves_claim_order:
  assumes "count_where (claim_release i) (orders s) \<noteq> 0" and "st \<noteq> Awaiting_payment"
    and "find_order i (s\<lparr>orders := update_where (claim_release i) (\<lambda>r. r\<lparr>o_status := st\<rparr>) (orders s)\<rparr>) = Some r"
  shows "moves s (s\<lparr>orders := update_where (claim_release i) (\<lambda>r. r\<lparr>o_status := st\<rparr>) (orders s)\<rparr>)
    (\<lambda>t. - (if kind_of t s = Some Ga then items_qty t (o_items r) else 0))"
proof (rule movesI)
  assume ids: "ids_ok s"
  let ?f = "\<lambda>r. r\<lparr>o_status := st\<rparr>"
  from assms(1) obtain q where q: "q \<in> set (orders s)" "claim_release i q" by (auto simp: row_simps)
  have one: "filter (claim_release i) (orders s) = [q]"
    using ids q by (intro update_one [where k = o_id]) (auto simp: ids_ok_def claim_release_def)
  have "find_order i s = Some q"
    using find_order_unique [OF ids q(1)] q(2) by (simp add: claim_release_def)
  with assms(3) q have items: "o_items r = o_items q"
    by (auto simp: find_order_def find_update_where)
  have "awaiting_qty t (update_where (claim_release i) ?f (orders s)) =
      awaiting_qty t (orders s) - items_qty t (o_items r)" for t
    using q(2) assms(2)
    by (simp add: awaiting_qty_def sum_by_update_where one items awaiting_def claim_release_def)
  moreover have "ids_ok (s\<lparr>orders := update_where (claim_release i) ?f (orders s)\<rparr>)"
    using ids by (auto simp: ids_ok_def row_simps)
  ultimately show "moves s (s\<lparr>orders := update_where (claim_release i) ?f (orders s)\<rparr>)
      (\<lambda>t. - (if kind_of t s = Some Ga then items_qty t (o_items r) else 0))"
    by (simp add: moves_def bal_def reserved_def)
qed

lemma items_qty_ga:
  "items_qty t (filter (is_ga_item s) its) = (if kind_of t s = Some Ga then items_qty t its else 0)"
  by (induction its) (auto simp: items_qty_def is_ga_item_def kind_of_def)

lemma is_ga_item_kind: "(\<And>t. kind_of t s' = kind_of t s) \<Longrightarrow> is_ga_item s' = is_ga_item s"
  by (auto simp: is_ga_item_def kind_of_def)

definition conserves :: "'a db_tx \<Rightarrow> bool" where
  "conserves m \<longleftrightarrow> (\<forall>s a s'. m s = Inr (a, s') \<longrightarrow> moves s s' (\<lambda>_. 0))"

lemma conservesD: "conserves m \<Longrightarrow> m s = Inr (a, s') \<Longrightarrow> moves s s' (\<lambda>_. 0)"
  by (auto simp: conserves_def)

named_theorems conserved "transactions that keep every balance"

lemma conserves_return [conserved]: "conserves (returnT a)"
  by (auto simp: conserves_def tx_simps moves_refl)

lemma conserves_read [conserved]: "conserves (readT f)"
  by (auto simp: conserves_def tx_simps moves_refl)

lemma conserves_guard [conserved]: "conserves (guardT b e)"
  by (auto simp: conserves_def tx_simps moves_refl)

lemma conserves_some [conserved]: "conserves (someT e x)"
  by (auto simp: conserves_def tx_simps moves_refl)

lemma conserves_when [conserved]: "(b \<Longrightarrow> conserves m) \<Longrightarrow> conserves (whenT b m)"
  by (auto simp: conserves_def tx_simps moves_refl)

lemma conserves_bind [conserved]:
  assumes "conserves m" and "\<And>a. conserves (f a)"
  shows "conserves (bindT m f)"
proof (unfold conserves_def, intro allI impI)
  fix s b s'' assume "bindT m f s = Inr (b, s'')"
  then obtain a s' where "m s = Inr (a, s')" "f a s' = Inr (b, s'')" by (auto simp only: bindT_Inr)
  with moves_trans [OF conservesD [OF assms(1)] conservesD [OF assms(2)]] show "moves s s'' (\<lambda>_. 0)"
    by fastforce
qed

lemma conserves_fresh [conserved]: "conserves fresh_id"
  by (auto simp: conserves_def intro: moves_fresh_id)

lemma conserves_outbox [conserved]: "conserves (writeInTx now p)"
  by (auto simp: conserves_def intro: moves_writeInTx)

lemma conserves_write:
  "(\<And>s. ticketTypes (f s) = ticketTypes s \<and> orders (f s) = orders s \<and> tickets (f s) = tickets s \<and>
     next_id s \<le> next_id (f s)) \<Longrightarrow> conserves (writeT f)"
  by (auto simp: conserves_def tx_simps intro: moves_same)

lemma release_moves:
  assumes st: "st \<noteq> Awaiting_payment"
  shows "conserves (releaseOrderInventoryInTx now i st)"
proof (unfold conserves_def, intro allI impI, rule movesI)
  fix s a s' assume run: "releaseOrderInventoryInTx now i st s = Inr (a, s')" and ids: "ids_ok s"
  let ?s1 = "s\<lparr>orders := update_where (claim_release i) (\<lambda>r. r\<lparr>o_status := st\<rparr>) (orders s)\<rparr>"
  show "moves s s' (\<lambda>_. 0)"
  proof (cases "count_where (claim_release i) (orders s) = 0")
    case True
    then have "update_where (claim_release i) (\<lambda>r. r\<lparr>o_status := st\<rparr>) (orders s) = orders s"
      by (intro update_where_id) (simp add: row_simps)
    with True run show ?thesis
      by (auto simp: releaseOrderInventoryInTx_def tx_simps moves_refl)
  next
    case False
    with run obtain r u s2 u' where r: "find_order i ?s1 = Some r"
      and g: "for_eachT (\<lambda>it. add_remaining (i_ticketTypeId it) (i_quantity it))
          (filter (is_ga_item ?s1) (o_items r)) ?s1 = Inr (u, s2)"
      and t: "release_seats now r st s2 = Inr (u', s')"
      by (auto simp: releaseOrderInventoryInTx_def bindT_Inr readT_Inr writeT_Inr someT_Inr returnT_Inr)
    have "moves s2 s' (\<lambda>_. 0)"
      by (rule conservesD [where m = "release_seats now r st", OF _ t])
        (unfold release_seats_def, intro conserved conserves_write, simp)
    with moves_trans [OF moves_trans [OF moves_claim_order [OF False st r] moves_give_back [OF g]]]
    have "moves s s' (\<lambda>t. - (if kind_of t s = Some Ga then items_qty t (o_items r) else 0) +
        items_qty t (filter (is_ga_item ?s1) (o_items r)) + 0)" by blast
    then show ?thesis by (rule moves_cong) (simp add: items_qty_ga)
  qed
qed

end
