(* ===== verification/Stock.thy ===== *)
theory Stock
  imports Inventory
begin

text \<open>
  The remaining transactions: what each does to the balances of the inventory theory, and from
  them the conservation of stock.
\<close>

section \<open>Payment webhooks\<close>

definition items_nonneg :: "db \<Rightarrow> bool" where
  "items_nonneg s \<longleftrightarrow> (\<forall>r \<in> set (orders s). \<forall>it \<in> set (o_items r). 0 \<le> i_quantity it)"

lemma is_ga_item_frame [simp]:
  "is_ga_item (s\<lparr>holds := hs\<rparr>) = is_ga_item s" "is_ga_item (s\<lparr>orders := os\<rparr>) = is_ga_item s"
  by (auto simp: fun_eq_iff is_ga_item_def find_ticket_type_def)

lemma items_nonneg_alt:
  "items_nonneg s \<longleftrightarrow> (\<forall>its \<in> set (map o_items (orders s)). \<forall>it \<in> set its. 0 \<le> i_quantity it)"
  by (simp add: items_nonneg_def)

lemma sum_by_seat_types:
  "sum_by (\<lambda>j. if j = t then 1 else 0) (map s_ticketTypeId sts) = seats_of t sts"
  by (simp add: sum_by_map seats_of_def)

lemma fulfil_moves:
  assumes run: "fulfil_tx now r s = Inr (u, s')" and nonneg: "\<forall>it \<in> set (o_items r). 0 \<le> i_quantity it"
  shows "moves s s' (\<lambda>t. if kind_of t s = Some Ga then items_qty t (o_items r) else 0)"
proof -
  let ?s1 = "s\<lparr>holds := delete_where (\<lambda>h. h_orderId h = Some (o_id r)) (holds s)\<rparr>"
  define seatIds where "seatIds = held_seat_ids (o_id r) s"
  define sts where "sts = filter (\<lambda>st. s_id st \<in> set seatIds) (seats s)"
  define ga where "ga = filter (is_ga_item s) (o_items r)"
  have ga1: "filter (is_ga_item ?s1) (o_items r) = ga"
    by (simp add: ga_def)
  from run obtain u1 s2 u2 s3 u4 s4 u5 s5 where
    a: "for_eachT (\<lambda>(tid, n). add_remaining tid (- n)) (tally (map s_ticketTypeId sts)) ?s1 = Inr (u1, s2)"
    and b: "for_eachT (issue_ticket now (o_id r) (o_eventId r) (o_buyerEmail r) (o_buyerName r))
        (ga_specs ga @ seat_specs sts) s2 = Inr (u2, s3)"
    and c: "writeInTx now (Ticket_issued (o_id r)) s3 = Inr (u4, s4)"
    and d: "writeInTx now (Order_updated (o_id r) Paid) s4 = Inr (u5, s5)"
    and e: "whenT (seatIds \<noteq> []) (writeInTx now (Seats_sold (o_eventId r) seatIds)) s5 = Inr (u, s')"
    unfolding fulfil_tx_def bindT_Inr readT_Inr writeT_Inr
    by (auto simp: ga1 seatIds_def sts_def ga_def)
  have a': "for_eachT (\<lambda>(tid, n). add_remaining tid (- 1 * n)) (tally (map s_ticketTypeId sts)) ?s1 = Inr (u1, s2)"
    using a by simp
  have "moves s5 s' (\<lambda>_. 0)" using e by (rule moves_when) (rule moves_writeInTx)
  with moves_trans [OF moves_trans [OF moves_trans [OF moves_trans [OF moves_holds
        moves_tally [OF a']] moves_issue [OF b]] moves_writeInTx [OF c]] moves_writeInTx [OF d]]
  have "moves s s' (\<lambda>t. 0 + - 1 * sum_by (\<lambda>j. if j = t then 1 else 0) (map s_ticketTypeId sts) +
      specs_of t (ga_specs ga @ seat_specs sts) + 0 + 0 + 0)" by (rule moves_trans)
  moreover have "specs_of t (ga_specs ga) = items_qty t ga" for t
    using nonneg by (intro specs_of_ga) (simp add: ga_def)
  ultimately show ?thesis
    by (elim moves_cong) (simp add: sum_by_seat_types specs_of_seats ga_def items_qty_ga del: map_map)
qed

lemma moves_set_payment: "moves s (set_payment intent st s) (\<lambda>_. 0)"
  by (rule moves_same) (simp_all add: set_payment_def)

lemma items_nonneg_frame [simp]:
  "items_nonneg (set_payment intent st s) = items_nonneg s"
  "items_nonneg (claim_paid i s) = items_nonneg s"
  by (simp_all add: items_nonneg_alt set_payment_def claim_paid_def del: set_map list.set_map)

lemma find_order_in: "find_order i s = Some r \<Longrightarrow> r \<in> set (orders s) \<and> o_id r = i"
  unfolding find_order_def by (rule find_SomeD)

lemma succeeded_moves:
  assumes run: "succeeded_tx now intent s = Inr (a, s')" and nonneg: "items_nonneg s"
  shows "moves s s' (\<lambda>_. 0)"
proof (cases "find_payment intent s")
  case None
  with run show ?thesis by (simp add: succeeded_tx_def tx_simps moves_refl)
next
  case (Some p)
  let ?s1 = "set_payment intent P_succeeded s"
  show ?thesis
  proof (cases "count_where (open_payment intent) (payments s) = 0")
    case True
    with run Some have "s' = ?s1" by (simp add: succeeded_tx_def tx_simps)
    then show ?thesis by (simp add: moves_set_payment)
  next
    case open1: False
    let ?i = "p_orderId p"
    have same: "orders ?s1 = orders s" by (simp add: set_payment_def)
    show ?thesis
    proof (cases "count_where (claim_release ?i) (orders s) = 0")
      case True
      then have "claim_paid ?i ?s1 = ?s1"
        using paid_claim.lost_claim_changes_nothing [OF True] by (simp add: claim_paid_def same)
      with run Some open1 True have "s' = ?s1"
        by (auto simp: succeeded_tx_def tx_simps same split: option.splits if_splits)
      then show ?thesis by (simp add: moves_set_payment)
    next
      case False
      with run Some open1 obtain r u where r: "find_order ?i (claim_paid ?i ?s1) = Some r"
        and f: "fulfil_tx now r (claim_paid ?i ?s1) = Inr (u, s')"
        by (auto simp: succeeded_tx_def tx_simps same)
      have "\<forall>it \<in> set (o_items r). 0 \<le> i_quantity it"
        using find_order_in [OF r] nonneg
        by (metis items_nonneg_def items_nonneg_frame)
      note last = fulfil_moves [OF f this]
      have "moves ?s1 (claim_paid ?i ?s1)
          (\<lambda>t. - (if kind_of t ?s1 = Some Ga then items_qty t (o_items r) else 0))"
        using False r unfolding claim_paid_def by (intro moves_claim_order) (simp_all add: same)
      from moves_trans [OF moves_trans [OF moves_set_payment this] last] show ?thesis
        by (rule moves_cong) (simp add: claim_paid_def)
    qed
  qed
qed

lemma conserves_failed: "conserves (failed_tx now intent)"
proof -
  have [conserved]: "conserves (writeT (set_payment intent P_failed))"
    by (rule conserves_write) (simp add: set_payment_def)
  show ?thesis
    unfolding failed_tx_def
    by (intro conserved release_moves | simp split: option.split add: conserved release_moves)+
qed

section \<open>Refunds\<close>

lemma conserves_insert_refund [conserved]: "conserves (insert_refund r)"
  by (auto simp: conserves_def tx_simps intro: moves_same)

text \<open>Order columns that play no part in the balance.\<close>

lemma moves_order_columns:
  assumes "\<And>r. o_id (f r) = o_id r \<and> o_items (f r) = o_items r"
    and "\<And>r. r \<in> set (orders s) \<Longrightarrow> p r \<Longrightarrow> awaiting (f r) = awaiting r"
  shows "moves s (s\<lparr>orders := update_where p f (orders s)\<rparr>) (\<lambda>_. 0)"
proof -
  have "map (\<lambda>r. if awaiting r then items_qty t (o_items r) else 0) (update_where p f os) =
      map (\<lambda>r. if awaiting r then items_qty t (o_items r) else 0) os"
    if "\<And>r. r \<in> set os \<Longrightarrow> p r \<Longrightarrow> awaiting (f r) = awaiting r" for t os
    using that by (induction os) (auto simp: assms(1))
  from this [OF assms(2)] have "awaiting_qty t (update_where p f (orders s)) = awaiting_qty t (orders s)" for t
    by (simp add: awaiting_qty_def sum_by_def)
  then show ?thesis
    using assms(1) by (auto simp: moves_def ids_ok_def bal_def reserved_def row_simps)
qed

lemma moves_add_refunded: "moves s (add_refunded i x s) (\<lambda>_. 0)"
  unfolding add_refunded_def by (rule moves_order_columns) (simp_all add: awaiting_def)

text \<open>\<^verbatim>\<open>settleInTx\<close> moves an order only between the refundable statuses and \<open>Refunded\<close>.\<close>

lemma settle_moves: "conserves (settleInTx now i x)"
proof (unfold conserves_def, intro allI impI, rule movesI)
  fix s a s' assume run: "settleInTx now i x s = Inr (a, s')" and ids: "ids_ok s"
  from run obtain r s1 u where r: "find_order i s = Some r"
    and s1: "writeInTx now (Order_refunded i x) (add_refunded i x s) = Inr (u, s1)"
    and rest: "(if o_status r \<notin> set REFUNDABLE_ORDER_STATUSES then returnT ()
      else bindT (readT (settled_status i)) (\<lambda>status. bindT (writeT (set_status i status)) (\<lambda>_.
        writeInTx now (Order_updated i status)))) s1 = Inr (a, s')"
    unfolding settleInTx_def bindT_Inr readT_Inr someT_Inr writeT_Inr by auto
  have m: "moves s s1 (\<lambda>_. 0)" using moves_trans [OF moves_add_refunded moves_writeInTx [OF s1]] by simp
  show "moves s s' (\<lambda>_. 0)"
  proof (cases "o_status r \<in> set REFUNDABLE_ORDER_STATUSES")
    case False
    with rest m show ?thesis by (simp add: returnT_Inr)
  next
    case True
    with rest have w: "writeInTx now (Order_updated i (settled_status i s1)) (set_status i (settled_status i s1) s1) = Inr (a, s')"
      by (simp add: tx_simps)
    have rows: "orders s1 = orders (add_refunded i x s)" using s1 by (simp add: writeInTx_Inr)
    have "\<not> awaiting q" if "q \<in> set (orders s1)" "o_id q = i" for q
    proof -
      have "orders (add_refunded i x s) = update_where (\<lambda>r. o_id r = i)
          (\<lambda>r. r\<lparr>o_refundedSatang := o_refundedSatang r + x\<rparr>) (orders s)" by (simp add: add_refunded_def)
      with that(1) obtain q0 where q: "q0 \<in> set (orders s)"
        "q = (if o_id q0 = i then q0\<lparr>o_refundedSatang := o_refundedSatang q0 + x\<rparr> else q0)"
        by (auto simp only: rows dest: in_update_where)
      with that(2) have q0: "q0 \<in> set (orders s)" "o_id q0 = i" "o_status q = o_status q0"
        by (simp_all split: if_splits)
      with find_order_unique [OF ids q0(1)] r have "q0 = r" by simp
      with q0(3) True show ?thesis by (auto simp: awaiting_def REFUNDABLE_ORDER_STATUSES_def)
    qed
    then have "moves s1 (set_status i (settled_status i s1) s1) (\<lambda>_. 0)"
      unfolding set_status_def
      by (intro moves_order_columns) (simp_all add: awaiting_def settled_status_def)
    from moves_trans [OF moves_trans [OF m this] moves_writeInTx [OF w]] show ?thesis by simp
  qed
qed

lemma conserves_refunded: "conserves (refunded_tx clk rid prov)"
  unfolding refunded_tx_def
  by (intro conserved settle_moves conserves_write | simp only: split: if_split | intro conjI impI | simp)+

lemma conserves_money_leg:
  "conserves (set_provider_refund rid prov)" "conserves (fail_refund rid)" "conserves (reopen_refund rid)"
  "conserves (compensation_tx clk i x)"
  by (auto simp: conserves_def set_provider_refund_def fail_refund_def reopen_refund_def
      compensation_tx_def tx_simps intro: moves_same split: option.splits)

text \<open>
  What a refund plan promises: its tickets are rows of the table, up to status and refund, each
  of the order and named once by the request.
\<close>

definition ticket_key :: "ticket \<Rightarrow> id \<times> id \<times> id \<times> id option" where
  "ticket_key k = (t_id k, t_orderId k, t_ticketTypeId k, t_seatId k)"

definition refund_plan_ok :: "db \<Rightarrow> refund_plan \<Rightarrow> bool" where
  "refund_plan_ok s rp \<longleftrightarrow> ticket_key ` set (rp_tickets rp) \<subseteq> ticket_key ` set (tickets s) \<and>
     distinct (map t_id (rp_tickets rp)) \<and> set (map t_id (rp_tickets rp)) = set (rp_ticketIds rp) \<and>
     length (rp_tickets rp) = length (rp_ticketIds rp) \<and>
     (\<forall>k \<in> set (rp_tickets rp). t_orderId k = rp_orderId rp)"

lemma distinct_subset_mset:
  assumes "distinct xs" and "distinct ys" and "set xs \<subseteq> set ys" and "length xs = length ys"
  shows "set xs = set ys"
  using assms by (metis card_subset_eq distinct_card List.finite_set)

lemma sum_by_same_set:
  assumes "distinct xs" and "distinct ys" and "set xs = set ys"
  shows "sum_by g xs = sum_by g ys"
  using assms by (simp add: sum_by_def sum_list_distinct_conv_sum_set)

lemma distinct_map_filter: "distinct (map k rs) \<Longrightarrow> distinct (map k (filter p rs))"
  by (induction rs) auto

lemma distinct_by_part: "distinct (map (\<lambda>x. f (g x)) xs) \<Longrightarrow> distinct (map g xs)"
  by (induction xs) (auto simp: rev_image_eqI)

text \<open>The voided rows are the tickets of the plan.\<close>

lemma voided_keys:
  assumes ids: "ids_ok s" and plan: "refund_plan_ok s rp"
    and count: "count_where (voidable rp) (tickets s) = length (rp_ticketIds rp)"
  shows "sum_by g (map ticket_key (filter (voidable rp) (tickets s))) = sum_by g (map ticket_key (rp_tickets rp))"
proof -
  have dist: "distinct (map t_id (tickets s))" using ids by (simp add: ids_ok_def)
  then have d1: "distinct (map t_id (filter (voidable rp) (tickets s)))" by (rule distinct_map_filter)
  have key: "t_id = (\<lambda>k. fst (ticket_key k))" by (simp add: ticket_key_def)
  have dA: "distinct (map ticket_key (filter (voidable rp) (tickets s)))"
    by (rule distinct_by_part [of fst]) (use d1 in \<open>simp only: key\<close>)
  have dB: "distinct (map ticket_key (rp_tickets rp))"
    by (rule distinct_by_part [of fst]) (use plan in \<open>simp only: key refund_plan_ok_def\<close>)
  have sub: "set (map ticket_key (filter (voidable rp) (tickets s))) \<subseteq> set (map ticket_key (rp_tickets rp))"
  proof
    fix x assume "x \<in> set (map ticket_key (filter (voidable rp) (tickets s)))"
    then obtain k where k: "k \<in> set (tickets s)" "voidable rp k" "x = ticket_key k" by auto
    then have "t_id k \<in> set (map t_id (rp_tickets rp))"
      using plan by (auto simp: voidable_def refund_plan_ok_def)
    then obtain q where q: "q \<in> set (rp_tickets rp)" "t_id q = t_id k" by auto
    then obtain k' where k': "k' \<in> set (tickets s)" "ticket_key q = ticket_key k'"
      using plan by (auto simp: refund_plan_ok_def)
    then have "t_id k' = t_id k" using q by (metis key)
    then have "k' = k" using dist k(1) k'(1) by (metis distinct_map_key_eq)
    with q k k' show "x \<in> set (map ticket_key (rp_tickets rp))" by (metis image_eqI list.set_map)
  qed
  have "length (map ticket_key (filter (voidable rp) (tickets s))) = length (map ticket_key (rp_tickets rp))"
    using count plan by (simp add: count_where_def refund_plan_ok_def)
  from distinct_subset_mset [OF dA dB sub this] dA dB show ?thesis by (intro sum_by_same_set)
qed

lemma moves_void:
  assumes ids: "ids_ok s" and plan: "refund_plan_ok s rp"
    and count: "count_where (voidable rp) (tickets s) = length (rp_ticketIds rp)"
  shows "moves s (s\<lparr>tickets := update_where (voidable rp) (void_ticket rid) (tickets s)\<rparr>)
    (\<lambda>t. - sum_by (\<lambda>j. if j = t then 1 else 0) (map t_ticketTypeId (rp_tickets rp)))"
proof -
  let ?ts = "update_where (voidable rp) (void_ticket rid) (tickets s)"
  have "live_of t ?ts = live_of t (tickets s) -
      sum_by (\<lambda>j. if j = t then 1 else 0) (map t_ticketTypeId (rp_tickets rp))" for t
  proof -
    have "live_of t ?ts = live_of t (tickets s) +
        sum_by (\<lambda>k. - (if t_ticketTypeId k = t then 1 else 0)) (filter (voidable rp) (tickets s))"
      unfolding live_of_def sum_by_update_where
      by (intro arg_cong2 [where f = "(+)"] sum_by_cong refl)
        (auto simp: voidable_def void_ticket_def live_def)
    also have "\<dots> = live_of t (tickets s) -
        sum_by (\<lambda>x. if fst (snd (snd x)) = t then 1 else 0) (map ticket_key (filter (voidable rp) (tickets s)))"
      by (simp add: sum_by_neg sum_by_map ticket_key_def)
    also have "\<dots> = live_of t (tickets s) -
        sum_by (\<lambda>x. if fst (snd (snd x)) = t then 1 else 0) (map ticket_key (rp_tickets rp))"
      by (simp only: voided_keys [OF ids plan count])
    finally show ?thesis by (simp add: sum_by_map ticket_key_def)
  qed
  moreover have "map t_id ?ts = map t_id (tickets s)"
    by (rule map_update_where) (simp add: void_ticket_def)
  ultimately show ?thesis
    by (auto simp: moves_def ids_ok_def bal_def reserved_def row_simps void_ticket_def)
qed

lemma refund_plan_ok_frame [simp]:
  "refund_plan_ok (s\<lparr>next_id := n\<rparr>) rp = refund_plan_ok s rp"
  "refund_plan_ok (s\<lparr>refunds := rs\<rparr>) rp = refund_plan_ok s rp"
  by (simp_all add: refund_plan_ok_def)

lemma moves_announce: "announce_refund clk rp s = Inr (u, s') \<Longrightarrow> moves s s' (\<lambda>_. 0)"
proof (rule conservesD [of "announce_refund clk rp"])
  show "conserves (announce_refund clk rp)"
    unfolding announce_refund_def
    by (intro conserved settle_moves | simp only: split: if_split | intro conjI impI)+
qed

lemma refund_tx_moves:
  assumes plan: "refund_plan_ok s rp" and run: "refund_tx clk rp s = Inr (a, s')"
  shows "moves s s' (\<lambda>_. 0)"
proof (rule movesI)
  assume ids: "ids_ok s"
  define rid where "rid = next_id s"
  define s1 where "s1 = s\<lparr>next_id := Suc rid, refunds := refunds s @ [new_refund clk rp rid]\<rparr>"
  have m1: "moves s s1 (\<lambda>_. 0)" unfolding s1_def by (rule moves_same) (simp_all add: rid_def)
  with ids have ids1: "ids_ok s1" by (simp add: moves_def)
  have plan1: "refund_plan_ok s1 rp" using plan by (simp add: s1_def)
  let ?s2 = "s1\<lparr>tickets := update_where (voidable rp) (void_ticket rid) (tickets s1)\<rparr>"
  from run obtain u3 s3 u4 where
    count: "count_where (voidable rp) (tickets s1) = length (rp_ticketIds rp)"
    and s3: "for_eachT (\<lambda>(tid, n). add_remaining tid n) (restored rp) ?s2 = Inr (u3, s3)"
    and s4: "announce_refund clk rp s3 = Inr (u4, s')"
    unfolding refund_tx_def bindT_Inr fresh_id_Inr insert_refund_Inr returnT_Inr void_tickets_def
      readT_Inr writeT_Inr guardT_Inr s1_def rid_def by auto
  have s3': "for_eachT (\<lambda>(tid, n). add_remaining tid (1 * n)) (tally (map t_ticketTypeId (rp_tickets rp))) ?s2
      = Inr (u3, s3)" using s3 by (simp add: restored_def)
  from moves_trans [OF moves_trans [OF moves_trans [OF m1 moves_void [OF ids1 plan1 count]]
      moves_tally [OF s3']] moves_announce [OF s4]]
  show "moves s s' (\<lambda>_. 0)" by (rule moves_cong) simp
qed

section \<open>Holds, the door and the outbox\<close>

lemma conserves_holds [conserved]:
  "conserves (acquire_tx clk ev seat key x)" "conserves (refresh_tx i x)" "conserves (sweep_tx now)"
  by (auto simp: conserves_def acquire_tx_Inr Let_def drop_expired_def refresh_tx_def sweep_tx_def
      intro: moves_same split: if_splits option.splits)

lemma conserves_admit: "conserves (admit_tx now i)"
proof (unfold conserves_def, intro allI impI)
  fix s a s' assume run: "admit_tx now i s = Inr (a, s')"
  let ?ts = "update_where (admissible i) (admit now) (tickets s)"
  have "live_of t ?ts = live_of t (tickets s)" for t
  proof -
    have "live_of t ?ts = live_of t (tickets s) + sum_by (\<lambda>k. 0) (filter (admissible i) (tickets s))"
      unfolding live_of_def sum_by_update_where
      by (intro arg_cong2 [where f = "(+)"] sum_by_cong refl) (auto simp: admissible_def admit_def live_def)
    then show ?thesis by (simp add: sum_by_zero)
  qed
  moreover have "map t_id ?ts = map t_id (tickets s)"
    by (rule map_update_where) (simp add: admit_def)
  ultimately show "moves s s' (\<lambda>_. 0)"
    using run by (auto simp: admit_tx_def moves_def ids_ok_def bal_def reserved_def row_simps admit_def)
qed

section \<open>Ticket types\<close>

lemma quantity_delta_row:
  assumes "quantity_delta ev tid d s = Inr x"
  obtains tt where "tt \<in> set (ticketTypes s)" and "tt_id tt = tid"
    and "x = or_else (ut_quantity d) (tt_quantity tt) - tt_quantity tt"
proof -
  from assms obtain tt where "List.find (\<lambda>tt. tt_id tt = tid \<and> tt_eventId tt = ev) (ticketTypes s) = Some tt"
      and "x = or_else (ut_quantity d) (tt_quantity tt) - tt_quantity tt"
    by (auto simp: quantity_delta_def or_else_def split: option.splits if_splits)
  with find_SomeD [of _ "ticketTypes s" tt] that show ?thesis by auto
qed

text \<open>
  The write, given a difference that fits the row as it is now. A difference computed earlier
  need not fit.
\<close>

lemma write_ticket_type_moves:
  assumes run: "write_ticket_type tid d x s = Inr (a, s')"
    and tt: "tt \<in> set (ticketTypes s)" "tt_id tt = tid"
  shows "moves s s' (\<lambda>t. if t = tid then x - (or_else (ut_quantity d) (tt_quantity tt) - tt_quantity tt) else 0)"
proof (rule movesI)
  assume ids: "ids_ok s"
  from run obtain u s1 where
    1: "whenT (x \<noteq> 0) (shift_remaining tid x) s = Inr (u, s1)"
    and s': "s' = s1\<lparr>ticketTypes := update_where (\<lambda>tt. tt_id tt = tid) (edit_ticket_type d) (ticketTypes s1)\<rparr>"
    unfolding write_ticket_type_def by (auto simp: bindT_Inr writeT_Inr readT_Inr someT_Inr)
  have m1: "moves s s1 (\<lambda>t. if t = tid then x else 0)"
    using 1 moves_shift_remaining [of tid x s u s1] moves_refl
    by (auto simp: whenT_Inr elim: moves_cong)
  with ids have ids1: "ids_ok s1" by (simp add: moves_def)
  have "map (\<lambda>q. (tt_id q, tt_quantity q)) (ticketTypes s1) = map (\<lambda>q. (tt_id q, tt_quantity q)) (ticketTypes s)"
    using 1 by (auto simp: whenT_Inr shift_remaining_def Let_def split: if_splits)
  then have "(tid, tt_quantity tt) \<in> set (map (\<lambda>q. (tt_id q, tt_quantity q)) (ticketTypes s1))"
    using tt by (simp only:) force
  then obtain q where q: "q \<in> set (ticketTypes s1)" "tt_id q = tid" "tt_quantity q = tt_quantity tt" by auto
  have one: "filter (\<lambda>tt. tt_id tt = tid) (ticketTypes s1) = [q]"
    using ids1 q by (intro update_one [where k = tt_id]) (auto simp: ids_ok_def)
  let ?ts = "update_where (\<lambda>tt. tt_id tt = tid) (edit_ticket_type d) (ticketTypes s1)"
  have keys: "map (\<lambda>tt. (tt_id tt, tt_kind tt)) ?ts = map (\<lambda>tt. (tt_id tt, tt_kind tt)) (ticketTypes s1)"
    by (rule map_update_where) (simp add: edit_ticket_type_def)
  have "rem_of t ?ts = rem_of t (ticketTypes s1)" for t
    unfolding rem_of_def by (rule sum_by_update_same) (simp add: edit_ticket_type_def)
  moreover have "qty_of t ?ts = qty_of t (ticketTypes s1) +
      (if t = tid then or_else (ut_quantity d) (tt_quantity tt) - tt_quantity tt else 0)" for t
    using q by (auto simp: qty_of_def sum_by_update_where one edit_ticket_type_def)
  ultimately have "moves s1 s' (\<lambda>t. if t = tid then - (or_else (ut_quantity d) (tt_quantity tt) - tt_quantity tt) else 0)"
    unfolding s' using ids1 bal_types [OF keys]
    by (auto simp: moves_def ids_ok_def row_simps edit_ticket_type_def)
  from moves_trans [OF m1 this] show "moves s s' (\<lambda>t. if t = tid
      then x - (or_else (ut_quantity d) (tt_quantity tt) - tt_quantity tt) else 0)"
    by (rule moves_cong) simp
qed

lemma updateTicketType_moves: "conserves (updateTicketType_tx ev tid d)"
proof (unfold conserves_def, intro allI impI)
  fix s a s' assume "updateTicketType_tx ev tid d s = Inr (a, s')"
  then obtain x where x: "quantity_delta ev tid d s = Inr x" "write_ticket_type tid d x s = Inr (a, s')"
    by (auto simp: updateTicketType_tx_def split: sum.splits)
  from quantity_delta_row [OF x(1)] obtain tt where tt: "tt \<in> set (ticketTypes s)" "tt_id tt = tid"
    and d: "x = or_else (ut_quantity d) (tt_quantity tt) - tt_quantity tt" .
  from write_ticket_type_moves [OF x(2) tt] show "moves s s' (\<lambda>_. 0)" by (rule moves_cong) (simp add: d)
qed

end
