(* ===== verification/Integrity.thy ===== *)
theory Integrity
  imports Stock
begin

text \<open>
  Referential integrity: the foreign keys that a later transaction relies on when it executes a
  plan made earlier. \<open>refs K X S s\<close> fixes what transactions other than the creation of ticket
  types and seat maps leave alone, the kinds \<open>K\<close> of the ticket types and the seats \<open>S\<close>, and a
  set \<open>X\<close> of tickets that must not disappear or change owner. A ticket is \<open>typed\<close> when its tier is
  a floor tier, or it names a seat of its tier; a seated tier has room for all its seats.
\<close>

definition typed :: "(id \<Rightarrow> ticket_kind option) \<Rightarrow> seat list \<Rightarrow> id \<Rightarrow> id option \<Rightarrow> bool" where
  "typed K S ty seat \<longleftrightarrow> (case seat of None \<Rightarrow> K ty = Some Ga
     | Some x \<Rightarrow> \<exists>st \<in> set S. s_id st = x \<and> s_ticketTypeId st = ty)"

definition refs :: "(id \<Rightarrow> ticket_kind option) \<Rightarrow> (id \<times> id \<times> id \<times> id option) set \<Rightarrow> seat list \<Rightarrow> db \<Rightarrow> bool" where
  "refs K X S s \<longleftrightarrow> (\<forall>t. kind_of t s = K t) \<and> X \<subseteq> ticket_key ` set (tickets s) \<and> seats s = S \<and>
     (\<forall>its \<in> set (map o_items (orders s)). \<forall>it \<in> set its. 0 \<le> i_quantity it \<and> K (i_ticketTypeId it) \<noteq> None) \<and>
     (\<forall>k \<in> set (tickets s). typed K S (t_ticketTypeId k) (t_seatId k)) \<and>
     (\<forall>st \<in> set S. K (s_ticketTypeId st) = Some Seated) \<and>
     (\<forall>t. K t = Some Seated \<longrightarrow> seats_of t S \<le> qty_of t (ticketTypes s))"

lemma refs_tier: "refs K X S s \<Longrightarrow> k \<in> set (tickets s) \<Longrightarrow> K (t_ticketTypeId k) \<noteq> None"
  by (fastforce simp: refs_def typed_def split: option.splits)

lemma keepsT_bind_read:
  "(\<And>s. P s \<Longrightarrow> keepsT P (f (g s))) \<Longrightarrow> keepsT P (bindT (readT g) f)"
  unfolding keepsT_def bindT_Inr readT_Inr by blast

lemma sum_by_update_on:
  "(\<And>r. r \<in> set rs \<Longrightarrow> p r \<Longrightarrow> g (f r) = g r) \<Longrightarrow> sum_by g (update_where p f rs) = sum_by g rs"
  by (induction rs) auto

section \<open>Pieces\<close>

named_theorems refs_rules "transaction pieces that keep referential integrity"

lemma refs_frame:
  assumes "ticketTypes s' = ticketTypes s" and "tickets s' = tickets s" and "seats s' = seats s"
    and "map o_items (orders s') = map o_items (orders s)"
  shows "refs K X S s' = refs K X S s"
  by (simp only: refs_def kind_of_def find_ticket_type_def assms)

lemma refs_frameI:
  "refs K X S s \<Longrightarrow> ticketTypes s' = ticketTypes s \<Longrightarrow> tickets s' = tickets s \<Longrightarrow> seats s' = seats s \<Longrightarrow>
     map o_items (orders s') = map o_items (orders s) \<Longrightarrow> refs K X S s'"
  by (rule refs_frame [THEN iffD2])

lemma refs_write:
  assumes "\<And>s. ticketTypes (f s) = ticketTypes s \<and> tickets (f s) = tickets s \<and> seats (f s) = seats s \<and>
     map o_items (orders (f s)) = map o_items (orders s)"
  shows "keepsT (refs K X S) (writeT f)"
proof (unfold keepsT_def writeT_Inr, intro allI impI)
  fix s :: db and u :: unit and s' assume ok: "refs K X S s" and s': "s' = f s"
  show "refs K X S s'" unfolding s' by (rule refs_frameI [OF ok]) (simp_all add: assms)
qed

lemma refs_fresh [refs_rules]: "keepsT (refs K X S) fresh_id"
  unfolding keepsT_def fresh_id_Inr by (auto elim: refs_frameI)

lemma refs_outbox [refs_rules]: "keepsT (refs K X S) (writeInTx now p)"
  unfolding keepsT_def writeInTx_Inr by (auto elim: refs_frameI)

lemma refs_types_on:
  assumes "map (\<lambda>tt. (tt_id tt, tt_kind tt)) ts = map (\<lambda>tt. (tt_id tt, tt_kind tt)) (ticketTypes s)"
    and "\<And>t. K t = Some Seated \<Longrightarrow> qty_of t ts = qty_of t (ticketTypes s)"
  shows "refs K X S (s\<lparr>ticketTypes := ts\<rparr>) = refs K X S s"
  using bal_types(1) [OF assms(1)] assms(2) by (simp add: refs_def)

lemma qty_of_triples: "qty_of t rows = sum_by (\<lambda>(i, k, n). if i = t then n else 0)
    (map (\<lambda>tt. (tt_id tt, tt_kind tt, tt_quantity tt)) rows)"
  by (simp add: qty_of_def sum_by_map)

lemma refs_types:
  assumes "map (\<lambda>tt. (tt_id tt, tt_kind tt, tt_quantity tt)) ts =
    map (\<lambda>tt. (tt_id tt, tt_kind tt, tt_quantity tt)) (ticketTypes s)"
  shows "refs K X S (s\<lparr>ticketTypes := ts\<rparr>) = refs K X S s"
proof (rule refs_types_on)
  from arg_cong [OF assms, of "map (\<lambda>(i, k, n). (i, k))"]
  show "map (\<lambda>tt. (tt_id tt, tt_kind tt)) ts = map (\<lambda>tt. (tt_id tt, tt_kind tt)) (ticketTypes s)"
    by (simp add: comp_def)
  show "qty_of t ts = qty_of t (ticketTypes s)" for t by (simp add: qty_of_triples assms)
qed

lemma refs_add_remaining [refs_rules]: "keepsT (refs K X S) (add_remaining tid x)"
  by (auto simp: keepsT_def add_remaining_Inr refs_types)

lemma refs_claim_ga [refs_rules]: "keepsT (refs K X S) (claim_ga it)"
  by (auto simp: keepsT_def claim_ga_def Let_def refs_types split: if_splits)

lemma refs_insert_order:
  "\<forall>it \<in> set (o_items r). 0 \<le> i_quantity it \<and> K (i_ticketTypeId it) \<noteq> None \<Longrightarrow>
     keepsT (refs K X S) (insert_order r)"
  by (auto simp: keepsT_def insert_order_Inr refs_def)

lemma refs_issue_ticket:
  "typed K S (fst sp) (snd sp) \<Longrightarrow> keepsT (refs K X S) (issue_ticket now i ev email name sp)"
  by (auto simp: keepsT_def issue_ticket_def bindT_Inr fresh_id_Inr insert_ticket_Inr refs_def)

lemma refs_insert_refund [refs_rules]: "keepsT (refs K X S) (insert_refund r)"
  unfolding keepsT_def insert_refund_Inr by (auto elim: refs_frameI)

lemma refs_tickets:
  assumes "\<And>k. ticket_key (f k) = ticket_key k"
  shows "refs K X S (s\<lparr>tickets := update_where p f (tickets s)\<rparr>) = refs K X S s"
proof -
  have 1: "map ticket_key (update_where p f (tickets s)) = map ticket_key (tickets s)"
    by (rule map_update_where) (rule assms)
  have *: "(\<forall>k \<in> set ks. typed K S (t_ticketTypeId k) (t_seatId k)) \<longleftrightarrow>
      (\<forall>x \<in> set (map ticket_key ks). typed K S (fst (snd (snd x))) (snd (snd (snd x))))" for ks
    by (simp add: ticket_key_def)
  show ?thesis unfolding refs_def * using arg_cong [OF 1, of set]
    by (simp add: kind_of_def find_ticket_type_def)
qed

section \<open>Transactions\<close>

lemma refs_bind_holds: "keepsT (refs K X S) (bind_holds clk pl i)"
  unfolding bind_holds_def by (intro keeps refs_write) simp

lemma refs_consume_holds: "keepsT (refs K X S) (consume_holds clk pl)"
  unfolding consume_holds_def by (intro keeps refs_rules refs_write) simp

text \<open>The plan in terms of the fixed kinds.\<close>

definition plan_refs :: "(id \<Rightarrow> ticket_kind option) \<Rightarrow> seat list \<Rightarrow> order_plan \<Rightarrow> bool" where
  "plan_refs K S pl \<longleftrightarrow>
     (\<forall>it \<in> set (pl_ga pl). 0 \<le> i_quantity it \<and> K (i_ticketTypeId it) = Some Ga) \<and>
     (\<forall>g \<in> set (pl_groups pl). 0 \<le> i_quantity g \<and> K (i_ticketTypeId g) = Some Seated) \<and>
     set (pl_seats pl) \<subseteq> set S"

lemma refs_create_tx:
  assumes "plan_refs K S pl"
  shows "keepsT (refs K X S) (create_tx clk pl)"
proof -
  have ga: "keepsT (refs K X S) (issue_ticket now i ev email name sp)"
    if "sp \<in> set (ga_specs (pl_ga pl) @ seat_specs (pl_seats pl))"
      and "\<forall>st \<in> set S. K (s_ticketTypeId st) = Some Seated" for now i ev email name sp
    using that assms
    by (intro refs_issue_ticket) (fastforce simp: ga_specs_def seat_specs_def plan_refs_def typed_def)
  have free: "keepsT (refs K X S) (issue_free clk pl i)" for i
  proof (cases "\<forall>st \<in> set S. K (s_ticketTypeId st) = Some Seated")
    case True
    then show ?thesis unfolding issue_free_def by (intro keeps refs_rules ga) auto
  next
    case False
    then have "\<not> refs K X S s" for s by (auto simp: refs_def)
    then show ?thesis by (simp add: keepsT_def)
  qed
  have new: "keepsT (refs K X S) (insert_order (new_order clk pl i g))" for i g
    using assms by (intro refs_insert_order) (auto simp: new_order_def plan_refs_def)
  show ?thesis
    unfolding create_tx_def
    by (intro keeps refs_rules new free refs_bind_holds refs_consume_holds
        | simp only: split: if_split | intro conjI impI)+
qed

lemma refs_release: "keepsT (refs K X S) (releaseOrderInventoryInTx now i st)"
  unfolding releaseOrderInventoryInTx_def release_seats_def
  by (intro keeps refs_rules refs_write | simp only: split: if_split | intro conjI impI | simp)+

lemma refs_fulfil:
  assumes "r0 \<in> o_items ` set (orders s0)" and "refs K X S s0" and "o_items r = r0"
  shows "keepsT (refs K X S) (fulfil_tx now r)"
proof -
  show ?thesis
    unfolding fulfil_tx_def
  proof (rule keepsT_bind_read)
    fix s1 assume "refs K X S s1"
    let ?ids = "held_seat_ids (o_id r) s1"
    have issue: "keepsT (refs K X S) (for_eachT (issue_ticket now (o_id r) (o_eventId r) (o_buyerEmail r)
        (o_buyerName r)) (ga_specs (filter (is_ga_item s3) (o_items r)) @
        seat_specs (filter (\<lambda>st. s_id st \<in> set ?ids) (seats s2))))"
      if "refs K X S s2" and "refs K X S s3" for s2 s3
      using that
      by (intro keepsT_for_each refs_issue_ticket) (auto simp: ga_specs_def seat_specs_def refs_def typed_def is_ga_item_def kind_of_def)
    show "keepsT (refs K X S) (bindT (writeT (\<lambda>s. s\<lparr>holds := delete_where (\<lambda>h. h_orderId h = Some (o_id r)) (holds s)\<rparr>)) (\<lambda>_.
       bindT (readT (\<lambda>s. filter (\<lambda>st. s_id st \<in> set ?ids) (seats s))) (\<lambda>sts.
       bindT (readT (\<lambda>s. filter (is_ga_item s) (o_items r))) (\<lambda>gaItems.
       bindT (for_eachT (\<lambda>(tid, n). add_remaining tid (- n)) (tally (map s_ticketTypeId sts))) (\<lambda>_.
       bindT (for_eachT (issue_ticket now (o_id r) (o_eventId r) (o_buyerEmail r) (o_buyerName r))
                (ga_specs gaItems @ seat_specs sts)) (\<lambda>_.
       bindT (writeInTx now (Ticket_issued (o_id r))) (\<lambda>_.
       bindT (writeInTx now (Order_updated (o_id r) Paid)) (\<lambda>_.
       whenT (?ids \<noteq> []) (writeInTx now (Seats_sold (o_eventId r) ?ids))))))))))"
      by (rule keepsT_bind, rule refs_write, simp, rule keepsT_bind_read, rule keepsT_bind_read)
        (intro keepsT_bind issue keepsT_when keepsT_for_each refs_rules | clarsimp simp: refs_rules)+
  qed
qed

lemma refs_succeeded: "keepsT (refs K X S) (succeeded_tx now intent)"
proof (unfold keepsT_def, intro allI impI)
  fix s a s' assume ok: "refs K X S s" and run: "succeeded_tx now intent s = Inr (a, s')"
  have frames: "refs K X S (set_payment i st q) = refs K X S q" "refs K X S (claim_paid j q) = refs K X S q"
    for i st j q
    by (rule refs_frame, simp_all add: set_payment_def claim_paid_def)+
  show "refs K X S s'"
  proof (cases "find_payment intent s")
    case None
    with run ok show ?thesis by (simp add: succeeded_tx_def tx_simps)
  next
    case (Some p)
    let ?s2 = "claim_paid (p_orderId p) (set_payment intent P_succeeded s)"
    from run Some consider (same) "s' = set_payment intent P_succeeded s" | (claimed) "s' = ?s2"
      | (fulfilled) r u where "find_order (p_orderId p) ?s2 = Some r" "fulfil_tx now r ?s2 = Inr (u, s')"
      by (auto simp: succeeded_tx_def tx_simps split: option.splits if_splits)
    then show ?thesis
    proof cases
      case same
      with ok show ?thesis by (simp add: frames)
    next
      case claimed
      with ok show ?thesis by (simp add: frames)
    next
      case fulfilled
      have "refs K X S ?s2" using ok by (simp add: frames)
      moreover have "o_items r \<in> o_items ` set (orders ?s2)" using find_order_in [OF fulfilled(1)] by simp
      ultimately show ?thesis using keepsTD [OF refs_fulfil _ fulfilled(2)] by blast
    qed
  qed
qed

lemma refs_failed: "keepsT (refs K X S) (failed_tx now intent)"
  unfolding failed_tx_def
  by (intro keeps refs_release refs_write
      | simp only: split: if_split option.split | intro conjI impI allI | simp add: set_payment_def)+

lemma refs_settle: "keepsT (refs K X S) (settleInTx now i x)"
  unfolding settleInTx_def
  by (intro keeps refs_rules refs_write
      | simp only: split: if_split | intro conjI impI | simp add: add_refunded_def set_status_def)+

lemma refs_refunded: "keepsT (refs K X S) (refunded_tx clk rid prov)"
  unfolding refunded_tx_def
  by (intro keeps refs_settle refs_write | simp only: split: if_split | intro conjI impI | simp)+

lemma refs_void: "keepsT (refs K X S) (void_tickets rp rid)"
proof -
  have "keepsT (refs K X S) (writeT (\<lambda>s. s\<lparr>tickets := update_where (voidable rp) (void_ticket rid) (tickets s)\<rparr>))"
    by (simp add: keepsT_def writeT_Inr refs_tickets void_ticket_def ticket_key_def)
  then show ?thesis unfolding void_tickets_def by (intro keeps)
qed

lemma refs_refund_tx: "keepsT (refs K X S) (refund_tx clk rp)"
  unfolding refund_tx_def announce_refund_def
  by (intro keeps refs_rules refs_void refs_settle
      | simp only: split: if_split prod.split | intro conjI impI allI)+

lemma refs_money_leg:
  "keepsT (refs K X S) (set_provider_refund rid prov)" "keepsT (refs K X S) (fail_refund rid)"
  "keepsT (refs K X S) (reopen_refund rid)" "keepsT (refs K X S) (compensation_tx clk i x)"
  by (auto simp: keepsT_def set_provider_refund_def fail_refund_def reopen_refund_def
      compensation_tx_def tx_simps elim!: refs_frameI split: option.splits)

lemma refs_holds:
  "keepsT (refs K X S) (acquire_tx clk ev seat key x)" "keepsT (refs K X S) (refresh_tx i x)"
  "keepsT (refs K X S) (sweep_tx now)"
  by (auto simp: keepsT_def acquire_tx_Inr Let_def drop_expired_def refresh_tx_def sweep_tx_def
      elim!: refs_frameI split: if_splits option.splits)

lemma refs_admit: "keepsT (refs K X S) (admit_tx now i)"
  by (auto simp: keepsT_def admit_tx_def refs_tickets admit_def ticket_key_def)

lemma refs_updateTicketType:
  assumes ids: "ids_ok s" and ok: "refs K X S s" and run: "updateTicketType_tx ev tid d s = Inr (a, s')"
  shows "refs K X S s'"
proof -
  from run obtain x where x: "quantity_delta ev tid d s = Inr x" "write_ticket_type tid d x s = Inr (a, s')"
    by (auto simp: updateTicketType_tx_def split: sum.splits)
  from x(1) obtain tt where tt: "tt \<in> set (ticketTypes s)" "tt_id tt = tid"
      and seated: "tt_kind tt = Seated \<Longrightarrow> or_else (ut_quantity d) (tt_quantity tt) = tt_quantity tt"
    by (auto simp: quantity_delta_def or_else_def dest!: find_SomeD split: option.splits if_splits)
  have "find_ticket_type tid s = Some tt"
    using ids tt find_key [of tt_id "ticketTypes s" tt] by (simp add: ids_ok_def find_ticket_type_def)
  then have "kind_of tid s = Some (tt_kind tt)" by (simp add: kind_of_def)
  moreover have "kind_of tid s = K tid" using ok by (simp add: refs_def)
  ultimately have kind: "K tid = Some (tt_kind tt)" by simp
  have one: "q = tt" if "q \<in> set (ticketTypes s)" "tt_id q = tid" for q
    using ids that tt distinct_map_key_eq [of tt_id "ticketTypes s" q tt] by (simp add: ids_ok_def)
  obtain ts where ts: "s' = s\<lparr>ticketTypes := update_where (\<lambda>q. tt_id q = tid) (edit_ticket_type d) ts\<rparr>"
    and same: "map (\<lambda>q. (tt_id q, tt_kind q, tt_quantity q)) ts =
      map (\<lambda>q. (tt_id q, tt_kind q, tt_quantity q)) (ticketTypes s)"
    using x(2) by (fastforce simp: write_ticket_type_def shift_remaining_def Let_def tx_simps split: if_splits)
  let ?ts = "update_where (\<lambda>q. tt_id q = tid) (edit_ticket_type d) ts"
  have kinds: "map (\<lambda>q. (tt_id q, tt_kind q)) ?ts = map (\<lambda>q. (tt_id q, tt_kind q)) (ticketTypes s)"
    using arg_cong [OF same, of "map (\<lambda>(i, k, n). (i, k))"] by (simp add: comp_def edit_ticket_type_def)
  have "qty_of t ?ts = qty_of t (ticketTypes s)" if "K t = Some Seated" for t
  proof -
    have "qty_of t ?ts = qty_of t ts"
    proof (cases "t = tid")
      case False
      then show ?thesis unfolding qty_of_def by (intro sum_by_update_on) (simp add: edit_ticket_type_def)
    next
      case True
      with kind that seated have keep: "or_else (ut_quantity d) (tt_quantity tt) = tt_quantity tt" by simp
      have "tt_quantity q = tt_quantity tt" if "q \<in> set ts" "tt_id q = tid" for q
      proof -
        from that(1) same have "(tt_id q, tt_kind q, tt_quantity q) \<in>
            (\<lambda>q. (tt_id q, tt_kind q, tt_quantity q)) ` set (ticketTypes s)"
          by (metis (no_types, lifting) image_eqI set_map)
        with that(2) one show ?thesis by auto
      qed
      with keep show ?thesis unfolding qty_of_def
        by (intro sum_by_update_on) (auto simp: edit_ticket_type_def or_else_def split: option.splits)
    qed
    also have "\<dots> = qty_of t (ticketTypes s)" by (simp add: qty_of_triples same)
    finally show ?thesis .
  qed
  with ok kinds show ?thesis by (simp add: ts refs_types_on)
qed

end
