(* ===== verification/Exclusion.thy ===== *)
theory Exclusion
  imports Integrity
begin

text \<open>
  A seat is held, or sold, or neither: no hold on a seat with a live ticket, one hold per seat,
  one live ticket per seat. The transactions keep this, and from it the code's reliance on the
  database follows: issuing the tickets of a paid order never runs into the unique index.
\<close>

definition seat_inv :: "db \<Rightarrow> bool" where
  "seat_inv s \<longleftrightarrow> holds_unique s \<and> holds_free s \<and> distinct (map s_id (seats s)) \<and>
     (\<forall>h \<in> set (holds s). \<exists>st \<in> set (seats s). s_id st = h_seatId h \<and> s_eventId st = h_eventId h) \<and>
     seats_single s"

lemma seat_inv_one_hold:
  assumes "seat_inv s" and "h \<in> set (holds s)" and "h' \<in> set (holds s)" and "h_seatId h = h_seatId h'"
  shows "h = h'"
proof -
  from assms obtain st st' where "st \<in> set (seats s)" "s_id st = h_seatId h" "s_eventId st = h_eventId h"
      "st' \<in> set (seats s)" "s_id st' = h_seatId h'" "s_eventId st' = h_eventId h'"
    unfolding seat_inv_def by metis
  moreover from this assms have "st = st'"
    by (metis distinct_map_key_eq seat_inv_def)
  ultimately have "hold_key h = hold_key h'" using assms(4) by (simp add: hold_key_def)
  with assms show ?thesis by (metis distinct_map_key_eq holds_unique_iff seat_inv_def)
qed

section \<open>Pieces\<close>

lemma seat_inv_frame:
  assumes "holds s' = holds s" and "seats s' = seats s" and "tickets s' = tickets s"
  shows "seat_inv s' = seat_inv s"
  by (simp only: seat_inv_def holds_unique_def holds_free_def seat_sold_def seats_single_def assms)

lemma seat_inv_frameI:
  "seat_inv s \<Longrightarrow> holds s' = holds s \<Longrightarrow> seats s' = seats s \<Longrightarrow> tickets s' = tickets s \<Longrightarrow> seat_inv s'"
  by (rule seat_inv_frame [THEN iffD2])

named_theorems seat_rules "transaction pieces that keep the exclusion"

lemma seat_write:
  assumes "\<And>s. holds (f s) = holds s \<and> seats (f s) = seats s \<and> tickets (f s) = tickets s"
  shows "keepsT seat_inv (writeT f)"
proof (unfold keepsT_def writeT_Inr, intro allI impI)
  fix s :: db and u :: unit and s' assume ok: "seat_inv s" and s': "s' = f s"
  show "seat_inv s'" unfolding s' by (rule seat_inv_frameI [OF ok]) (simp_all add: assms)
qed

lemma seat_fresh [seat_rules]: "keepsT seat_inv fresh_id"
  unfolding keepsT_def fresh_id_Inr by (auto elim: seat_inv_frameI)

lemma seat_outbox [seat_rules]: "keepsT seat_inv (writeInTx now p)"
  unfolding keepsT_def writeInTx_Inr by (auto elim: seat_inv_frameI)

lemma seat_add_remaining [seat_rules]: "keepsT seat_inv (add_remaining tid x)"
  unfolding keepsT_def add_remaining_Inr by (auto elim: seat_inv_frameI)

lemma seat_claim_ga [seat_rules]: "keepsT seat_inv (claim_ga it)"
  by (auto simp: keepsT_def claim_ga_def Let_def elim: seat_inv_frameI split: if_splits)

lemma seat_insert_order [seat_rules]: "keepsT seat_inv (insert_order r)"
  unfolding keepsT_def insert_order_Inr by (auto elim: seat_inv_frameI)

lemma seat_insert_refund [seat_rules]: "keepsT seat_inv (insert_refund r)"
  unfolding keepsT_def insert_refund_Inr by (auto elim: seat_inv_frameI)

lemma seat_inv_delete: "seat_inv s \<Longrightarrow> seat_inv (s\<lparr>holds := delete_where p (holds s)\<rparr>)"
  unfolding seat_inv_def holds_unique_def holds_free_def seats_single_def
  by (auto simp: holds_unique_delete row_simps)

lemma seat_delete [seat_rules]: "keepsT seat_inv (writeT (\<lambda>s. s\<lparr>holds := delete_where p (holds s)\<rparr>))"
  by (simp add: keepsT_def writeT_Inr seat_inv_delete)

lemma seat_inv_update_holds:
  assumes "\<And>h. h_eventId (f h) = h_eventId h \<and> h_seatId (f h) = h_seatId h" and "seat_inv s"
  shows "seat_inv (s\<lparr>holds := update_where p f (holds s)\<rparr>)"
proof -
  have row: "\<exists>h \<in> set (holds s). h_eventId q = h_eventId h \<and> h_seatId q = h_seatId h"
    if "q \<in> set (update_where p f (holds s))" for q
    using in_update_where [OF that] assms(1) by metis
  have "holds_unique (s\<lparr>holds := update_where p f (holds s)\<rparr>)"
    using assms by (simp add: holds_unique_def seat_inv_def)
  moreover have "holds_free (s\<lparr>holds := update_where p f (holds s)\<rparr>)"
    using row assms(2) by (fastforce simp: holds_free_def seat_inv_def)
  moreover have "\<forall>h \<in> set (update_where p f (holds s)). \<exists>st \<in> set (seats s). s_id st = h_seatId h \<and> s_eventId st = h_eventId h"
    using row assms(2) unfolding seat_inv_def by metis
  ultimately show ?thesis using assms(2) by (simp add: seat_inv_def seats_single_def)
qed

lemma set_live_seats: "x \<in> set (live_seats ts) \<longleftrightarrow> (\<exists>k \<in> set ts. live k \<and> t_seatId k = Some x)"
  by (auto simp: live_seats_def set_map_filter_iff)

lemma seat_sold_live: "seat_sold x s \<longleftrightarrow> x \<in> set (live_seats (tickets s))"
  by (auto simp: seat_sold_def set_live_seats)

lemma live_seats_snoc: "live_seats (ts @ [k]) =
    live_seats ts @ (if live k then (case t_seatId k of None \<Rightarrow> [] | Some x \<Rightarrow> [x]) else [])"
  by (simp add: live_seats_def map_filter_snoc)

lemma live_seats_Cons: "live_seats (k # ts) =
    (if live k then (case t_seatId k of None \<Rightarrow> [] | Some x \<Rightarrow> [x]) else []) @ live_seats ts"
  by (simp add: live_seats_def List.map_filter_simps split: option.split)

text \<open>Changing tickets without reviving one leaves a part of the sold seats.\<close>

lemma live_seats_update:
  assumes "\<And>k. t_seatId (f k) = t_seatId k" and "\<And>k. p k \<Longrightarrow> live (f k) \<Longrightarrow> live k"
  shows "set (live_seats (update_where p f ts)) \<subseteq> set (live_seats ts) \<and>
    (distinct (live_seats ts) \<longrightarrow> distinct (live_seats (update_where p f ts)))"
proof (induction ts)
  case Nil
  then show ?case by (simp add: live_seats_def)
next
  case (Cons k ts)
  then show ?case using assms(1) assms(2) [of k]
    by (cases "p k"; cases "live k"; cases "live (f k)"; cases "t_seatId k")
      (auto simp: live_seats_Cons)
qed

lemma seat_inv_update_tickets:
  assumes "\<And>k. t_seatId (f k) = t_seatId k"
    and "\<And>k. p k \<Longrightarrow> live (f k) \<Longrightarrow> live k" and "seat_inv s"
  shows "seat_inv (s\<lparr>tickets := update_where p f (tickets s)\<rparr>)"
  using live_seats_update [where f = f and p = p and ts = "tickets s", OF assms(1,2)] assms(3)
  by (auto simp: seat_inv_def holds_unique_def holds_free_def seats_single_def seat_sold_live)

section \<open>Issuing tickets for seats that nobody holds\<close>

definition free_seats :: "ticket_spec list \<Rightarrow> db \<Rightarrow> bool" where
  "free_seats sps s \<longleftrightarrow> (\<forall>x. Some x \<in> snd ` set sps \<longrightarrow> \<not> seat_sold x s \<and> x \<notin> h_seatId ` set (holds s)) \<and>
     distinct (List.map_filter snd sps)"

lemma issue_ticket_free:
  assumes "seat_inv s" and "free_seats (sp # sps) s"
  obtains s' where "issue_ticket now i ev email name sp s = Inr ((), s')" and "seat_inv s'"
    and "free_seats sps s'"
proof -
  let ?k = "\<lparr>t_id = next_id s, t_orderId = i, t_eventId = ev, t_ticketTypeId = fst sp,
       t_seatId = snd sp, t_attendeeEmail = email, t_attendeeName = name, t_qrToken = Suc (next_id s),
       t_status = Issued, t_refundId = None, t_checkedInAt = None, t_createdAt = now\<rparr>"
  let ?s = "s\<lparr>next_id := Suc (Suc (next_id s)), tickets := tickets s @ [?k]\<rparr>"
  have "\<not> seat_taken ev (snd sp) (s\<lparr>next_id := Suc (Suc (next_id s))\<rparr>)"
    using assms(2) by (auto simp: seat_taken_def free_seats_def seat_sold_def)
  then have run: "issue_ticket now i ev email name sp s = Inr ((), ?s)"
    by (simp add: issue_ticket_def bindT_def fresh_id_def insert_ticket_def)
  have sold: "seat_sold x ?s \<longleftrightarrow> seat_sold x s \<or> snd sp = Some x" for x
    by (auto simp: seat_sold_def live_def)
  have "holds_free ?s"
    using assms(1,2) by (auto simp: holds_free_def sold seat_inv_def free_seats_def)
  moreover have "seats_single ?s"
    using assms(1,2)
    by (auto simp: seats_single_def seat_inv_def free_seats_def seat_sold_live live_seats_snoc live_def
        split: option.splits)
  ultimately have "seat_inv ?s" using assms(1) by (simp add: seat_inv_def holds_unique_def)
  moreover have "free_seats sps ?s"
    using assms(2)
    by (auto simp: free_seats_def sold List.map_filter_simps set_map_filter_iff image_iff split: option.splits)
  ultimately show ?thesis using run that by simp
qed

lemma issue_all_free:
  assumes "seat_inv s" and "free_seats sps s"
  obtains s' where "for_eachT (issue_ticket now i ev email name) sps s = Inr ((), s')"
    and "seat_inv s'"
proof -
  have "\<exists>s'. for_eachT (issue_ticket now i ev email name) sps s = Inr ((), s') \<and> seat_inv s'"
    using assms
  proof (induction sps arbitrary: s)
    case Nil
    then show ?case by simp
  next
    case (Cons sp sps)
    from issue_ticket_free [OF Cons.prems, of now i ev email name] obtain s1 where
      "issue_ticket now i ev email name sp s = Inr ((), s1)" "seat_inv s1" "free_seats sps s1" .
    with Cons.IH [of s1] show ?case by simp
  qed
  with that show ?thesis by blast
qed

text \<open>The specs of a GA list and of seats: only the seats matter.\<close>

lemma seats_of_specs: "List.map_filter snd (ga_specs its @ seat_specs sts) = map s_id sts"
proof -
  have ga: "List.map_filter snd (ga_specs its) = []"
  proof (induction its)
    case Nil
    then show ?case by (simp add: ga_specs_def List.map_filter_def)
  next
    case (Cons it its)
    moreover have "List.map_filter snd (replicate n (i, None)) = []" for n and i :: id
      by (induction n) (simp_all add: List.map_filter_simps)
    ultimately show ?case by (simp add: ga_specs_def List.map_filter_def)
  qed
  have "List.map_filter snd (seat_specs sts) = map s_id sts"
    by (induction sts) (simp_all add: seat_specs_def List.map_filter_simps)
  with ga show ?thesis by (simp add: List.map_filter_def)
qed

lemma free_specs:
  assumes "distinct (map s_id sts)"
    and "\<And>x. x \<in> s_id ` set sts \<Longrightarrow> \<not> seat_sold x s \<and> x \<notin> h_seatId ` set (holds s)"
  shows "free_seats (ga_specs its @ seat_specs sts) s"
proof -
  have "Some x \<in> snd ` set (ga_specs its @ seat_specs sts) \<longleftrightarrow> x \<in> s_id ` set sts" for x
    by (force simp: ga_specs_def seat_specs_def)
  with assms show ?thesis by (simp only: free_seats_def seats_of_specs) simp
qed

section \<open>Seats whose holds were just consumed\<close>

text \<open>
  Deleting all the holds of a seat that was held leaves the seat free: it was not sold, and there
  was only the one hold.
\<close>

lemma consumed_free:
  assumes "seat_inv s" and "h \<in> set (holds s)" and "p h" and "h_seatId h = x"
  shows "\<not> seat_sold x (s\<lparr>holds := delete_where p (holds s)\<rparr>) \<and>
    x \<notin> h_seatId ` set (holds (s\<lparr>holds := delete_where p (holds s)\<rparr>))"
proof -
  have "\<not> seat_sold x s" using assms by (auto simp: seat_inv_def holds_free_def)
  moreover have "q = h" if "q \<in> set (holds s)" "h_seatId q = x" for q
    using seat_inv_one_hold [OF assms(1) that(1) assms(2)] that(2) assms(4) by simp
  ultimately show ?thesis using assms(3) by (auto simp: row_simps)
qed

lemma stock_loop:
  "for_eachT (\<lambda>x. add_remaining (g x) (h x)) xs s = Inr (u, s') \<Longrightarrow>
     holds s' = holds s \<and> tickets s' = tickets s \<and> seats s' = seats s"
  by (induction xs arbitrary: s) (force simp: add_remaining_Inr split: sum.splits)+

lemma stock_pairs:
  "for_eachT (\<lambda>(tid, n). add_remaining tid (f n)) ms s = Inr (u, s') \<Longrightarrow>
     holds s' = holds s \<and> tickets s' = tickets s \<and> seats s' = seats s"
  using stock_loop [of fst "\<lambda>x. f (snd x)" ms s u s'] by (simp add: case_prod_unfold)

lemma free_seats_frame:
  "holds s' = holds s \<Longrightarrow> tickets s' = tickets s \<Longrightarrow> free_seats sps s' = free_seats sps s"
  by (simp add: free_seats_def seat_sold_live)

definition plan_seats_ok :: "db \<Rightarrow> order_plan \<Rightarrow> bool" where
  "plan_seats_ok s pl \<longleftrightarrow> set (pl_seats pl) \<subseteq> set (seats s) \<and> distinct (map s_id (pl_seats pl)) \<and>
     distinct (pl_seatIds pl) \<and> set (map s_id (pl_seats pl)) = set (pl_seatIds pl)"

text \<open>As many live holds of one's own as seats: one on each.\<close>

lemma every_seat_held:
  assumes "seat_inv s" and "count_where (my_live_hold clk pl) (holds s) = length (pl_seatIds pl)"
    and "distinct (pl_seatIds pl)" and "x \<in> set (pl_seatIds pl)"
  shows "\<exists>h \<in> set (holds s). my_live_hold clk pl h \<and> h_seatId h = x"
proof -
  let ?M = "filter (my_live_hold clk pl) (holds s)"
  have "distinct (map h_seatId ?M)"
  proof -
    have "distinct (map hold_key (holds s))" using assms(1) by (simp add: seat_inv_def holds_unique_iff)
    then have "distinct ?M" by (simp add: distinct_map)
    moreover have "inj_on h_seatId (set ?M)"
      using seat_inv_one_hold [OF assms(1)] by (auto simp: inj_on_def)
    ultimately show ?thesis by (simp add: distinct_map)
  qed
  moreover have "set (map h_seatId ?M) \<subseteq> set (pl_seatIds pl)" by (auto simp: my_live_hold_def)
  moreover have "length (map h_seatId ?M) = length (pl_seatIds pl)"
    using assms(2) by (simp add: count_where_def)
  ultimately have "set (map h_seatId ?M) = set (pl_seatIds pl)"
    using distinct_subset_mset assms(3) by blast
  with assms(4) have "x \<in> h_seatId ` set ?M" by (metis list.set_map)
  then show ?thesis by auto
qed

section \<open>Transactions\<close>

lemma seat_bind_holds: "keepsT seat_inv (bind_holds clk pl i)"
  unfolding bind_holds_def
  by (intro keeps) (auto simp: keepsT_def writeT_Inr intro!: seat_inv_update_holds)

text \<open>Consuming the holds of a plan leaves its seats free for the tickets.\<close>

lemma consume_holds_free:
  assumes "seat_inv s" and "plan_seats_ok s pl" and "consume_holds clk pl s = Inr (u, s')"
  shows "seat_inv s' \<and> free_seats (ga_specs (pl_ga pl) @ seat_specs (pl_seats pl)) s'"
proof -
  let ?s1 = "s\<lparr>holds := delete_where (my_live_hold clk pl) (holds s)\<rparr>"
  from assms(3) have count: "count_where (my_live_hold clk pl) (holds s) = length (pl_seatIds pl)"
    and loop: "for_eachT (\<lambda>g. add_remaining (i_ticketTypeId g) (- i_quantity g)) (pl_groups pl) ?s1 = Inr (u, s')"
    by (auto simp: consume_holds_def bindT_Inr readT_Inr guardT_Inr writeT_Inr)
  have inv1: "seat_inv ?s1" using assms(1) by (rule seat_inv_delete)
  have same: "holds s' = holds ?s1 \<and> tickets s' = tickets ?s1 \<and> seats s' = seats ?s1"
    by (rule stock_loop [OF loop])
  then have "seat_inv s'" using inv1 by (blast intro: seat_inv_frameI)
  moreover have "free_seats (ga_specs (pl_ga pl) @ seat_specs (pl_seats pl)) ?s1"
  proof (rule free_specs)
    show "distinct (map s_id (pl_seats pl))" using assms(2) by (simp add: plan_seats_ok_def)
  next
    fix x assume "x \<in> s_id ` set (pl_seats pl)"
    then have "x \<in> set (pl_seatIds pl)" using assms(2) by (simp add: plan_seats_ok_def)
    then obtain h where "h \<in> set (holds s)" "my_live_hold clk pl h" "h_seatId h = x"
      using every_seat_held [OF assms(1) count] assms(2) by (auto simp: plan_seats_ok_def)
    with assms(1) show "\<not> seat_sold x ?s1 \<and> x \<notin> h_seatId ` set (holds ?s1)" by (rule consumed_free)
  qed
  ultimately show ?thesis using free_seats_frame [of s' ?s1] same by simp
qed

lemma issue_free_keeps:
  assumes "seat_inv s" and "free_seats (ga_specs (pl_ga pl) @ seat_specs (pl_seats pl)) s"
    and "issue_free clk pl i s = Inr (u, s')"
  shows "seat_inv s'"
proof -
  from issue_all_free [OF assms(1,2)] obtain s1 where
    1: "for_eachT (issue_ticket (db_now clk) i (pl_eventId pl) (pl_buyerEmail pl) (pl_buyerName pl))
      (ga_specs (pl_ga pl) @ seat_specs (pl_seats pl)) s = Inr ((), s1)" and "seat_inv s1" by metis
  have rest: "keepsT seat_inv (bindT (writeInTx (db_now clk) (Ticket_issued i)) (\<lambda>_.
     whenT (pl_seatIds pl \<noteq> []) (writeInTx (db_now clk) (Seats_sold (pl_eventId pl) (pl_seatIds pl)))))"
    by (intro keeps seat_rules)
  from assms(3) 1 show ?thesis
    unfolding issue_free_def by (subst (asm) bindT_def) (auto intro: keepsTD [OF rest \<open>seat_inv s1\<close>])
qed

lemma free_seats_ga: "seat_inv s \<Longrightarrow> free_seats (ga_specs its @ seat_specs []) s"
  by (rule free_specs) simp_all

lemma plan_seats_frame:
  "seats s' = seats s \<Longrightarrow> plan_seats_ok s' pl = plan_seats_ok s pl"
  by (simp add: plan_seats_ok_def)

lemma seat_create_tx:
  assumes "seat_inv s" and "plan_seats_ok s pl" and "create_tx clk pl s = Inr (i, s')"
  shows "seat_inv s'"
proof -
  let ?front = "bindT (for_eachT claim_ga (pl_ga pl)) (\<lambda>_. bindT fresh_id (\<lambda>orderId. bindT fresh_id (\<lambda>g.
     bindT (insert_order (new_order clk pl orderId g)) (\<lambda>_. returnT orderId))))"
  from assms(3) obtain j s1 u2 s2 u3 where 1: "?front s = Inr (j, s1)"
    and 2: "whenT (pl_seatIds pl \<noteq> [])
        (if requiresPayment pl then bind_holds clk pl j else consume_holds clk pl) s1 = Inr (u2, s2)"
    and 3: "whenT (\<not> requiresPayment pl) (issue_free clk pl j) s2 = Inr (u3, s')"
    unfolding create_tx_def bindT_Inr returnT_Inr by blast
  have "keepsT seat_inv ?front" by (intro keeps seat_rules)
  from keepsTD [OF this assms(1) 1] have inv1: "seat_inv s1" .
  have seat_tables: "keepsT (\<lambda>t. seats t = seats s) ?front"
    by (intro keeps) (auto simp: keepsT_def claim_ga_def Let_def fresh_id_Inr insert_order_Inr split: if_splits)
  have plan1: "plan_seats_ok s1 pl"
    using plan_seats_frame [OF keepsTD [OF seat_tables refl 1]] assms(2) by blast
  show ?thesis
  proof (cases "requiresPayment pl")
    case True
    with 2 inv1 have "seat_inv s2" by (auto simp: whenT_Inr dest: keepsTD [OF seat_bind_holds])
    with 3 True show ?thesis by (simp add: whenT_Inr)
  next
    case free: False
    then have issue: "issue_free clk pl j s2 = Inr (u3, s')" using 3 by (simp add: whenT_Inr)
    show ?thesis
    proof (cases "pl_seatIds pl = []")
      case True
      with plan1 have "pl_seats pl = []" by (simp add: plan_seats_ok_def)
      moreover have "s2 = s1" using 2 True by (simp add: whenT_Inr)
      ultimately show ?thesis using issue inv1 free_seats_ga [OF inv1] by (intro issue_free_keeps [OF _ _ issue]) simp_all
    next
      case False
      with 2 free have "consume_holds clk pl s1 = Inr (u2, s2)" by (simp add: whenT_Inr)
      from consume_holds_free [OF inv1 plan1 this] show ?thesis using issue by (blast intro: issue_free_keeps)
    qed
  qed
qed

text \<open>Fulfilling a paid order: the holds bound to it become tickets.\<close>

lemma fulfil_free:
  assumes "seat_inv s"
  shows "free_seats (ga_specs its @ seat_specs (filter (\<lambda>st. s_id st \<in> set (held_seat_ids i s)) (seats s)))
    (s\<lparr>holds := delete_where (\<lambda>h. h_orderId h = Some i) (holds s)\<rparr>)"
proof (rule free_specs)
  show "distinct (map s_id (filter (\<lambda>st. s_id st \<in> set (held_seat_ids i s)) (seats s)))"
    using assms by (simp add: seat_inv_def distinct_map_filter)
next
  fix x assume "x \<in> s_id ` set (filter (\<lambda>st. s_id st \<in> set (held_seat_ids i s)) (seats s))"
  then obtain h where "h \<in> set (holds s)" "h_orderId h = Some i" "h_seatId h = x"
    by (auto simp: held_seat_ids_def)
  with assms show "\<not> seat_sold x (s\<lparr>holds := delete_where (\<lambda>h. h_orderId h = Some i) (holds s)\<rparr>) \<and>
      x \<notin> h_seatId ` set (holds (s\<lparr>holds := delete_where (\<lambda>h. h_orderId h = Some i) (holds s)\<rparr>))"
    by (intro consumed_free) auto
qed

lemma writeInTx_eq: "writeInTx now p s = Inr ((), s\<lparr>next_id := Suc (next_id s), outboxEvents := outboxEvents s @
    [\<lparr>ob_id = next_id s, ob_payload = p, ob_attempts = 0, ob_createdAt = now, ob_processedAt = None\<rparr>]\<rparr>)"
  by (simp add: writeInTx_Inr)

lemma bindT_read: "bindT (readT g) f s = f (g s) s"
  by (simp add: bindT_def readT_def)

lemma bindT_write: "bindT (writeT g) f s = f () (g s)"
  by (simp add: bindT_def writeT_def)

definition fulfil_seats :: "id \<Rightarrow> db \<Rightarrow> seat list" where
  "fulfil_seats i s = filter (\<lambda>st. s_id st \<in> set (held_seat_ids i s)) (seats s)"

text \<open>The transaction from the point where the stock of the seats has been taken.\<close>

lemma fulfil_stages:
  fixes r :: order and s :: db
  defines "s1 \<equiv> s\<lparr>holds := delete_where (\<lambda>h. h_orderId h = Some (o_id r)) (holds s)\<rparr>"
  shows "fulfil_tx now r s =
    (case for_eachT (\<lambda>(tid, n). add_remaining tid (- n)) (tally (map s_ticketTypeId (fulfil_seats (o_id r) s))) s1 of
       Inl e \<Rightarrow> Inl e
     | Inr (u, s2) \<Rightarrow>
        bindT (for_eachT (issue_ticket now (o_id r) (o_eventId r) (o_buyerEmail r) (o_buyerName r))
                (ga_specs (filter (is_ga_item s1) (o_items r)) @ seat_specs (fulfil_seats (o_id r) s))) (\<lambda>_.
        bindT (writeInTx now (Ticket_issued (o_id r))) (\<lambda>_.
        bindT (writeInTx now (Order_updated (o_id r) Paid)) (\<lambda>_.
        whenT (held_seat_ids (o_id r) s \<noteq> [])
          (writeInTx now (Seats_sold (o_eventId r) (held_seat_ids (o_id r) s)))))) s2)"
  unfolding fulfil_tx_def bindT_read bindT_write fulfil_seats_def s1_def
  by (subst bindT_def) (simp split: sum.split)

lemma seat_fulfil:
  assumes "seat_inv s" and "fulfil_tx now r s = Inr (u, s')"
  shows "seat_inv s'"
proof -
  let ?s1 = "s\<lparr>holds := delete_where (\<lambda>h. h_orderId h = Some (o_id r)) (holds s)\<rparr>"
  let ?sps = "ga_specs (filter (is_ga_item ?s1) (o_items r)) @ seat_specs (fulfil_seats (o_id r) s)"
  let ?rest = "bindT (writeInTx now (Ticket_issued (o_id r))) (\<lambda>_.
        bindT (writeInTx now (Order_updated (o_id r) Paid)) (\<lambda>_.
        whenT (held_seat_ids (o_id r) s \<noteq> [])
          (writeInTx now (Seats_sold (o_eventId r) (held_seat_ids (o_id r) s)))))"
  from assms(2) obtain u2 s2 where
    loop: "for_eachT (\<lambda>(tid, n). add_remaining tid (- n)) (tally (map s_ticketTypeId (fulfil_seats (o_id r) s))) ?s1
      = Inr (u2, s2)"
    and issue: "bindT (for_eachT (issue_ticket now (o_id r) (o_eventId r) (o_buyerEmail r) (o_buyerName r)) ?sps)
      (\<lambda>_. ?rest) s2 = Inr (u, s')"
    unfolding fulfil_stages by (auto split: sum.splits)
  have same: "holds s2 = holds ?s1 \<and> tickets s2 = tickets ?s1 \<and> seats s2 = seats ?s1"
    by (rule stock_pairs [OF loop])
  have "seat_inv ?s1" using assms(1) by (rule seat_inv_delete)
  with same have inv2: "seat_inv s2" by (blast intro: seat_inv_frameI)
  have "free_seats ?sps s2"
    using fulfil_free [OF assms(1)] same free_seats_frame [of s2 ?s1] by (simp add: fulfil_seats_def)
  from issue_all_free [OF inv2 this, of now "o_id r" "o_eventId r" "o_buyerEmail r" "o_buyerName r"]
  obtain s3 where 3: "for_eachT (issue_ticket now (o_id r) (o_eventId r) (o_buyerEmail r) (o_buyerName r)) ?sps s2
      = Inr ((), s3)" "seat_inv s3" by metis
  have "keepsT seat_inv ?rest" by (intro keeps seat_rules)
  note rest = keepsTD [OF this 3(2)]
  from issue 3(1) show ?thesis by (subst (asm) bindT_def) (auto intro: rest)
qed

text \<open>The transaction can still fail, but never on the unique index of the seats.\<close>

lemma add_remaining_error:
  "for_eachT (\<lambda>(tid, n). add_remaining tid (f n)) ms s = Inl e \<Longrightarrow> e = Prisma P2025 \<or> e = Prisma Check_violation"
  by (induction ms arbitrary: s) (auto simp: add_remaining_def split: option.splits if_splits sum.splits)

lemma fulfil_no_P2002:
  assumes "seat_inv s"
  shows "fulfil_tx now r s \<noteq> Inl (Prisma P2002)"
proof
  assume bad: "fulfil_tx now r s = Inl (Prisma P2002)"
  let ?s1 = "s\<lparr>holds := delete_where (\<lambda>h. h_orderId h = Some (o_id r)) (holds s)\<rparr>"
  let ?sps = "ga_specs (filter (is_ga_item ?s1) (o_items r)) @ seat_specs (fulfil_seats (o_id r) s)"
  show False
  proof (cases "for_eachT (\<lambda>(tid, n). add_remaining tid (- n))
      (tally (map s_ticketTypeId (fulfil_seats (o_id r) s))) ?s1")
    case (Inl e)
    with bad add_remaining_error [OF Inl] show False by (simp add: fulfil_stages)
  next
    case (Inr p)
    obtain u2 s2 where p: "p = (u2, s2)" by (cases p)
    with Inr have loop: "for_eachT (\<lambda>(tid, n). add_remaining tid (- n))
        (tally (map s_ticketTypeId (fulfil_seats (o_id r) s))) ?s1 = Inr (u2, s2)" by simp
    have same: "holds s2 = holds ?s1 \<and> tickets s2 = tickets ?s1 \<and> seats s2 = seats ?s1"
      by (rule stock_pairs [OF loop])
    have "seat_inv ?s1" using assms by (rule seat_inv_delete)
    with same have inv2: "seat_inv s2" by (blast intro: seat_inv_frameI)
    have "free_seats ?sps s2"
      using fulfil_free [OF assms] same free_seats_frame [of s2 ?s1] by (simp add: fulfil_seats_def)
    from issue_all_free [OF inv2 this, of now "o_id r" "o_eventId r" "o_buyerEmail r" "o_buyerName r"]
    obtain s3 where "for_eachT (issue_ticket now (o_id r) (o_eventId r) (o_buyerEmail r) (o_buyerName r)) ?sps s2
        = Inr ((), s3)" by metis
    with bad loop show False
      by (simp add: fulfil_stages bindT_def writeInTx_eq whenT_def split: if_splits)
  qed
qed

lemma seat_succeeded: "keepsT seat_inv (succeeded_tx now intent)"
proof (unfold keepsT_def, intro allI impI)
  fix s a s' assume ok: "seat_inv s" and run: "succeeded_tx now intent s = Inr (a, s')"
  let ?s1 = "set_payment intent P_succeeded s"
  have frames: "seat_inv (set_payment i st q) = seat_inv q" "seat_inv (claim_paid j q) = seat_inv q" for i st j q
    by (rule seat_inv_frame, simp_all add: set_payment_def claim_paid_def)+
  show "seat_inv s'"
  proof (cases "find_payment intent s")
    case None
    with run ok show ?thesis by (simp add: succeeded_tx_def tx_simps)
  next
    case (Some p)
    from run Some consider (same) "s' = ?s1" | (claimed) "s' = claim_paid (p_orderId p) ?s1"
      | (fulfilled) r u where "fulfil_tx now r (claim_paid (p_orderId p) ?s1) = Inr (u, s')"
      by (auto simp: succeeded_tx_def tx_simps split: option.splits if_splits)
    then show ?thesis
    proof cases
      case fulfilled
      then show ?thesis using seat_fulfil ok frames by metis
    qed (simp_all add: frames ok)
  qed
qed

lemma seat_release: "keepsT seat_inv (releaseOrderInventoryInTx now i st)"
  unfolding releaseOrderInventoryInTx_def release_seats_def
  by (intro keeps seat_rules seat_write | simp only: split: if_split | intro conjI impI | simp)+

lemma seat_failed: "keepsT seat_inv (failed_tx now intent)"
  unfolding failed_tx_def
  by (intro keeps seat_release seat_write
      | simp only: split: if_split option.split | intro conjI impI allI | simp add: set_payment_def)+

lemma seat_settle: "keepsT seat_inv (settleInTx now i x)"
  unfolding settleInTx_def
  by (intro keeps seat_rules seat_write
      | simp only: split: if_split | intro conjI impI | simp add: add_refunded_def set_status_def)+

lemma seat_refunded: "keepsT seat_inv (refunded_tx clk rid prov)"
  unfolding refunded_tx_def
  by (intro keeps seat_settle seat_write | simp only: split: if_split | intro conjI impI | simp)+

lemma seat_void: "keepsT seat_inv (void_tickets rp rid)"
proof -
  have "keepsT seat_inv (writeT (\<lambda>s. s\<lparr>tickets := update_where (voidable rp) (void_ticket rid) (tickets s)\<rparr>))"
    by (auto simp: keepsT_def writeT_Inr void_ticket_def live_def intro!: seat_inv_update_tickets)
  then show ?thesis unfolding void_tickets_def by (intro keeps)
qed

lemma seat_refund_tx: "keepsT seat_inv (refund_tx clk rp)"
  unfolding refund_tx_def announce_refund_def
  by (intro keeps seat_rules seat_void seat_settle
      | simp only: split: if_split prod.split | intro conjI impI allI)+

lemma seat_money_leg:
  "keepsT seat_inv (set_provider_refund rid prov)" "keepsT seat_inv (fail_refund rid)"
  "keepsT seat_inv (reopen_refund rid)" "keepsT seat_inv (compensation_tx clk i x)"
  by (auto simp: keepsT_def set_provider_refund_def fail_refund_def reopen_refund_def
      compensation_tx_def tx_simps elim!: seat_inv_frameI split: option.splits)

lemma seat_admit: "keepsT seat_inv (admit_tx now i)"
  by (auto simp: keepsT_def admit_tx_def admit_def admissible_def live_def intro!: seat_inv_update_tickets)

lemma seat_refresh: "keepsT seat_inv (refresh_tx i x)"
  by (auto simp: keepsT_def refresh_tx_def Let_def split: option.splits intro!: seat_inv_update_holds)

lemma seat_sweep: "keepsT seat_inv (sweep_tx now)"
  by (simp add: keepsT_def sweep_tx_def seat_inv_delete)

text \<open>Taking a seat that the controller found on sale.\<close>

lemma seat_acquire:
  assumes "seat_inv s" and "st \<in> set (seats s)" and "s_id st = seat" and "s_eventId st = ev"
    and "acquire_tx clk ev seat key x s = Inr (n, s')"
  shows "seat_inv s'"
proof -
  have "hold_inv s" using assms(1) by (simp add: hold_inv_def seat_inv_def)
  from keepsTD [OF acquire_tx_inv this assms(5)] have "holds_unique s'" "holds_free s'"
    by (simp_all add: hold_inv_def)
  moreover have "seats s' = seats s" "tickets s' = tickets s"
    and "\<forall>h \<in> set (holds s'). h \<in> set (holds s) \<or> h_seatId h = seat \<and> h_eventId h = ev"
    using assms(5) by (auto simp: acquire_tx_Inr Let_def drop_expired_def row_simps split: if_splits)
  ultimately show ?thesis using assms(1-4) unfolding seat_inv_def seats_single_def by metis
qed

lemma seat_updateTicketType: "keepsT seat_inv (updateTicketType_tx ev tid d)"
  by (auto simp: keepsT_def updateTicketType_tx_def write_ticket_type_def tx_simps
      shift_remaining_def Let_def elim!: seat_inv_frameI split: sum.splits if_splits)

end
