(* ===== verification/Plans.thy ===== *)
theory Plans
  imports Exclusion
begin

text \<open>
  What the reads before a transaction establish, in the terms its transaction needs: an accepted
  order plan is a \<open>plan_ok\<close> plan, an accepted refund plan is \<open>refund_plan_ok\<close>.
\<close>

section \<open>Seat groups\<close>

definition group_qty :: "id \<Rightarrow> (id \<times> int \<times> satang) list \<Rightarrow> int" where
  "group_qty t m = (case map_of m t of None \<Rightarrow> 0 | Some g \<Rightarrow> fst g)"

lemma distinct_group_seat: "distinct (map fst m) \<Longrightarrow> distinct (map fst (group_seat price st m))"
  by (auto simp: group_seat_def Let_def distinct_update split: prod.split option.splits)

lemma group_qty_seat: "group_qty t (group_seat price st m) = group_qty t m + (if s_ticketTypeId st = t then 1 else 0)"
  by (auto simp: group_qty_def group_seat_def map_of_alist_update split: option.splits)

lemma group_keys: "fst ` set (group_seat price st m) = insert (s_ticketTypeId st) (fst ` set m)"
  by (auto simp: group_seat_def dom_map_of_conv_image_fst [symmetric] map_of_alist_update split: option.splits)

lemma fold_groups:
  assumes "distinct (map fst m)"
  shows "distinct (map fst (fold (group_seat price) sts m))"
    and "group_qty t (fold (group_seat price) sts m) = group_qty t m + seats_of t sts"
    and "fst ` set (fold (group_seat price) sts m) = fst ` set m \<union> s_ticketTypeId ` set sts"
  using assms
proof (induction sts arbitrary: m)
  case Nil
  {
    case 1 then show ?case by simp
  next
    case 2 then show ?case by (simp add: seats_of_def)
  next
    case 3 then show ?case by simp
  }
next
  case (Cons st sts)
  {
    case 1 then show ?case by (simp add: Cons.IH(1) distinct_group_seat)
  next
    case 2 then show ?case
      by (simp add: Cons.IH(2) distinct_group_seat group_qty_seat seats_of_def)
  next
    case 3 then show ?case by (simp add: Cons.IH(3) distinct_group_seat group_keys)
  }
qed

lemma group_qty_items:
  "distinct (map fst m) \<Longrightarrow> items_qty t (map item_of_group m) = group_qty t m"
proof (induction m)
  case Nil
  then show ?case by (simp add: items_qty_def group_qty_def)
next
  case (Cons g m)
  obtain k n p where g: "g = (k, n, p)" by (cases g)
  have "map_of m k = None" using Cons.prems by (simp add: g map_of_eq_None_iff)
  with Cons show ?case by (auto simp: items_qty_def group_qty_def g item_of_group_def)
qed

lemma seats_of_nonneg: "0 \<le> seats_of t sts"
  unfolding seats_of_def by (rule sum_by_nonneg) simp

lemma seat_groups_ok:
  "items_qty t (map item_of_group (seat_groups price sts)) = seats_of t sts"
  "it \<in> set (map item_of_group (seat_groups price sts)) \<Longrightarrow>
     0 \<le> i_quantity it \<and> i_ticketTypeId it \<in> s_ticketTypeId ` set sts"
proof -
  note f = fold_groups [where m = "[]" and price = price and sts = sts, simplified]
  show "items_qty t (map item_of_group (seat_groups price sts)) = seats_of t sts"
    by (simp add: seat_groups_def group_qty_items f group_qty_def [of t "[]"])
  assume "it \<in> set (map item_of_group (seat_groups price sts))"
  then obtain k n p where g: "(k, n, p) \<in> set (seat_groups price sts)"
      and it: "it = \<lparr>i_ticketTypeId = k, i_quantity = n, i_unitPriceSatang = p\<rparr>"
    by (auto simp: item_of_group_def)
  from g f(1) have "map_of (seat_groups price sts) k = Some (n, p)"
    by (simp add: seat_groups_def)
  then have "n = seats_of k sts"
    using f(2) [of k] by (simp add: group_qty_def seat_groups_def)
  moreover have "k \<in> s_ticketTypeId ` set sts" using g f(3) by (force simp: seat_groups_def)
  ultimately show "0 \<le> i_quantity it \<and> i_ticketTypeId it \<in> s_ticketTypeId ` set sts"
    by (simp add: it seats_of_nonneg)
qed

section \<open>Order plans\<close>

lemma find_type_kind:
  assumes "ids_ok s" and "find_type i (filter (\<lambda>tt. tt_eventId tt = ev) (ticketTypes s)) = Some tt"
  shows "kind_of i s = Some (tt_kind tt)"
proof -
  from find_SomeD [OF assms(2) [unfolded find_type_def]]
  have "tt \<in> set (ticketTypes s)" "tt_id tt = i" by simp_all
  then have "find_ticket_type i s = Some tt"
    using assms(1) find_key [of tt_id "ticketTypes s" tt] by (simp add: find_ticket_type_def ids_ok_def)
  then show ?thesis by (simp add: kind_of_def)
qed

lemma check_items_ok:
  "check_items types seen its = Inr u \<Longrightarrow> it \<in> set its \<Longrightarrow>
     \<exists>tt. find_type (oi_ticketTypeId it) types = Some tt \<and> tt_kind tt = Ga \<and> oi_quantity it \<le> tt_maxPerOrder tt"
  by (induction types seen its rule: check_items.induct) (auto split: option.splits if_splits)

lemma check_items_distinct:
  "check_items types seen its = Inr u \<Longrightarrow>
     distinct (map oi_ticketTypeId its) \<and> set (map oi_ticketTypeId its) \<inter> set seen = {}"
  by (induction types seen its rule: check_items.induct) (auto split: option.splits if_splits)

definition dto_items :: "create_order_dto \<Rightarrow> order_item_input list" where
  "dto_items dto = (case d_items dto of None \<Rightarrow> [] | Some its \<Rightarrow> its)"

definition dto_seats :: "create_order_dto \<Rightarrow> id list" where
  "dto_seats dto = js_set (case d_seatIds dto of None \<Rightarrow> [] | Some xs \<Rightarrow> xs)"

lemma plan_orderE:
  assumes "plan_order clk dto cp s = Inr pl"
  obtains "check_items (filter (\<lambda>tt. tt_eventId tt = cp_eventId cp) (ticketTypes s)) [] (dto_items dto) = Inr ()"
    and "pl_eventId pl = cp_eventId cp"
    and "pl_ga pl = map (item_of_input (filter (\<lambda>tt. tt_eventId tt = cp_eventId cp) (ticketTypes s))) (dto_items dto)"
    and "pl_seatIds pl = dto_seats dto"
    and "pl_seats pl = (if dto_seats dto = [] then []
        else filter (\<lambda>st. s_id st \<in> set (dto_seats dto) \<and> s_eventId st = cp_eventId cp) (seats s))"
    and "length (pl_seats pl) = length (pl_seatIds pl)"
    and "pl_groups pl = map item_of_group (seat_groups (seat_price s) (pl_seats pl))"
    and "pl_total pl = sum_by item_total (pl_ga pl) + sum_by (\<lambda>st. seat_price s (s_ticketTypeId st)) (pl_seats pl)"
    and "pl_key pl = cp_idempotencyKey cp"
  using assms
  by (auto simp: plan_order_def Let_def dto_items_def [symmetric] dto_seats_def [symmetric]
      split: option.splits sum.splits if_splits)

text \<open>A request that passed validation asks for a positive number of each item.\<close>

lemma valid_items: "valid_order_dto is_email dto \<Longrightarrow> it \<in> set (dto_items dto) \<Longrightarrow> 1 \<le> oi_quantity it \<and> oi_quantity it \<le> 20"
  by (auto simp: valid_order_dto_def dto_items_def valid_order_item_def list_all_iff split: option.splits)

lemma plan_order_ok:
  assumes plan: "plan_order clk dto cp s = Inr pl" and valid: "valid_order_dto is_email dto"
    and ids: "ids_ok s" and refs: "refs (\<lambda>t. kind_of t s) X S s" and seat: "distinct (map s_id (seats s))"
  shows "plan_ok s pl" and "plan_refs (\<lambda>t. kind_of t s) S pl" and "plan_seats_ok s pl"
proof -
  from plan show ok: "plan_ok s pl"
  proof (rule plan_orderE)
    assume check: "check_items (filter (\<lambda>tt. tt_eventId tt = cp_eventId cp) (ticketTypes s)) [] (dto_items dto) = Inr ()"
      and ga: "pl_ga pl = map (item_of_input (filter (\<lambda>tt. tt_eventId tt = cp_eventId cp) (ticketTypes s))) (dto_items dto)"
      and sts: "pl_seats pl = (if dto_seats dto = [] then []
        else filter (\<lambda>st. s_id st \<in> set (dto_seats dto) \<and> s_eventId st = cp_eventId cp) (seats s))"
      and len: "length (pl_seats pl) = length (pl_seatIds pl)"
      and groups: "pl_groups pl = map item_of_group (seat_groups (seat_price s) (pl_seats pl))"
    have "0 \<le> i_quantity it \<and> kind_of (i_ticketTypeId it) s = Some Ga" if "it \<in> set (pl_ga pl)" for it
    proof -
      from that ga obtain inp where inp: "inp \<in> set (dto_items dto)"
          "i_ticketTypeId it = oi_ticketTypeId inp" "i_quantity it = oi_quantity inp"
        by (auto simp: item_of_input_def)
      with check_items_ok [OF check inp(1)] find_type_kind [OF ids] valid_items [OF valid inp(1)]
      show ?thesis by auto
    qed
    moreover have "0 \<le> i_quantity g \<and> kind_of (i_ticketTypeId g) s = Some Seated" if "g \<in> set (pl_groups pl)" for g
    proof -
      from seat_groups_ok(2) [OF that [unfolded groups]] obtain st where
        "0 \<le> i_quantity g" "st \<in> set (pl_seats pl)" "i_ticketTypeId g = s_ticketTypeId st" by auto
      moreover from this sts have "st \<in> set (seats s)" by (auto split: if_splits)
      ultimately show ?thesis using refs by (auto simp: refs_def)
    qed
    ultimately show ?thesis using len by (simp add: plan_ok_def groups seat_groups_ok(1))
  qed
  show "plan_refs (\<lambda>t. kind_of t s) S pl"
    using plan ok refs by (auto elim!: plan_orderE simp: plan_ok_def plan_refs_def refs_def split: if_splits)
  from plan show "plan_seats_ok s pl"
  proof (rule plan_orderE)
    assume ids: "pl_seatIds pl = dto_seats dto"
      and sts: "pl_seats pl = (if dto_seats dto = [] then []
        else filter (\<lambda>st. s_id st \<in> set (dto_seats dto) \<and> s_eventId st = cp_eventId cp) (seats s))"
      and len: "length (pl_seats pl) = length (pl_seatIds pl)"
    have d: "distinct (map s_id (pl_seats pl))" using seat by (auto simp: sts distinct_map_filter)
    have di: "distinct (pl_seatIds pl)" by (simp add: ids dto_seats_def)
    have "set (map s_id (pl_seats pl)) \<subseteq> set (pl_seatIds pl)" by (auto simp: sts ids)
    from distinct_subset_mset [OF d di this] len d di show ?thesis
      by (auto simp: plan_seats_ok_def sts)
  qed
qed

section \<open>Refund plans\<close>

lemma plan_refund_ok:
  assumes plan: "plan_refund ri s = Inr rp" and ids: "ids_ok s"
  shows "refund_plan_ok s rp"
proof -
  from plan obtain r where r: "List.find (\<lambda>r. o_id r = ri_orderId ri \<and> o_eventId r = ri_eventId ri) (orders s) = Some r"
    and ts: "rp_tickets rp = filter (\<lambda>t. t_orderId t = o_id r \<and> t_id t \<in> set (ri_ticketIds ri)) (tickets s)"
    and len: "length (rp_tickets rp) = length (rp_ticketIds rp)"
    and tids: "rp_ticketIds rp = ri_ticketIds ri" and ord: "rp_orderId rp = ri_orderId ri"
    by (auto simp: plan_refund_def Let_def split: option.splits if_splits)
  from find_SomeD [OF r] have oid: "o_id r = rp_orderId rp" by (simp add: ord)
  have d: "distinct (map t_id (rp_tickets rp))" using ids by (simp add: ts ids_ok_def distinct_map_filter)
  have sub: "set (map t_id (rp_tickets rp)) \<subseteq> set (rp_ticketIds rp)" by (auto simp: ts tids)
  have "set (map t_id (rp_tickets rp)) = set (rp_ticketIds rp)"
  proof (rule card_subset_eq [OF _ sub])
    have "card (set (rp_ticketIds rp)) \<le> length (rp_ticketIds rp)" by (rule card_length)
    moreover have "card (set (map t_id (rp_tickets rp))) = length (rp_tickets rp)"
      using d distinct_card by fastforce
    moreover have "card (set (map t_id (rp_tickets rp))) \<le> card (set (rp_ticketIds rp))"
      using sub by (intro card_mono) simp_all
    ultimately show "card (set (map t_id (rp_tickets rp))) = card (set (rp_ticketIds rp))" using len by simp
  qed simp
  with d len oid show ?thesis by (auto simp: refund_plan_ok_def ts)
qed

end
