(* ===== verification/System.thy ===== *)
theory System
  imports Plans
begin

text \<open>
  The service as a whole: the shared database and what concurrent requests have read from it.
  One step is one committed transaction, in any order, by any request; a request that computed an
  order plan, a refund plan or found a seat on sale may execute its transaction at any later
  moment, when the database has moved on. Steps that fail change nothing and are not listed.
\<close>

record system =
  y_db :: db
  y_plans :: "order_plan list"
  y_refunds :: "refund_plan list"
  y_taps :: "(id \<times> id) list"

definition sys_start :: "system \<Rightarrow> bool" where
  "sys_start y \<longleftrightarrow> y_db y = empty_db \<and> y_plans y = [] \<and> y_refunds y = [] \<and> y_taps y = []"

text \<open>Writes to the tables of accounts and teams, which the sale does not read.\<close>

definition elsewhere :: "db \<Rightarrow> db \<Rightarrow> bool" where
  "elsewhere s s' \<longleftrightarrow> next_id s \<le> next_id s' \<and>
     s' = s\<lparr>users := users s', refreshTokens := refreshTokens s', teamMembers := teamMembers s',
            webhookEvents := webhookEvents s', payments := payments s', outboxEvents := outboxEvents s',
            events := events s', seatMaps := seatMaps s', next_id := next_id s'\<rparr>"

text \<open>The transactions that need nothing but the database.\<close>

inductive tx_step :: "db \<Rightarrow> db \<Rightarrow> bool" where
  refresh: "refresh_tx i x s = Inr (h, s') \<Longrightarrow> tx_step s s'"
| unhold: "tx_step s (s\<lparr>holds := delete_where
     (\<lambda>h. h_eventId h = ev \<and> h_seatId h = seat \<and> h_holderKey h = key \<and> h_orderId h = None) (holds s)\<rparr>)"
| sweep: "sweep_tx now s = Inr (xs, s') \<Longrightarrow> tx_step s s'"
| release: "st = Expired \<or> st = Canceled \<Longrightarrow> releaseOrderInventoryInTx now i st s = Inr (b, s') \<Longrightarrow> tx_step s s'"
| paid: "succeeded_tx now intent s = Inr (out, s') \<Longrightarrow> tx_step s s'"
| unpaid: "failed_tx now intent s = Inr (u, s') \<Longrightarrow> tx_step s s'"
| refunded: "refunded_tx clk rid prov s = Inr (b, s') \<Longrightarrow> tx_step s s'"
| leg_sent: "set_provider_refund rid ref s = Inr (u, s') \<Longrightarrow> tx_step s s'"
| leg_failed: "fail_refund rid s = Inr (u, s') \<Longrightarrow> tx_step s s'"
| reopened: "reopen_refund rid s = Inr (n, s') \<Longrightarrow> tx_step s s'"
| compensated: "compensation_tx clk i x s = Inr (rid, s') \<Longrightarrow> tx_step s s'"
| admitted: "admit_tx now i s = Inr (n, s') \<Longrightarrow> tx_step s s'"
| type_changed: "updateTicketType_tx ev tid d s = Inr (tt, s') \<Longrightarrow> tx_step s s'"
| type_added: "valid_ticket_type d \<Longrightarrow> insert_ticket_type now ev d s = Inr (u, s') \<Longrightarrow> tx_step s s'"
| map_created: "create_map_tx now ev ds s = Inr (m, s') \<Longrightarrow> tx_step s s'"
| other: "elsewhere s s' \<Longrightarrow> tx_step s s'"

inductive sys_step :: "system \<Rightarrow> system \<Rightarrow> bool" where
  tx: "tx_step (y_db y) s' \<Longrightarrow> sys_step y (y\<lparr>y_db := s'\<rparr>)"
| read_order: "valid_order_dto is_email dto \<Longrightarrow> plan_order clk dto cp (y_db y) = Inr pl \<Longrightarrow>
    sys_step y (y\<lparr>y_plans := pl # y_plans y\<rparr>)"
| place: "pl \<in> set (y_plans y) \<Longrightarrow> create_tx clk pl (y_db y) = Inr (i, s') \<Longrightarrow>
    sys_step y (y\<lparr>y_db := s'\<rparr>)"
| read_refund: "plan_refund ri (y_db y) = Inr rp \<Longrightarrow>
    sys_step y (y\<lparr>y_refunds := rp # y_refunds y\<rparr>)"
| refund: "rp \<in> set (y_refunds y) \<Longrightarrow> refund_tx clk rp (y_db y) = Inr (rid, s') \<Longrightarrow>
    sys_step y (y\<lparr>y_db := s'\<rparr>)"
| tap: "seat_on_sale ev seat (y_db y) \<noteq> None \<Longrightarrow> sys_step y (y\<lparr>y_taps := (ev, seat) # y_taps y\<rparr>)"
| acquire: "(ev, seat) \<in> set (y_taps y) \<Longrightarrow> acquire_tx clk ev seat key x (y_db y) = Inr (n, s') \<Longrightarrow>
    sys_step y (y\<lparr>y_db := s'\<rparr>)"

inductive_cases sys_stepE: "sys_step y z"

section \<open>The invariant\<close>

definition core :: "db \<Rightarrow> bool" where
  "core s \<longleftrightarrow> ids_ok s \<and> stock_balanced s \<and> refs (\<lambda>t. kind_of t s) {} (seats s) s \<and> seat_inv s \<and>
     (\<forall>st \<in> set (seats s). s_id st < next_id s)"

text \<open>What a plan may count on: kinds, seats and tickets do not go away.\<close>

definition grows :: "db \<Rightarrow> db \<Rightarrow> bool" where
  "grows s s' \<longleftrightarrow> (\<forall>t k. kind_of t s = Some k \<longrightarrow> kind_of t s' = Some k) \<and>
     set (seats s) \<subseteq> set (seats s') \<and> ticket_key ` set (tickets s) \<subseteq> ticket_key ` set (tickets s')"

definition sys_inv :: "system \<Rightarrow> bool" where
  "sys_inv y \<longleftrightarrow> core (y_db y) \<and>
     (\<forall>pl \<in> set (y_plans y). plan_ok (y_db y) pl \<and>
        plan_refs (\<lambda>t. kind_of t (y_db y)) (seats (y_db y)) pl \<and> plan_seats_ok (y_db y) pl) \<and>
     (\<forall>rp \<in> set (y_refunds y). refund_plan_ok (y_db y) rp) \<and>
     (\<forall>(ev, seat) \<in> set (y_taps y). \<exists>st \<in> set (seats (y_db y)). s_id st = seat \<and> s_eventId st = ev)"

lemma grows_refl [simp]: "grows s s"
  by (simp add: grows_def)

lemma grows_trans: "grows s t \<Longrightarrow> grows t u \<Longrightarrow> grows s u"
  unfolding grows_def by (meson order_trans)

lemma plans_grow:
  assumes "grows s s'"
  shows "plan_ok s pl \<Longrightarrow> plan_ok s' pl"
    and "plan_refs (\<lambda>t. kind_of t s) (seats s) pl \<Longrightarrow> plan_refs (\<lambda>t. kind_of t s') (seats s') pl"
    and "plan_seats_ok s pl \<Longrightarrow> plan_seats_ok s' pl"
    and "refund_plan_ok s rp \<Longrightarrow> refund_plan_ok s' rp"
proof -
  show "plan_ok s pl \<Longrightarrow> plan_ok s' pl" using assms by (auto simp: grows_def plan_ok_def)
  show "plan_refs (\<lambda>t. kind_of t s) (seats s) pl \<Longrightarrow> plan_refs (\<lambda>t. kind_of t s') (seats s') pl"
    using assms by (auto simp: grows_def plan_refs_def)
  show "plan_seats_ok s pl \<Longrightarrow> plan_seats_ok s' pl" using assms by (auto simp: grows_def plan_seats_ok_def)
  show "refund_plan_ok s rp \<Longrightarrow> refund_plan_ok s' rp"
    using assms unfolding grows_def refund_plan_ok_def by (meson order_trans)
qed

lemma sys_inv_grows:
  assumes "sys_inv y" and "core s'" and "grows (y_db y) s'"
  shows "sys_inv (y\<lparr>y_db := s'\<rparr>)"
proof -
  have "set (seats (y_db y)) \<subseteq> set (seats s')" using assms(3) by (simp add: grows_def)
  with assms(1,2) show ?thesis
    using plans_grow [OF assms(3)] by (fastforce simp: sys_inv_def)
qed

text \<open>A transaction that keeps the three invariants is safe.\<close>

lemma safe_tx:
  assumes "core s" and "moves s s' (\<lambda>_. 0)" and "\<And>K X S. refs K X S s \<Longrightarrow> refs K X S s'" and "seat_inv s'"
  shows "core s' \<and> grows s s'"
proof -
  have ids: "ids_ok s" using assms(1) by (simp add: core_def)
  with assms(2) have m: "ids_ok s'" "next_id s \<le> next_id s'" "\<And>t. kind_of t s' = kind_of t s"
      "\<And>t. bal t s' = bal t s"
    by (simp_all add: moves_def)
  have "refs (\<lambda>t. kind_of t s) (ticket_key ` set (tickets s)) (seats s) s"
    using assms(1) by (simp add: core_def refs_def)
  from assms(3) [OF this] have r: "refs (\<lambda>t. kind_of t s) (ticket_key ` set (tickets s)) (seats s) s'" .
  then have "seats s' = seats s" by (simp add: refs_def)
  with r m assms(1,4) show ?thesis
    by (fastforce simp: core_def grows_def refs_def stock_balanced_def)
qed

lemma safe_conserving:
  assumes "conserves m" and "\<And>K X S. keepsT (refs K X S) m" and "keepsT seat_inv m"
    and "core s" and "m s = Inr (a, s')"
  shows "core s' \<and> grows s s'"
  using assms(4) conservesD [OF assms(1,5)] keepsTD [OF assms(2) _ assms(5)] keepsTD [OF assms(3) _ assms(5)]
  by (intro safe_tx) (simp_all add: core_def)

lemma core_items_nonneg: "core s \<Longrightarrow> items_nonneg s"
  by (auto simp: core_def refs_def items_nonneg_def)

section \<open>New ticket types and seats\<close>

lemma kind_of_bound: "ids_ok s \<Longrightarrow> kind_of t s \<noteq> None \<Longrightarrow> t < next_id s"
  by (auto simp: kind_of_def find_ticket_type_def ids_ok_def dest!: find_SomeD)

lemma kind_of_append:
  "kind_of t (s\<lparr>ticketTypes := ticketTypes s @ [tt]\<rparr>) =
     (if kind_of t s \<noteq> None then kind_of t s else if tt_id tt = t then Some (tt_kind tt) else None)"
  by (auto simp: kind_of_def find_ticket_type_def find_append split: option.splits)

lemma new_type_balance:
  assumes core: "core s" and new: "tt_id tt = next_id s" "tt_remaining tt = tt_quantity tt"
    and kind: "\<And>t. kind_of t (s\<lparr>next_id := Suc (next_id s), ticketTypes := ticketTypes s @ [tt]\<rparr>) =
      (if t = next_id s then Some (tt_kind tt) else kind_of t s)" and old: "kind_of (next_id s) s = None"
  shows "bal t (s\<lparr>next_id := Suc (next_id s), ticketTypes := ticketTypes s @ [tt]\<rparr>) = 0"
proof (cases "t = next_id s")
  case False
  then have "bal t (s\<lparr>next_id := Suc (next_id s), ticketTypes := ticketTypes s @ [tt]\<rparr>) = bal t s"
    using kind [of t] new(1) by (simp add: bal_def reserved_def rem_of_def qty_of_def)
  with core show ?thesis by (simp add: core_def stock_balanced_def)
next
  case True
  have ids: "ids_ok s" and refs: "refs (\<lambda>t. kind_of t s) {} (seats s) s" using core by (simp_all add: core_def)
  have "rem_of t (ticketTypes s) = 0" "qty_of t (ticketTypes s) = 0"
    unfolding rem_of_def qty_of_def using ids True by (auto simp: ids_ok_def intro!: sum_by_zero)
  moreover have "live_of t (tickets s) = 0"
    unfolding live_of_def using refs_tier [OF refs] True old by (intro sum_by_zero) fastforce
  moreover have "items_qty t (o_items r) = 0" if "r \<in> set (orders s)" for r
    unfolding items_qty_def using refs True old that by (intro sum_by_zero) (fastforce simp: refs_def)
  then have "awaiting_qty t (orders s) = 0"
    unfolding awaiting_qty_def by (intro sum_by_zero) simp
  ultimately show ?thesis using True new
    by (simp add: bal_def reserved_def rem_of_def qty_of_def)
qed

lemma new_type_safe:
  assumes core: "core s" and new: "tt_id tt = next_id s" "tt_remaining tt = tt_quantity tt" "0 \<le> tt_quantity tt"
  shows "core (s\<lparr>next_id := Suc (next_id s), ticketTypes := ticketTypes s @ [tt]\<rparr>) \<and>
    grows s (s\<lparr>next_id := Suc (next_id s), ticketTypes := ticketTypes s @ [tt]\<rparr>)"
proof -
  let ?s = "s\<lparr>next_id := Suc (next_id s), ticketTypes := ticketTypes s @ [tt]\<rparr>"
  have ids: "ids_ok s" and refs: "refs (\<lambda>t. kind_of t s) {} (seats s) s" using core by (simp_all add: core_def)
  have old: "kind_of (next_id s) s = None"
    using kind_of_bound [OF ids, of "next_id s"] by (cases "kind_of (next_id s) s") auto
  have kind: "kind_of t ?s = (if t = next_id s then Some (tt_kind tt) else kind_of t s)" for t
    using kind_of_append [of t "s\<lparr>next_id := Suc (next_id s)\<rparr>" tt] old new(1) by simp
  have ids': "ids_ok ?s" using ids new by (auto simp: ids_ok_def less_SucI)
  note new_type_balance [OF core new(1,2) kind old]
  moreover have "refs (\<lambda>t. kind_of t ?s) {} (seats ?s) ?s"
  proof -
    have typed: "typed (\<lambda>t. kind_of t ?s) (seats s) t x" if "typed (\<lambda>t. kind_of t s) (seats s) t x" for t x
      using that old by (cases x) (auto simp: typed_def kind)
    have room: "seats_of t (seats s) \<le> qty_of t (ticketTypes s @ [tt])" if "kind_of t ?s = Some Seated" for t
    proof (cases "t = next_id s")
      case True
      then have "seats_of t (seats s) = 0"
        unfolding seats_of_def using refs old by (intro sum_by_zero) (auto simp: refs_def)
      moreover have "qty_of t (ticketTypes s) = 0"
        unfolding qty_of_def using ids True by (intro sum_by_zero) (auto simp: ids_ok_def)
      ultimately show ?thesis using new(3) True new(1) by (simp add: qty_of_def)
    next
      case False
      with that kind have "kind_of t s = Some Seated" by simp
      with refs have "seats_of t (seats s) \<le> qty_of t (ticketTypes s)" by (simp add: refs_def)
      with False new(1) show ?thesis by (simp add: qty_of_def)
    qed
    show ?thesis using refs old typed room by (auto simp: refs_def kind)
  qed
  moreover have "seat_inv ?s" using core by (auto simp: core_def elim: seat_inv_frameI)
  ultimately show ?thesis
    using ids' core old kind by (auto simp: core_def stock_balanced_def grows_def less_SucI)
qed

lemma new_seat_safe:
  assumes core: "core s" and kind: "kind_of (s_ticketTypeId st) s = Some Seated"
    and room: "seats_of (s_ticketTypeId st) (seats s) < qty_of (s_ticketTypeId st) (ticketTypes s)"
    and run: "insert_seat st s = Inr (u, s')"
  shows "core s' \<and> grows s s' \<and> (\<forall>t. kind_of t s' = kind_of t s) \<and> ticketTypes s' = ticketTypes s \<and>
    (\<forall>t. seats_of t (seats s') = seats_of t (seats s) + (if s_ticketTypeId st = t then 1 else 0))"
proof -
  let ?st = "st\<lparr>s_id := next_id s\<rparr>"
  from run have s': "s' = s\<lparr>next_id := Suc (next_id s), seats := seats s @ [?st]\<rparr>"
    by (auto simp: insert_seat_def bindT_def fresh_id_def split: if_splits)
  have k: "kind_of t s' = kind_of t s" for t by (simp add: s' kind_of_def find_ticket_type_def)
  have "ids_ok s'" using core by (auto simp: s' core_def ids_ok_def less_SucI)
  moreover have "bal t s' = bal t s" for t
    using k by (simp add: bal_def reserved_def) (simp add: s')
  moreover have count: "seats_of t (seats s') = seats_of t (seats s) + (if s_ticketTypeId st = t then 1 else 0)" for t
    by (simp add: s' seats_of_def)
  moreover have "refs (\<lambda>t. kind_of t s') {} (seats s') s'"
  proof -
    have typed: "typed (\<lambda>t. kind_of t s) (seats s') t x" if "typed (\<lambda>t. kind_of t s) (seats s) t x" for t x
      using that by (cases x) (auto simp: typed_def s')
    have "seats_of t (seats s') \<le> qty_of t (ticketTypes s)" if "kind_of t s = Some Seated" for t
      using that core room by (auto simp: count core_def refs_def)
    moreover have "kind_of (s_ticketTypeId q) s = Some Seated" if "q \<in> set (seats s')" for q
      using that kind core by (auto simp: s' core_def refs_def)
    ultimately show ?thesis using core typed unfolding k refs_def by (auto simp: core_def refs_def k s')
  qed
  moreover have "seat_inv s'"
    using core by (fastforce simp: s' core_def seat_inv_def holds_unique_def holds_free_def seats_single_def seat_sold_def)
  moreover have "\<forall>st \<in> set (seats s'). s_id st < next_id s'"
    using core by (auto simp: s' core_def less_SucI)
  ultimately show ?thesis using core k
    by (auto simp: core_def stock_balanced_def grows_def) (simp_all add: s')
qed

lemma core_frame:
  assumes "core s" and "elsewhere s s'"
  shows "core s' \<and> grows s s'"
proof (rule safe_tx [OF assms(1)])
  from assms(2) obtain us rts tms ws ps es evs ms n where
    s': "s' = s\<lparr>users := us, refreshTokens := rts, teamMembers := tms, webhookEvents := ws, payments := ps,
      outboxEvents := es, events := evs, seatMaps := ms, next_id := n\<rparr>" and n: "next_id s \<le> n"
    unfolding elsewhere_def by blast
  show "moves s s' (\<lambda>_. 0)" using n by (intro moves_same) (simp_all add: s')
  show "refs K X S s \<Longrightarrow> refs K X S s'" for K X S by (erule refs_frameI) (simp_all add: s')
  have "seat_inv s" using assms(1) by (simp add: core_def)
  then show "seat_inv s'" by (rule seat_inv_frameI) (simp_all add: s')
qed

definition map_progress :: "db \<Rightarrow> db \<Rightarrow> bool" where
  "map_progress s0 s \<longleftrightarrow> core s \<and> grows s0 s"

lemma map_progress_seats:
  assumes "\<And>st. st \<in> set sts \<Longrightarrow> s_ticketTypeId st = tid"
    and "map_progress s0 s" and "kind_of tid s = Some Seated" and "for_eachT insert_seat sts s = Inr (u, s')"
    and "seats_of tid (seats s) + int (length sts) \<le> qty_of tid (ticketTypes s)"
  shows "map_progress s0 s'"
  using assms
proof (induction sts arbitrary: s)
  case Nil
  then show ?case by simp
next
  case (Cons st sts)
  from Cons.prems(4) obtain v s1 where 1: "insert_seat st s = Inr (v, s1)" and 2: "for_eachT insert_seat sts s1 = Inr (u, s')"
    by (auto simp only: for_eachT_Cons_Inr)
  have "core s1 \<and> grows s s1 \<and> (\<forall>t. kind_of t s1 = kind_of t s) \<and> ticketTypes s1 = ticketTypes s \<and>
      (\<forall>t. seats_of t (seats s1) = seats_of t (seats s) + (if s_ticketTypeId st = t then 1 else 0))"
    using Cons.prems by (intro new_seat_safe [OF _ _ _ 1]) (simp_all add: map_progress_def)
  with Cons.prems have "map_progress s0 s1" "kind_of tid s1 = Some Seated"
      "seats_of tid (seats s1) + int (length sts) \<le> qty_of tid (ticketTypes s1)"
    by (auto simp: map_progress_def intro: grows_trans)
  with Cons.IH [OF _ _ _ 2] Cons.prems(1) show ?case by simp
qed

lemma map_progress_section: "keepsT (map_progress s0) (create_section now ev mapId p)"
proof (unfold keepsT_def, intro allI impI)
  fix s u s' assume ok: "map_progress s0 s" and run: "create_section now ev mapId p s = Inr (u, s')"
  let ?tt = "seated_type now ev (next_id s) (fst p)"
  let ?s = "s\<lparr>next_id := Suc (next_id s), ticketTypes := ticketTypes s @ [?tt]\<rparr>"
  have new: "core ?s \<and> grows s ?s"
    using ok by (intro new_type_safe) (simp_all add: map_progress_def seated_type_def)
  then have 1: "map_progress s0 ?s" using ok grows_trans by (auto simp: map_progress_def)
  have ids: "ids_ok s" and refs: "refs (\<lambda>t. kind_of t s) {} (seats s) s"
    using ok by (simp_all add: map_progress_def core_def)
  then have old: "kind_of (next_id s) s = None"
    using kind_of_bound [of s "next_id s"] by (cases "kind_of (next_id s) s") auto
  then have 2: "kind_of (next_id s) ?s = Some Seated"
    using kind_of_append [of "next_id s" "s\<lparr>next_id := Suc (next_id s)\<rparr>" ?tt] by (simp add: seated_type_def)
  from run have "for_eachT insert_seat (section_seats mapId ev (next_id s) p) ?s = Inr (u, s')"
    by (simp add: create_section_def bindT_def fresh_id_def writeT_def)
  note loop = this
  have "seats_of (next_id s) (seats s) = 0"
    unfolding seats_of_def using refs old by (intro sum_by_zero) (auto simp: refs_def)
  moreover have "qty_of (next_id s) (ticketTypes s) = 0"
    unfolding qty_of_def using ids by (intro sum_by_zero) (auto simp: ids_ok_def)
  moreover have "int (length (section_seats mapId ev (next_id s) p)) = tt_quantity ?tt"
    by (cases p) (simp add: length_section_seats seated_type_def)
  moreover have "tt_id ?tt = next_id s" by (simp add: seated_type_def)
  ultimately have room: "seats_of (next_id s) (seats ?s) + int (length (section_seats mapId ev (next_id s) p))
      \<le> qty_of (next_id s) (ticketTypes ?s)"
    by (simp add: qty_of_def)
  show "map_progress s0 s'"
  proof (rule map_progress_seats [OF _ 1 2 loop room])
    fix st assume "st \<in> set (section_seats mapId ev (next_id s) p)"
    then show "s_ticketTypeId st = next_id s" by (cases p) (auto simp: set_section_seats seat_at_def)
  qed
qed

lemma map_progress_elsewhere: "map_progress s0 s \<Longrightarrow> elsewhere s s' \<Longrightarrow> map_progress s0 s'"
  using core_frame grows_trans by (auto simp: map_progress_def)

lemma elsewhere_maps: "elsewhere s (s\<lparr>seatMaps := ms\<rparr>)" "elsewhere s (s\<lparr>next_id := Suc (next_id s)\<rparr>)"
  by (simp_all add: elsewhere_def)

lemma create_map_safe:
  assumes "core s" and "create_map_tx now ev ds s = Inr (m, s')"
  shows "core s' \<and> grows s s'"
proof -
  have start: "map_progress s s" using assms(1) by (simp add: map_progress_def)
  have fresh: "keepsT (map_progress s) fresh_id"
    unfolding keepsT_def fresh_id_Inr by (blast intro: map_progress_elsewhere elsewhere_maps)
  have ins: "keepsT (map_progress s) (insert_map mapId ev t)" for mapId t
    unfolding keepsT_def insert_map_def
    by (auto split: if_splits intro: map_progress_elsewhere [OF _ elsewhere_maps(1)])
  have meta: "keepsT (map_progress s) (writeT (\<lambda>s. s\<lparr>seatMaps := f (seatMaps s)\<rparr>))" for f
    unfolding keepsT_def writeT_Inr by (blast intro: map_progress_elsewhere elsewhere_maps)
  have "keepsT (map_progress s) (create_map_tx now ev ds)"
    unfolding create_map_tx_def Let_def
    by (intro keeps fresh ins map_progress_section meta)
  from keepsTD [OF this start assms(2)] show ?thesis by (simp add: map_progress_def)
qed

section \<open>Every step keeps it\<close>

lemma tx_step_safe: "tx_step s s' \<Longrightarrow> core s \<Longrightarrow> core s' \<and> grows s s'"
proof (induction rule: tx_step.induct)
  case (refresh i x s h s')
  show ?case by (rule safe_conserving [where m = "refresh_tx i x", OF _ _ _ refresh(2,1)])
    (auto intro: conserves_holds refs_holds seat_refresh)
next
  case (unhold s ev seat key)
  let ?p = "\<lambda>h. h_eventId h = ev \<and> h_seatId h = seat \<and> h_holderKey h = key \<and> h_orderId h = None"
  show ?case
  proof (rule safe_tx [OF unhold])
    show "moves s (s\<lparr>holds := delete_where ?p (holds s)\<rparr>) (\<lambda>_. 0)" by (rule moves_holds)
    show "refs K X S s \<Longrightarrow> refs K X S (s\<lparr>holds := delete_where ?p (holds s)\<rparr>)" for K X S
      by (erule refs_frameI) simp_all
    show "seat_inv (s\<lparr>holds := delete_where ?p (holds s)\<rparr>)"
      using unhold by (intro seat_inv_delete) (simp add: core_def)
  qed
next
  case (sweep now s xs s')
  show ?case by (rule safe_conserving [where m = "sweep_tx now", OF _ _ _ sweep(2,1)])
    (auto intro: conserves_holds refs_holds seat_sweep)
next
  case (release st now i s b s')
  show ?case by (rule safe_conserving [where m = "releaseOrderInventoryInTx now i st", OF _ _ _ release(3,2)])
    (use release(1) in \<open>auto intro: release_moves refs_release seat_release\<close>)
next
  case (paid now intent s out s')
  show ?case by (rule safe_tx [OF paid(2) succeeded_moves [OF paid(1) core_items_nonneg [OF paid(2)]]])
    (use paid in \<open>auto simp: core_def intro: keepsTD [OF refs_succeeded] keepsTD [OF seat_succeeded]\<close>)
next
  case (unpaid now intent s u s')
  show ?case by (rule safe_conserving [where m = "failed_tx now intent", OF _ _ _ unpaid(2,1)])
    (auto intro: conserves_failed refs_failed seat_failed)
next
  case (refunded clk rid prov s b s')
  show ?case by (rule safe_conserving [where m = "refunded_tx clk rid prov", OF _ _ _ refunded(2,1)])
    (auto intro: conserves_refunded refs_refunded seat_refunded)
next
  case (leg_sent rid ref s u s')
  show ?case by (rule safe_conserving [where m = "set_provider_refund rid ref", OF _ _ _ leg_sent(2,1)])
    (auto intro: conserves_money_leg refs_money_leg seat_money_leg)
next
  case (leg_failed rid s u s')
  show ?case by (rule safe_conserving [where m = "fail_refund rid", OF _ _ _ leg_failed(2,1)])
    (auto intro: conserves_money_leg refs_money_leg seat_money_leg)
next
  case (reopened rid s n s')
  show ?case by (rule safe_conserving [where m = "reopen_refund rid", OF _ _ _ reopened(2,1)])
    (auto intro: conserves_money_leg refs_money_leg seat_money_leg)
next
  case (compensated clk i x s rid s')
  show ?case by (rule safe_conserving [where m = "compensation_tx clk i x", OF _ _ _ compensated(2,1)])
    (auto intro: conserves_money_leg refs_money_leg seat_money_leg)
next
  case (admitted now i s n s')
  show ?case by (rule safe_conserving [where m = "admit_tx now i", OF _ _ _ admitted(2,1)])
    (auto intro: conserves_admit refs_admit seat_admit)
next
  case (type_changed ev tid d s tt s')
  have "ids_ok s" and seat: "seat_inv s" using type_changed(2) by (simp_all add: core_def)
  note refs = refs_updateTicketType [OF \<open>ids_ok s\<close> _ type_changed(1)]
  show ?case
    by (rule safe_tx [OF type_changed(2) conservesD [OF updateTicketType_moves type_changed(1)] refs
        keepsTD [OF seat_updateTicketType seat type_changed(1)]])
next
  case (type_added d now ev s u s')
  then have "s' = s\<lparr>next_id := Suc (next_id s), ticketTypes := ticketTypes s' \<rparr> \<and>
      (\<exists>tt. ticketTypes s' = ticketTypes s @ [tt] \<and> tt_id tt = next_id s \<and>
        tt_remaining tt = tt_quantity tt \<and> 0 \<le> tt_quantity tt)"
    by (auto simp: insert_ticket_type_def tx_simps valid_ticket_type_def)
  with new_type_safe [OF type_added(3)] show ?case by metis
next
  case (map_created now ev ds s m s')
  from create_map_safe [OF map_created(2,1)] show ?case .
next
  case (other s s')
  from core_frame [OF other(2,1)] show ?case .
qed

lemma sys_inv_start: "sys_start y \<Longrightarrow> sys_inv y"
  by (auto simp: sys_start_def sys_inv_def core_def empty_db_def ids_ok_def stock_balanced_def bal_def
      rem_of_def qty_of_def live_of_def reserved_def awaiting_qty_def refs_def seats_of_def kind_of_def
      find_ticket_type_def seat_inv_def
      holds_unique_def holds_free_def seats_single_def live_seats_def List.map_filter_def)

lemma sys_inv_step: "sys_step y z \<Longrightarrow> sys_inv y \<Longrightarrow> sys_inv z"
proof (induction rule: sys_step.induct)
  case (tx y s')
  then have "core (y_db y)" by (simp add: sys_inv_def)
  from tx_step_safe [OF tx(1) this] show ?case using sys_inv_grows [OF tx(2)] by blast
next
  case (read_order is_email dto clk cp y pl)
  then have "ids_ok (y_db y)" "refs (\<lambda>t. kind_of t (y_db y)) {} (seats (y_db y)) (y_db y)"
      "distinct (map s_id (seats (y_db y)))"
    by (simp_all add: sys_inv_def core_def seat_inv_def)
  note pl = plan_order_ok [OF read_order(2,1) this]
  from read_order(3) pl show ?case unfolding sys_inv_def by simp
next
  case (place pl y clk i s')
  from place(1,3) have pl: "plan_ok (y_db y) pl" "plan_refs (\<lambda>t. kind_of t (y_db y)) (seats (y_db y)) pl"
      "plan_seats_ok (y_db y) pl" and core: "core (y_db y)"
    unfolding sys_inv_def by blast+
  have "core s' \<and> grows (y_db y) s'"
  proof (rule safe_tx [OF core create_tx_moves [OF pl(1) place(2)]])
    fix K X S assume r: "refs K X S (y_db y)"
    then have k: "\<forall>t. kind_of t (y_db y) = K t" and S: "seats (y_db y) = S" unfolding refs_def by blast+
    have "K = (\<lambda>t. kind_of t (y_db y))" by (rule ext) (rule k [rule_format, symmetric])
    with pl(2) S have "plan_refs K S pl" by simp
    from keepsTD [OF refs_create_tx [OF this] r place(2)] show "refs K X S s'" .
  next
    show "seat_inv s'" using core by (intro seat_create_tx [OF _ pl(3) place(2)]) (simp add: core_def)
  qed
  with sys_inv_grows [OF place(3)] show ?case by blast
next
  case (read_refund ri y rp)
  then have "ids_ok (y_db y)" by (simp add: sys_inv_def core_def)
  from plan_refund_ok [OF read_refund(1) this] read_refund(2) show ?case unfolding sys_inv_def by simp
next
  case (refund rp y clk rid s')
  from refund(1,3) have rp: "refund_plan_ok (y_db y) rp" and core: "core (y_db y)"
    unfolding sys_inv_def by blast+
  have "core s' \<and> grows (y_db y) s'"
    by (rule safe_tx [OF core refund_tx_moves [OF rp refund(2)]])
      (use refund(2) core in \<open>auto simp: core_def intro: keepsTD [OF refs_refund_tx] keepsTD [OF seat_refund_tx]\<close>)
  with sys_inv_grows [OF refund(3)] show ?case by blast
next
  case (tap ev seat y)
  then obtain st where "List.find (\<lambda>st. s_id st = seat \<and> s_eventId st = ev \<and> is_published ev (y_db y))
      (seats (y_db y)) = Some st" by (auto simp: seat_on_sale_def)
  from find_SomeD [OF this] have "\<exists>st \<in> set (seats (y_db y)). s_id st = seat \<and> s_eventId st = ev" by blast
  with tap(2) show ?case unfolding sys_inv_def by simp
next
  case (acquire ev seat y clk key x n s')
  from acquire(3) have core: "core (y_db y)" and taps: "\<forall>p \<in> set (y_taps y). case p of (ev, seat) \<Rightarrow>
      \<exists>st \<in> set (seats (y_db y)). s_id st = seat \<and> s_eventId st = ev"
    unfolding sys_inv_def by simp_all
  from bspec [OF taps acquire(1)] obtain st where st: "st \<in> set (seats (y_db y))" "s_id st = seat" "s_eventId st = ev"
    by auto
  have "core s' \<and> grows (y_db y) s'"
  proof (rule safe_tx [OF core])
    show "moves (y_db y) s' (\<lambda>_. 0)" using conservesD [OF conserves_holds(1) acquire(2)] .
    show "refs K X S (y_db y) \<Longrightarrow> refs K X S s'" for K X S using keepsTD [OF refs_holds(1) _ acquire(2)] .
    show "seat_inv s'" using core by (intro seat_acquire [OF _ st acquire(2)]) (simp add: core_def)
  qed
  with sys_inv_grows [OF acquire(3)] show ?case by blast
qed

interpretation sale: invariant_system sys_start sys_step sys_inv
  by unfold_locales (fact sys_inv_start, fact sys_inv_step)

definition reachable :: "system \<Rightarrow> bool" where
  "reachable y \<longleftrightarrow> (\<exists>x. sys_start x \<and> sys_step\<^sup>*\<^sup>* x y)"

lemma reachable_inv: "reachable y \<Longrightarrow> sys_inv y"
  unfolding reachable_def by (blast intro: sale.inv_reachable)

end
