(* ===== verification/Run.thy ===== *)
theory Run
  imports System
begin

text \<open>
  A short run of the system from the empty database, for the examples: an event with a floor tier
  and a map of one row of two seats goes on sale, a buyer orders two floor tickets, another holds and
  orders a seat, and the first one pays.
\<close>

definition run_setup :: db where
  "run_setup = empty_db\<lparr>users := [demo_user 2 ''owner@x''], events := [demo_event], next_id := 3\<rparr>"

definition run_floor :: ticket_type_dto where
  "run_floor = \<lparr>ct_name = ''Floor'', ct_quantity = 10, ct_priceSatang = 500, ct_maxPerOrder = Some 4\<rparr>"

definition run_section :: section_dto where
  "run_section = \<lparr>sd_name = ''Front'', sd_rows = 1, sd_cols = 2, sd_tierName = ''Front zone'',
     sd_priceSatang = 1000, sd_x = None, sd_y = None\<rparr>"

definition run_listed :: db where
  "run_listed = run_setup\<lparr>ticketTypes := [demo_ga, demo_seated], seatMaps := [\<lparr>map_id = 4, map_eventId = 1,
       map_template = ''theater'', map_meta = Some \<lparr>mm_maxCols = 2, mm_totalRows = 1,
         mm_sections = [\<lparr>sm_name = ''Front'', sm_yStart = 0, sm_rows = 1, sm_cols = 2, sm_xOffset = 0\<rparr>]\<rparr>\<rparr>],
     seats := [(demo_seat 6)\<lparr>s_number := 1, s_x := 0\<rparr>, (demo_seat 7)\<lparr>s_number := 2, s_x := 1\<rparr>],
     next_id := 8\<rparr>"

lemmas run_defs = demo_defs run_setup_def run_floor_def run_section_def run_listed_def

lemma run_type: "insert_ticket_type 0 1 run_floor run_setup =
    Inr ((), run_setup\<lparr>ticketTypes := [demo_ga], next_id := 4\<rparr>)"
  by (simp add: insert_ticket_type_def bindT_def fresh_id_def writeT_def run_defs trim_def is_space_def)

lemma run_map: "create_map_tx 1 1 [run_section] (run_setup\<lparr>ticketTypes := [demo_ga], next_id := 4\<rparr>) =
    Inr ((hd (seatMaps run_listed), 2), run_listed)"
  by code_simp


definition run_floor_dto :: create_order_dto where
  "run_floor_dto = \<lparr>d_items = Some [\<lparr>oi_ticketTypeId = 3, oi_quantity = 2\<rparr>], d_seatIds = None,
     d_buyerEmail = ''ann@x'', d_buyerName = ''Ann''\<rparr>"

definition run_seat_dto :: create_order_dto where
  "run_seat_dto = \<lparr>d_items = None, d_seatIds = Some [6], d_buyerEmail = ''bob@x'', d_buyerName = ''Bob''\<rparr>"

definition run_params :: "string \<Rightarrow> create_params" where
  "run_params k = \<lparr>cp_eventId = 1, cp_buyerUserId = None, cp_idempotencyKey = Some k,
     cp_holderKey = Some ''bob-holder''\<rparr>"

definition run_floor_plan :: order_plan where
  "run_floor_plan = projr (plan_order demo_clock run_floor_dto (run_params ''k1'') run_listed)"

definition run_seat_plan :: order_plan where
  "run_seat_plan = projr (plan_order demo_clock run_seat_dto (run_params ''k2'') run_listed)"

lemma run_plans:
  "plan_order demo_clock run_floor_dto (run_params ''k1'') run_listed = Inr run_floor_plan"
  "plan_order demo_clock run_seat_dto (run_params ''k2'') run_listed = Inr run_seat_plan"
  by code_simp+

definition run_ordered :: db where
  "run_ordered = snd (projr (create_tx demo_clock run_floor_plan run_listed))"

definition run_held :: db where
  "run_held = snd (projr (acquire_tx demo_clock 1 6 ''bob-holder'' 421000 run_ordered))"

definition run_seated :: db where
  "run_seated = snd (projr (create_tx demo_clock run_seat_plan run_held))"

definition run_billed :: db where
  "run_billed = run_seated\<lparr>payments := [\<lparr>p_orderId = 8, p_providerIntentId = ''pi_1'', p_checkoutUrl = ''/pay'',
     p_status = P_requires_action, p_amountSatang = 1000\<rparr>]\<rparr>"

definition run_paid :: db where
  "run_paid = snd (projr (succeeded_tx 2000 ''pi_1'' run_billed))"

lemma run_steps:
  "create_tx demo_clock run_floor_plan run_listed = Inr (8, run_ordered)"
  "acquire_tx demo_clock 1 6 ''bob-holder'' 421000 run_ordered = Inr (1, run_held)"
  "create_tx demo_clock run_seat_plan run_held = Inr (11, run_seated)"
  "succeeded_tx 2000 ''pi_1'' run_billed = Inr (Paid_outcome, run_paid)"
  by code_simp+


definition run_refund_plan :: refund_plan where
  "run_refund_plan = projr (plan_refund (refund_request 1 8 [13] 2 (Some ''r1'')) run_paid)"

definition run_refunded :: db where
  "run_refunded = snd (projr (refund_tx demo_clock run_refund_plan run_paid))"

definition run_admitted :: db where
  "run_admitted = snd (projr (admit_tx 3000 15 run_refunded))"

lemma run_later:
  "plan_refund (refund_request 1 8 [13] 2 (Some ''r1'')) run_paid = Inr run_refund_plan"
  "refund_tx demo_clock run_refund_plan run_paid = Inr (19, run_refunded)"
  "admit_tx 3000 15 run_refunded = Inr (1, run_admitted)"
  by code_simp+

definition run_system :: "db \<Rightarrow> refund_plan list \<Rightarrow> system" where
  "run_system s rps = \<lparr>y_db = s, y_plans = [run_seat_plan, run_floor_plan], y_refunds = rps, y_taps = [(1, 6)]\<rparr>"

lemma reachable_step: "reachable y \<Longrightarrow> sys_step y z \<Longrightarrow> reachable z"
  unfolding reachable_def by (meson rtranclp.rtrancl_into_rtrancl)

lemma reachable_tx: "reachable y \<Longrightarrow> tx_step (y_db y) s \<Longrightarrow> reachable (y\<lparr>y_db := s\<rparr>)"
  by (blast intro: reachable_step sys_step.tx)

lemma run_listed_reachable: "reachable (run_system run_listed [])"
proof -
  define Y :: "db \<Rightarrow> order_plan list \<Rightarrow> (id \<times> id) list \<Rightarrow> system" where
    "Y = (\<lambda>s pls ts. \<lparr>y_db = s, y_plans = pls, y_refunds = [], y_taps = ts\<rparr>)"
  have tx: "reachable (Y s pls ts) \<Longrightarrow> tx_step s t \<Longrightarrow> reachable (Y t pls ts)" for s t pls ts
    using reachable_tx [of "Y s pls ts" t] by (simp add: Y_def)
  have plan: "reachable (Y s pls ts) \<Longrightarrow> valid_order_dto (\<lambda>e. True) dto \<Longrightarrow> plan_order clk dto cp s = Inr pl \<Longrightarrow>
      reachable (Y s (pl # pls) ts)" for s pls ts dto clk cp pl
    using reachable_step [OF _ sys_step.read_order [of "\<lambda>e. True" dto clk cp "Y s pls ts" pl]] by (simp add: Y_def)
  have valid: "valid_order_dto (\<lambda>e. True) run_floor_dto" "valid_order_dto (\<lambda>e. True) run_seat_dto"
    "valid_ticket_type run_floor"
    by (simp_all add: valid_order_dto_def valid_order_item_def run_floor_dto_def run_seat_dto_def
        valid_ticket_type_def run_floor_def)
  have "reachable (Y empty_db [] [])"
    unfolding reachable_def by (intro exI [of _ "Y empty_db [] []"]) (simp add: sys_start_def Y_def)
  then have "reachable (Y run_setup [] [])"
    by (rule tx) (intro tx_step.other, simp add: elsewhere_def run_setup_def empty_db_def)
  then have "reachable (Y (run_setup\<lparr>ticketTypes := [demo_ga], next_id := 4\<rparr>) [] [])"
    by (rule tx) (rule tx_step.type_added [OF valid(3) run_type])
  then have "reachable (Y run_listed [] [])"
    by (rule tx) (rule tx_step.map_created [OF run_map])
  from plan [OF plan [OF this valid(1) run_plans(1)] valid(2) run_plans(2)]
  have "reachable (Y run_listed [run_seat_plan, run_floor_plan] [])" .
  moreover have "seat_on_sale 1 6 run_listed \<noteq> None"
    by (simp add: seat_on_sale_def is_published_def find_event_def run_defs)
  ultimately have "reachable (Y run_listed [run_seat_plan, run_floor_plan] [(1, 6)])"
    using reachable_step [OF _ sys_step.tap [of 1 6 "Y run_listed [run_seat_plan, run_floor_plan] []"]]
    by (simp add: Y_def)
  then show ?thesis by (simp add: Y_def run_system_def)
qed

lemma run_system_db [simp]: "y_db (run_system s rps) = s" "y_plans (run_system s rps) = [run_seat_plan, run_floor_plan]"
  "y_refunds (run_system s rps) = rps" "y_taps (run_system s rps) = [(1, 6)]"
  "(run_system s rps)\<lparr>y_db := t\<rparr> = run_system t rps" "(run_system s rps)\<lparr>y_refunds := rps'\<rparr> = run_system s rps'"
  by (simp_all add: run_system_def)

lemma run_step:
  "pl \<in> {run_floor_plan, run_seat_plan} \<Longrightarrow> create_tx clk pl s = Inr (i, t) \<Longrightarrow>
     sys_step (run_system s rps) (run_system t rps)"
  "acquire_tx clk 1 6 key x s = Inr (n, t) \<Longrightarrow> sys_step (run_system s rps) (run_system t rps)"
  "tx_step s t \<Longrightarrow> sys_step (run_system s rps) (run_system t rps)"
  "plan_refund ri s = Inr rp \<Longrightarrow> sys_step (run_system s rps) (run_system s (rp # rps))"
  "rp \<in> set rps \<Longrightarrow> refund_tx clk rp s = Inr (i, t) \<Longrightarrow> sys_step (run_system s rps) (run_system t rps)"
  using sys_step.place [of pl "run_system s rps" clk i t] sys_step.acquire [of 1 6 "run_system s rps" clk key x n t]
    sys_step.tx [of "run_system s rps" t] sys_step.read_refund [of ri "run_system s rps" rp]
    sys_step.refund [of rp "run_system s rps" clk i t]
  by auto

lemma run_orders: "sys_step\<^sup>*\<^sup>* (run_system run_listed []) (run_system run_seated [])"
proof -
  have "sys_step (run_system run_listed []) (run_system run_ordered [])"
    by (rule run_step(1) [OF _ run_steps(1)]) simp
  moreover have "sys_step (run_system run_ordered []) (run_system run_held [])"
    by (rule run_step(2) [OF run_steps(2)])
  moreover have "sys_step (run_system run_held []) (run_system run_seated [])"
    by (rule run_step(1) [OF _ run_steps(3)]) simp
  ultimately show ?thesis by (meson rtranclp.rtrancl_refl rtranclp.rtrancl_into_rtrancl)
qed

lemma run_bill: "sys_step (run_system run_seated []) (run_system run_billed [])"
proof -
  have "elsewhere run_seated run_billed" by (simp add: elsewhere_def run_billed_def)
  then show ?thesis by (blast intro: run_step tx_step.other)
qed

lemma run_sale: "sys_step\<^sup>*\<^sup>* (run_system run_listed []) (run_system run_paid [])"
proof -
  have "sys_step (run_system run_billed []) (run_system run_paid [])"
    by (blast intro: run_step tx_step.paid run_steps)
  with run_orders run_bill show ?thesis by (meson rtranclp.rtrancl_into_rtrancl)
qed

lemma run_aftermath: "sys_step\<^sup>*\<^sup>* (run_system run_paid []) (run_system run_admitted [run_refund_plan])"
proof -
  have "sys_step (run_system run_paid []) (run_system run_paid [run_refund_plan])"
    by (rule run_step(4) [OF run_later(1)])
  moreover have "sys_step (run_system run_paid [run_refund_plan]) (run_system run_refunded [run_refund_plan])"
    by (rule run_step(5) [OF _ run_later(2)]) simp
  moreover have "sys_step (run_system run_refunded [run_refund_plan]) (run_system run_admitted [run_refund_plan])"
    by (blast intro: run_step tx_step.admitted run_later)
  ultimately show ?thesis by (meson rtranclp.rtrancl_refl rtranclp.rtrancl_into_rtrancl)
qed

lemma reachable_steps: "reachable y \<Longrightarrow> sys_step\<^sup>*\<^sup>* y z \<Longrightarrow> reachable z"
  unfolding reachable_def by (meson rtranclp_trans)

lemmas run_seated_reachable = reachable_steps [OF run_listed_reachable run_orders]
lemmas run_billed_reachable = reachable_step [OF run_seated_reachable run_bill]
lemmas run_paid_reachable = reachable_steps [OF run_listed_reachable run_sale]
lemmas run_admitted_reachable = reachable_steps [OF run_paid_reachable run_aftermath]

end
