(* ===== verification/Lifecycle.thy ===== *)
theory Lifecycle
  imports Writes Run
begin

text \<open>
  The life cycles of orders, tickets and refunds: which columns of a row never change, which
  statuses may follow which, and that every step of the system respects both.
\<close>

definition order_follows :: "order \<Rightarrow> order \<Rightarrow> bool" where
  "order_follows r q \<longleftrightarrow> q = r\<lparr>o_status := o_status q, o_refundedSatang := o_refundedSatang q\<rparr> \<and>
     order_next (o_status r) (o_status q)"

definition ticket_follows :: "ticket \<Rightarrow> ticket \<Rightarrow> bool" where
  "ticket_follows k j \<longleftrightarrow> j = k \<or> (t_status k = Issued \<and> t_status j \<noteq> Issued \<and>
     j = k\<lparr>t_status := t_status j, t_refundId := t_refundId j, t_checkedInAt := t_checkedInAt j\<rparr>)"

definition refund_follows :: "refund \<Rightarrow> refund \<Rightarrow> bool" where
  "refund_follows r q \<longleftrightarrow> q = r\<lparr>r_status := r_status q, r_providerRefundId := r_providerRefundId q,
       r_settledAt := r_settledAt q\<rparr> \<and> refund_next (r_status r) (r_status q)"

lemma follows_refl [simp]: "order_follows r r" "ticket_follows k k" "refund_follows q q"
  by (simp_all add: order_follows_def ticket_follows_def refund_follows_def)

lemma order_follows_trans:
  assumes "order_follows a b" and "order_follows b c"
  shows "order_follows a c"
  unfolding order_follows_def
proof
  show "order_next (o_status a) (o_status c)"
    using assms order_next_trans unfolding order_follows_def by blast
qed (use assms in \<open>cases a; cases b; cases c; simp add: order_follows_def\<close>)

lemma ticket_follows_trans: "ticket_follows a b \<Longrightarrow> ticket_follows b c \<Longrightarrow> ticket_follows a c"
  unfolding ticket_follows_def by (cases a; cases b; cases c) auto

lemma refund_next_trans: "refund_next a b \<Longrightarrow> refund_next b c \<Longrightarrow> refund_next a c"
  by (cases a; cases b) auto

lemma refund_follows_trans:
  assumes "refund_follows a b" and "refund_follows b c"
  shows "refund_follows a c"
  unfolding refund_follows_def
proof
  show "refund_next (r_status a) (r_status c)"
    using assms refund_next_trans unfolding refund_follows_def by blast
qed (use assms in \<open>cases a; cases b; cases c; simp add: refund_follows_def\<close>)

section \<open>Along any run\<close>

lemma elsewhere_rows:
  assumes "elsewhere s t"
  shows "orders t = orders s" and "tickets t = tickets s" and "refunds t = refunds s" and "next_id s \<le> next_id t"
proof -
  note e = assms [unfolded elsewhere_def, THEN conjunct2]
  show "orders t = orders s" "tickets t = tickets s" "refunds t = refunds s" by (subst e, simp)+
  show "next_id s \<le> next_id t" using assms unfolding elsewhere_def by (rule conjunct1)
qed

text \<open>What survives each kind of write, and the writes to other tables, survives every run of the system.\<close>

locale run_invariant = write_invariant +
  assumes elsewhere_write: "P s \<Longrightarrow> elsewhere s t \<Longrightarrow> P t"
begin

lemma tx_step_keeps:
  assumes "tx_step s t" and "P s"
  shows "P t"
  using assms(1)
proof cases
  case (unhold ev seat key)
  with assms(2) show ?thesis by (simp add: hold_write)
next
  case other
  with assms(2) show ?thesis by (rule elsewhere_write)
qed (use assms(2) in \<open>blast intro: keepsTD keeps_holds keeps_release keeps_succeeded keeps_failed
    keeps_refunded keeps_money_leg keeps_compensation keeps_admit keeps_type keeps_create_map\<close>)+

lemma sys_step_keeps: "sys_step y z \<Longrightarrow> P (y_db y) \<Longrightarrow> P (y_db z)"
  by (erule sys_stepE) (auto intro: tx_step_keeps keepsTD [OF keeps_create] keepsTD [OF keeps_refund_tx]
      keepsTD [OF keeps_holds(1)])

lemma run_keeps: "sys_step\<^sup>*\<^sup>* y z \<Longrightarrow> P (y_db y) \<Longrightarrow> P (y_db z)"
  by (induction rule: rtranclp_induct) (auto intro: sys_step_keeps)

end

section \<open>Rows of a reachable state\<close>

definition advanced :: "order list \<Rightarrow> ticket list \<Rightarrow> refund list \<Rightarrow> db \<Rightarrow> bool" where
  "advanced os ks rs s \<longleftrightarrow>
     distinct (map o_id (orders s)) \<and> (\<forall>r \<in> set (orders s). o_id r < next_id s) \<and>
     (\<forall>r \<in> set os. \<exists>q \<in> set (orders s). order_follows r q) \<and>
     (\<forall>k \<in> set ks. \<exists>j \<in> set (tickets s). ticket_follows k j) \<and>
     (\<forall>r \<in> set rs. \<exists>q \<in> set (refunds s). refund_follows r q)"

lemma advanced_rows:
  assumes "advanced os ks rs s"
  shows "orders t = orders s \<Longrightarrow> tickets t = tickets s \<Longrightarrow> refunds t = refunds s \<Longrightarrow> next_id s \<le> next_id t \<Longrightarrow>
    advanced os ks rs t"
  using assms by (auto simp: advanced_def)

lemma advanced_edit:
  assumes "\<forall>r \<in> set as. \<exists>q \<in> set bs. R r q" and "\<And>q. q \<in> set bs \<Longrightarrow> p q \<Longrightarrow> R q (f q)"
    and "\<And>a b c. R a b \<Longrightarrow> R b c \<Longrightarrow> R a c"
  shows "\<forall>r \<in> set as. \<exists>q \<in> set (update_where p f bs). R r q"
proof
  fix r assume "r \<in> set as"
  with assms(1) obtain q where "q \<in> set bs" "R r q" by blast
  with assms(2,3) show "\<exists>q \<in> set (update_where p f bs). R r q"
    by (intro bexI [of _ "if p q then f q else q"]) (auto simp: set_update_where)
qed

lemma order_edit_follows:
  assumes "order_edit p f" and "p r"
  shows "order_follows r (f r)"
proof -
  from assms obtain st where "f r = r\<lparr>o_status := st\<rparr>" and "order_next (o_status r) (o_status (f r))"
    unfolding order_edit_def by blast
  then show ?thesis by (simp add: order_follows_def)
qed

lemma ticket_edit_follows: "ticket_edit p f \<Longrightarrow> p k \<Longrightarrow> ticket_follows k (f k)"
  unfolding ticket_edit_def ticket_follows_def by blast

lemma refund_edit_follows: "refund_edit p f \<Longrightarrow> p r \<Longrightarrow> refund_follows r (f r)"
  by (simp add: refund_edit_def refund_follows_def)

lemma refunded_follows: "order_follows r (r\<lparr>o_refundedSatang := x\<rparr>)"
  by (simp add: order_follows_def)

lemma order_follows_id: "order_follows r q \<Longrightarrow> o_id q = o_id r"
  by (cases r; cases q) (simp add: order_follows_def)

lemma advanced_orders:
  assumes ok: "advanced os ks rs s" and edit: "\<And>r. r \<in> set (orders s) \<Longrightarrow> p r \<Longrightarrow> order_follows r (f r)"
  shows "advanced os ks rs (s\<lparr>orders := update_where p f (orders s)\<rparr>)"
proof -
  have "map o_id (update_where p f xs) = map o_id xs"
    if "\<And>r. r \<in> set xs \<Longrightarrow> p r \<Longrightarrow> order_follows r (f r)" for xs
    using that order_follows_id by (induction xs) auto
  from this [OF edit] have ids: "map o_id (update_where p f (orders s)) = map o_id (orders s)" .
  have "\<forall>x \<in> set (map o_id (update_where p f (orders s))). x < next_id s"
    unfolding ids using ok by (auto simp: advanced_def)
  then have "\<forall>r \<in> set (update_where p f (orders s)). o_id r < next_id s" by simp
  moreover have "\<forall>r \<in> set os. \<exists>q \<in> set (update_where p f (orders s)). order_follows r q"
  proof (rule advanced_edit)
    show "\<forall>r \<in> set os. \<exists>q \<in> set (orders s). order_follows r q" using ok by (simp add: advanced_def)
  qed (fact edit, rule order_follows_trans)
  ultimately show ?thesis using ok ids by (simp add: advanced_def)
qed

lemma advanced_tickets:
  "advanced os ks rs s \<Longrightarrow> ticket_edit p f \<Longrightarrow> advanced os ks rs (s\<lparr>tickets := update_where p f (tickets s)\<rparr>)"
  using advanced_edit [of ks "tickets s" ticket_follows p f] ticket_edit_follows [of p f] ticket_follows_trans
  unfolding advanced_def by simp

interpretation life: run_invariant "advanced os ks rs" for os ks rs
proof unfold_locales
  fix s oq og assume "advanced os ks rs s" and e: "order_edit oq og"
  then show "advanced os ks rs (s\<lparr>orders := update_where oq og (orders s)\<rparr>)"
    by (intro advanced_orders order_edit_follows [OF e])
next
  fix s i x assume "advanced os ks rs s"
  then show "advanced os ks rs (add_refunded i x s)"
    unfolding add_refunded_def by (intro advanced_orders refunded_follows)
next
  fix s i r st assume ok: "advanced os ks rs s" and r: "find_order i s = Some r" "order_next (o_status r) st"
  have one: "q = r" if "q \<in> set (orders s)" "o_id q = i" for q
    using ok that r find_SomeD [of _ "orders s" r]
    by (metis (mono_tags, lifting) advanced_def distinct_map_key_eq find_order_def)
  show "advanced os ks rs (set_status i st s)"
    unfolding set_status_def
    by (rule advanced_orders [OF ok]) (use one r(2) in \<open>auto simp: order_follows_def\<close>)
next
  fix s i now assume "advanced os ks rs s"
  then show "advanced os ks rs (s\<lparr>tickets := update_where (admissible i) (admit now) (tickets s)\<rparr>)"
    by (intro advanced_tickets ticket_edits)
next
  fix s rp rid assume "advanced os ks rs s"
  then show "advanced os ks rs (s\<lparr>tickets := update_where (voidable rp) (void_ticket rid) (tickets s)\<rparr>)"
    by (intro advanced_tickets ticket_edits)
next
  fix s rq rg assume "advanced os ks rs s" and e: "refund_edit rq rg"
  then show "advanced os ks rs (s\<lparr>refunds := update_where rq rg (refunds s)\<rparr>)"
    using advanced_edit [of rs "refunds s" refund_follows rq rg] refund_edit_follows [OF e] refund_follows_trans
    unfolding advanced_def by simp
next
  fix s t assume "advanced os ks rs s" and "elsewhere s t"
  then show "advanced os ks rs t" by (blast intro: advanced_rows elsewhere_rows)
qed (fastforce simp: advanced_def)+

lemma advanced_now: "ids_ok s \<Longrightarrow> advanced (orders s) (tickets s) (refunds s) s"
  unfolding advanced_def ids_ok_def using follows_refl by blast

section \<open>Properties\<close>

lemma reachable_ids: "reachable y \<Longrightarrow> ids_ok (y_db y)"
  using reachable_inv by (auto simp: sys_inv_def core_def)

lemma follow_rows:
  assumes "reachable y" and "sys_step\<^sup>*\<^sup>* y z"
  shows "advanced (orders (y_db y)) (tickets (y_db y)) (refunds (y_db y)) (y_db z)"
  using life.run_keeps [OF assms(2)] advanced_now [OF reachable_ids [OF assms(1)]] by blast

text \<open>
  C12: Life cycles. Whatever happens after a reachable state, under any interleaving of requests,
  jobs and webhooks, no order, ticket or refund disappears or has its identity, its price, its items
  or its owner changed. An order leaves `awaiting payment` once and then only moves from paid to
  partially refunded to refunded; a ticket leaves `issued` once, for good; a refund that succeeded
  stays so.
\<close>

theorem life_cycles:
  assumes "reachable y" and "sys_step\<^sup>*\<^sup>* y z"
  shows "(\<forall>r \<in> set (orders (y_db y)). \<exists>q \<in> set (orders (y_db z)). order_follows r q) \<and>
    (\<forall>k \<in> set (tickets (y_db y)). \<exists>j \<in> set (tickets (y_db z)). ticket_follows k j) \<and>
    (\<forall>r \<in> set (refunds (y_db y)). \<exists>q \<in> set (refunds (y_db z)). refund_follows r q)"
  using follow_rows [OF assms] unfolding advanced_def by blast

theorem life_cycles_witness:
  "list_all (\<lambda>r. list_ex (order_follows r) (orders run_admitted)) (orders run_paid) \<and>
    list_all (\<lambda>k. list_ex (ticket_follows k) (tickets run_admitted)) (tickets run_paid) \<and>
    list_all (\<lambda>r. list_ex (refund_follows r) (refunds run_admitted)) (refunds run_paid)"
  using life_cycles [OF run_paid_reachable run_aftermath] by (simp add: list_all_iff list_ex_iff)

section \<open>A purchase sent again\<close>

text \<open>What a purchase is found by: its order's id, event and idempotency key.\<close>

definition filed :: "order \<Rightarrow> id \<times> id \<times> string option" where
  "filed r = (o_id r, o_eventId r, o_idempotencyKey r)"

lemma filed_edit:
  assumes "\<And>r. p r \<Longrightarrow> filed (f r) = filed r"
  shows "map filed (update_where p f rs) = map filed rs"
  using assms by (induction rs) auto

lemma filed_order_edit: "order_edit p f \<Longrightarrow> map filed (update_where p f rs) = map filed rs"
proof (rule filed_edit)
  fix r assume "order_edit p f" and "p r"
  then obtain st where "f r = r\<lparr>o_status := st\<rparr>" unfolding order_edit_def by blast
  then show "filed (f r) = filed r" by (simp add: filed_def)
qed

lemma filed_status: "map filed (update_where p (\<lambda>r. r\<lparr>o_status := st\<rparr>) rs) = map filed rs"
  "map filed (update_where p (\<lambda>r. r\<lparr>o_refundedSatang := x r\<rparr>) rs) = map filed rs"
  by (simp_all add: filed_edit filed_def)

interpretation files: run_invariant "\<lambda>s. take (length K) (map filed (orders s)) = K" for K
proof unfold_locales
  fix s t assume "take (length K) (map filed (orders s)) = K" and "elsewhere s t"
  then show "take (length K) (map filed (orders t)) = K" by (simp add: elsewhere_rows)
next
  fix s r assume "take (length K) (map filed (orders s)) = K"
  then have "length K \<le> length (orders s)" by (metis length_map length_take min.cobounded2 min.commute)
  with \<open>take (length K) (map filed (orders s)) = K\<close>
  show "take (length K) (map filed (orders (s\<lparr>next_id := Suc (Suc (next_id s)), orders := orders s @ [r]\<rparr>))) = K"
    by simp
qed (simp_all add: filed_order_edit filed_status set_status_def add_refunded_def)

lemma find_filed:
  assumes "take (length xs) (map f ys) = map f xs" and "List.find (\<lambda>r. P (f r)) xs = Some a"
  shows "\<exists>b. List.find (\<lambda>r. P (f r)) ys = Some b \<and> f b = f a"
  using assms
proof (induction xs arbitrary: ys)
  case (Cons x xs)
  then show ?case by (cases ys) (auto split: if_splits)
qed simp

lemma key_kept:
  assumes "sys_step\<^sup>*\<^sup>* y z" and "key_of cp (y_db y) = Some r"
  shows "\<exists>q. key_of cp (y_db z) = Some q \<and> o_id q = o_id r"
proof -
  from assms(2) have k: "truthy (cp_idempotencyKey cp)"
    and r: "List.find (\<lambda>r. (\<lambda>(i, e, k). e = cp_eventId cp \<and> k = cp_idempotencyKey cp) (filed r)) (orders (y_db y)) = Some r"
    by (auto simp: findByIdempotencyKey_def filed_def split: if_splits)
  have "take (length (map filed (orders (y_db y)))) (map filed (orders (y_db y))) = map filed (orders (y_db y))" by simp
  from files.run_keeps [OF assms(1) this]
  have "take (length (orders (y_db y))) (map filed (orders (y_db z))) = map filed (orders (y_db y))" by simp
  from find_filed [OF this r] k show ?thesis
    by (auto simp: findByIdempotencyKey_def filed_def)
qed

text \<open>
  C18: Retrying a purchase is safe. Once a purchase sent with an idempotency key has been answered,
  sending it again at any later time, whatever requests, jobs and webhooks have run in between,
  answers with that same order, marked as a replay, and changes nothing: no second order, reservation,
  ticket or payment. That holds also when the order was paid, expired, canceled or refunded meanwhile.
\<close>

theorem purchase_idempotent:
  assumes "create clk ans dto cp w = (Inr (r, b), w1)" and "truthy (cp_idempotencyKey cp)"
    and "reachable y" and "y_db y = w_db w1" and "sys_step\<^sup>*\<^sup>* y z" and "w_db w2 = y_db z"
  shows "\<exists>q. create clk2 ans2 dto cp w2 = (Inr (q, True), w2) \<and> order_follows r q"
proof -
  have "distinct (map o_id (orders (y_db y)))" using reachable_ids [OF assms(3)] by (simp add: ids_ok_def)
  with create_files [OF assms(1,2)] assms(4) have k: "key_of cp (y_db y) = Some r"
    by (auto dest: key_of_in distinct_map_key_eq)
  from key_kept [OF assms(5) k] obtain q where q: "key_of cp (y_db z) = Some q" "o_id q = o_id r" by blast
  have "r \<in> set (orders (y_db y))" "q \<in> set (orders (y_db z))" using k q(1) by (auto dest: key_of_in)
  moreover have "distinct (map o_id (orders (y_db z)))"
    using reachable_ids [OF reachable_steps [OF assms(3,5)]] by (simp add: ids_ok_def)
  ultimately have "order_follows r q"
    using follow_rows [OF assms(3,5)] q(2) unfolding advanced_def
    by (metis distinct_map_key_eq order_follows_id)
  moreover have "create clk2 ans2 dto cp w2 = (Inr (q, True), w2)"
    using create_replays [OF create_asked [OF assms(1)]] q(1) assms(6) by simp
  ultimately show ?thesis by blast
qed

text \<open>Ann's purchase expires unpaid; sending it again answers with the expired order.\<close>

definition run_bought :: "(error + order \<times> bool) \<times> world" where
  "run_bought = create demo_clock buy_answer run_floor_dto (run_params ''k1'') (demo_world run_listed)"

definition run_expired :: db where
  "run_expired = snd (projr (releaseOrderInventoryInTx 700000 8 Expired (w_db (snd run_bought))))"

lemma run_bought_eq: "create demo_clock buy_answer run_floor_dto (run_params ''k1'') (demo_world run_listed) =
    (Inr (fst (projr (fst run_bought)), False), snd run_bought)"
  by code_simp

lemma run_expired_eq: "releaseOrderInventoryInTx 700000 8 Expired (w_db (snd run_bought)) = Inr (True, run_expired)"
  by code_simp

lemma run_bought_orders: "o_id (fst (projr (fst run_bought))) = 8" "map o_status (orders run_expired) = [Expired]"
  "map o_id (orders run_expired) = [8]"
  by code_simp+

lemma run_bought_db: "w_db (snd run_bought) = run_ordered\<lparr>payments := payments (w_db (snd run_bought))\<rparr>"
  by code_simp

lemma run_bought_reachable: "reachable (run_system (w_db (snd run_bought)) [])"
proof -
  have "reachable (run_system run_ordered [])"
    by (rule reachable_step [OF run_listed_reachable run_step(1) [OF _ run_steps(1)]]) simp
  moreover have "elsewhere run_ordered (w_db (snd run_bought))"
    by (subst run_bought_db) (simp add: elsewhere_def)
  ultimately show ?thesis by (blast intro: reachable_step run_step tx_step.other)
qed

theorem purchase_idempotent_witness:
  "\<exists>q. create demo_clock Network_failure run_floor_dto (run_params ''k1'') (demo_world run_expired) =
      (Inr (q, True), demo_world run_expired) \<and> o_id q = 8 \<and> o_status q = Expired"
proof -
  have k: "truthy (cp_idempotencyKey (run_params ''k1''))" by (simp add: run_params_def truthy_def)
  have "sys_step\<^sup>*\<^sup>* (run_system (w_db (snd run_bought)) []) (run_system run_expired [])"
    by (blast intro: run_step tx_step.release run_expired_eq)
  from purchase_idempotent [OF run_bought_eq k run_bought_reachable _ this, of "demo_world run_expired" demo_clock Network_failure]
  obtain q where q: "create demo_clock Network_failure run_floor_dto (run_params ''k1'') (demo_world run_expired) =
      (Inr (q, True), demo_world run_expired)" "order_follows (fst (projr (fst run_bought))) q"
    by (auto simp: demo_world_def)
  have "create demo_clock Network_failure run_floor_dto (run_params ''k1'') (demo_world run_expired) =
      (Inr (hd (orders run_expired), True), demo_world run_expired)" by code_simp
  with q run_bought_orders show ?thesis by (auto simp: order_follows_id)
qed

section \<open>Tickets that were used\<close>

lemma final_ticket:
  assumes "reachable y" and "sys_step\<^sup>*\<^sup>* y z" and "k \<in> set (tickets (y_db y))" and "t_status k \<noteq> Issued"
    and "j \<in> set (tickets (y_db z))" and "t_id j = t_id k"
  shows "j = k"
proof -
  have "reachable z" using reachable_steps [OF assms(1,2)] .
  from reachable_ids [OF this] have ids: "distinct (map t_id (tickets (y_db z)))" by (simp add: ids_ok_def)
  from follow_rows [OF assms(1,2)] assms(3) obtain q where "q \<in> set (tickets (y_db z))" "ticket_follows k q"
    unfolding advanced_def by blast
  with assms(4) have "k \<in> set (tickets (y_db z))" by (simp add: ticket_follows_def)
  with ids assms(5,6) show ?thesis by (auto dest: distinct_map_key_eq)
qed

lemma void_all_or_nothing:
  assumes "refund_tx clk rp s = Inr (rid, s')"
  shows "count_where (voidable rp) (tickets s) = length (rp_ticketIds rp)"
  using assms by (auto simp: refund_tx_def void_tickets_def tx_simps)

text \<open>
  C15: The door and the refund desk exclude each other, however long ago the other one acted: a ticket
  once checked in can never be refunded (every refund naming it fails as a whole), and a ticket once
  voided is never admitted again.
\<close>

theorem used_ticket_is_final:
  assumes "reachable y" and "sys_step\<^sup>*\<^sup>* y z" and "k \<in> set (tickets (y_db y))" and "t_status k \<noteq> Issued"
    and "distinct (rp_ticketIds rp)" and "t_id k \<in> set (rp_ticketIds rp)"
  shows "refund_tx clk rp (y_db z) \<noteq> Inr (rid, s') \<and> admit_tx now (t_id k) (y_db z) = Inr (0, y_db z)"
proof
  have ids: "distinct (map t_id (tickets (y_db z)))"
    using reachable_ids [OF reachable_steps [OF assms(1,2)]] by (simp add: ids_ok_def)
  have none: "\<not> voidable rp j \<and> \<not> admissible (t_id k) j" if "j \<in> set (tickets (y_db z))" "t_id j = t_id k" for j
    using final_ticket [OF assms(1-4) that] assms(4) by (simp add: voidable_def admissible_def)
  show "refund_tx clk rp (y_db z) \<noteq> Inr (rid, s')"
  proof
    assume "refund_tx clk rp (y_db z) = Inr (rid, s')"
    from void_all_or_nothing [OF this]
    have len: "length (filter (voidable rp) (tickets (y_db z))) = length (rp_ticketIds rp)"
      by (simp add: count_where_def)
    let ?ids = "map t_id (filter (voidable rp) (tickets (y_db z)))"
    have "set ?ids \<subseteq> set (rp_ticketIds rp)" by (auto simp: voidable_def)
    with len ids assms(5) have "set ?ids = set (rp_ticketIds rp)"
      using distinct_subset_mset [of ?ids "rp_ticketIds rp"] by (simp add: distinct_map_filter)
    with assms(6) have "t_id k \<in> set ?ids" by blast
    with none show False by auto
  qed
  have "\<forall>j \<in> set (tickets (y_db z)). \<not> admissible (t_id k) j" using none by (auto simp: admissible_def)
  then show "admit_tx now (t_id k) (y_db z) = Inr (0, y_db z)"
    by (simp add: admit_tx_def count_where_0 update_where_id)
qed

theorem used_ticket_is_final_witness:
  "refund_tx demo_clock run_refund_plan run_refunded \<noteq> Inr (0, run_paid) \<and>
    admit_tx 5000 13 run_refunded = Inr (0, run_refunded)"
proof -
  let ?k = "the (find (\<lambda>k. t_id k = 13) (tickets run_refunded))"
  have y: "reachable (run_system run_refunded [run_refund_plan])"
    using reachable_step [OF reachable_step [OF run_paid_reachable run_step(4) [OF run_later(1)]]
      run_step(5) [OF _ run_later(2)]] by simp
  have k: "find (\<lambda>k. t_id k = 13) (tickets run_refunded) = Some ?k \<and> t_id ?k = 13 \<and> t_status ?k = Void"
    by code_simp
  from k have "?k \<in> set (tickets run_refunded)" using find_SomeD by metis
  moreover have "rp_ticketIds run_refund_plan = [13]" by code_simp
  ultimately show ?thesis
    using used_ticket_is_final [OF y rtranclp.rtrancl_refl, of ?k run_refund_plan demo_clock 0 run_paid 5000] k
    by simp
qed

end
