(* ===== verification/Ledger.thy ===== *)
theory Ledger
  imports Lifecycle
begin

text \<open>
  The ledger of refunds: what an order shows as refunded is the sum of its refunds that succeeded.
  \<open>ledger D s\<close> says that the two differ by \<open>D i\<close> on order \<open>i\<close>; the transactions move the
  difference away from zero only between their own two writes.
\<close>

definition booked :: "id \<Rightarrow> order list \<Rightarrow> satang" where
  "booked i os = sum_by (\<lambda>r. if o_id r = i then o_refundedSatang r else 0) os"

definition settled :: "id \<Rightarrow> refund list \<Rightarrow> satang" where
  "settled i rs = sum_by (\<lambda>q. if r_orderId q = i \<and> r_status q = R_succeeded then r_amountSatang q else 0) rs"

definition ledger :: "(id \<Rightarrow> satang) \<Rightarrow> db \<Rightarrow> bool" where
  "ledger D s \<longleftrightarrow> distinct (map o_id (orders s)) \<and> (\<forall>r \<in> set (orders s). o_id r < next_id s) \<and>
     distinct (map r_id (refunds s)) \<and> (\<forall>q \<in> set (refunds s). r_id q < next_id s) \<and>
     (\<forall>i. booked i (orders s) = settled i (refunds s) + D i)"

lemma ledger_rows:
  assumes "ledger D s" and "refunds t = refunds s" and "next_id s \<le> next_id t"
    and "map (\<lambda>r. (o_id r, o_refundedSatang r)) (orders t) = map (\<lambda>r. (o_id r, o_refundedSatang r)) (orders s)"
  shows "ledger D t"
proof -
  have pairs: "booked i os = sum_by (\<lambda>p. if fst p = i then snd p else 0) (map (\<lambda>r. (o_id r, o_refundedSatang r)) os)"
    "map o_id os = map fst (map (\<lambda>r. (o_id r, o_refundedSatang r)) os)" for i os
    by (auto simp: booked_def sum_by_map comp_def intro: sum_by_cong)
  have ids: "map o_id (orders t) = map o_id (orders s)" by (simp only: pairs(2) assms(4))
  have "\<forall>x \<in> set (map o_id (orders t)). x < next_id t"
    unfolding ids using assms(1,3) by (auto simp: ledger_def)
  then have "\<forall>r \<in> set (orders t). o_id r < next_id t" by simp
  then show ?thesis
    using assms(1-3) unfolding ledger_def pairs assms(4) by auto
qed

lemma ledger_order_edit:
  assumes "ledger D s"
    and "\<And>r. r \<in> set (orders s) \<Longrightarrow> p r \<Longrightarrow> o_id (f r) = o_id r \<and> o_refundedSatang (f r) = o_refundedSatang r"
  shows "ledger D (s\<lparr>orders := update_where p f (orders s)\<rparr>)"
proof (rule ledger_rows [OF assms(1)])
  have "map (\<lambda>r. (o_id r, o_refundedSatang r)) (update_where p f os) = map (\<lambda>r. (o_id r, o_refundedSatang r)) os"
    if "\<And>r. r \<in> set os \<Longrightarrow> p r \<Longrightarrow> o_id (f r) = o_id r \<and> o_refundedSatang (f r) = o_refundedSatang r" for os
    using that by (induction os) auto
  from this [OF assms(2)] show "map (\<lambda>r. (o_id r, o_refundedSatang r)) (orders (s\<lparr>orders := update_where p f (orders s)\<rparr>)) =
      map (\<lambda>r. (o_id r, o_refundedSatang r)) (orders s)"
    by simp
qed simp_all

interpretation ledger: void_invariant "ledger D" for D
proof unfold_locales
  fix s and r :: order assume ok: "ledger D s" and r: "o_id r = next_id s" "o_refundedSatang r = 0"
  from r(2) have "booked i (orders s @ [r]) = booked i (orders s)" for i by (simp add: booked_def)
  with ok r show "ledger D (s\<lparr>next_id := Suc (Suc (next_id s)), orders := orders s @ [r]\<rparr>)"
    by (fastforce simp: ledger_def)
next
  fix s oq og assume ok: "ledger D s" and e: "order_edit oq og"
  show "ledger D (s\<lparr>orders := update_where oq og (orders s)\<rparr>)"
  proof (rule ledger_order_edit [OF ok])
    fix r assume "oq r"
    with e obtain st where "og r = r\<lparr>o_status := st\<rparr>" unfolding order_edit_def by blast
    then show "o_id (og r) = o_id r \<and> o_refundedSatang (og r) = o_refundedSatang r" by simp
  qed
qed (auto simp: set_status_def intro: ledger_order_edit elim: ledger_rows)

lemma ledger_booked:
  assumes "ledger D s" and "find_order i s = Some r"
  shows "ledger (D(i := D i + x)) (add_refunded i x s)"
proof -
  let ?os = "update_where (\<lambda>r. o_id r = i) (\<lambda>r. r\<lparr>o_refundedSatang := o_refundedSatang r + x\<rparr>) (orders s)"
  from find_order_in [OF assms(2)] have r: "r \<in> set (orders s)" "o_id r = i" by auto
  have one: "filter (\<lambda>r. o_id r = i) (orders s) = [r]"
    using assms(1) r by (intro update_one [where k = o_id]) (auto simp: ledger_def)
  have "booked j ?os = booked j (orders s) + (if j = i then x else 0)" for j
    using r(2) by (auto simp: booked_def sum_by_update_where one)
  moreover have "map o_id ?os = map o_id (orders s)" by (rule map_update_where) simp
  ultimately show ?thesis
    using assms(1) by (auto simp: ledger_def add_refunded_def row_simps)
qed

lemma ledger_settle:
  assumes "settleInTx now i x s = Inr (a, s')" and "ledger D s"
  shows "ledger (D(i := D i + x)) s'"
proof -
  from assms(1) obtain r where "find_order i s = Some r" by (auto simp: settleInTx_def tx_simps)
  with assms show ?thesis by (intro ledger.settle_tail [OF assms(1)] ledger_booked)
qed

lemma ledger_refund_edit:
  assumes "ledger D s"
    and "\<And>q. p q \<Longrightarrow> r_id (f q) = r_id q \<and> r_orderId (f q) = r_orderId q \<and>
      r_amountSatang (f q) = r_amountSatang q \<and> (r_status (f q) = R_succeeded \<longleftrightarrow> r_status q = R_succeeded)"
  shows "ledger D (s\<lparr>refunds := update_where p f (refunds s)\<rparr>)"
proof -
  have ids: "map r_id (update_where p f rs) = map r_id rs" for rs
    using assms(2) by (induction rs) auto
  have "settled i (update_where p f rs) = settled i rs" for rs i
    using assms(2) unfolding settled_def by (induction rs) auto
  moreover have "\<forall>x \<in> set (map r_id (update_where p f (refunds s))). x < next_id s"
    unfolding ids using assms(1) by (auto simp: ledger_def)
  then have "\<forall>q \<in> set (update_where p f (refunds s)). r_id q < next_id s" by simp
  ultimately show ?thesis using assms(1) by (simp add: ledger_def ids)
qed

lemma ledger_refunded: "keepsT (ledger D) (refunded_tx clk rid prov)"
proof (unfold keepsT_def, intro allI impI)
  fix s a s' assume ok: "ledger D s" and run: "refunded_tx clk rid prov s = Inr (a, s')"
  let ?f = "settle_row (app_now clk) prov"
  let ?rs = "update_where (refund_in rid R_pending) ?f (refunds s)"
  show "ledger D s'"
  proof (cases "count_where (refund_in rid R_pending) (refunds s) = 0")
    case True
    with run have "s' = s\<lparr>refunds := ?rs\<rparr>" by (simp add: refunded_tx_def tx_simps)
    moreover have "?rs = refunds s" using True by (rule settle_claim.lost_claim_changes_nothing)
    ultimately show ?thesis using ok by simp
  next
    case False
    then obtain q where q: "q \<in> set (refunds s)" "refund_in rid R_pending q"
      by (auto simp: count_where_0)
    have one: "filter (refund_in rid R_pending) (refunds s) = [q]"
      using ok q by (intro update_one [where k = r_id]) (auto simp: ledger_def refund_in_def)
    let ?D = "D(r_orderId q := D (r_orderId q) - r_amountSatang q)"
    have ids: "map r_id ?rs = map r_id (refunds s)" by (rule map_update_where) (simp add: settle_row_def)
    have "settled i ?rs = settled i (refunds s) + (if i = r_orderId q then r_amountSatang q else 0)" for i
      using q(2) by (auto simp: settled_def sum_by_update_where one settle_row_def refund_in_def)
    then have s1: "ledger ?D (s\<lparr>refunds := ?rs\<rparr>)"
      using ok ids by (auto simp: ledger_def row_simps settle_row_def)
    have "?f q \<in> set ?rs" using q by (auto simp: row_simps)
    then have "find_refund rid (s\<lparr>refunds := ?rs\<rparr>) = Some (?f q)"
      using find_key [of r_id ?rs "?f q"] ids ok q(2)
      by (simp add: find_refund_def ledger_def refund_in_def settle_row_def)
    with run False obtain u where "settleInTx (db_now clk) (r_orderId q) (r_amountSatang q) (s\<lparr>refunds := ?rs\<rparr>) = Inr (u, s')"
      by (auto simp: refunded_tx_def tx_simps settle_row_def)
    from ledger_settle [OF this s1] show ?thesis by simp
  qed
qed

lemma ledger_refund_add:
  assumes "ledger D s" and "r_id q = next_id s" and "r_status q = R_succeeded \<Longrightarrow> r_amountSatang q = 0"
  shows "ledger D (s\<lparr>next_id := Suc (next_id s), refunds := refunds s @ [q]\<rparr>)"
proof -
  have "settled i (refunds s @ [q]) = settled i (refunds s)" for i using assms(3) by (simp add: settled_def)
  with assms(1,2) show ?thesis by (fastforce simp: ledger_def)
qed

lemma ledger_announce: "keepsT (ledger D) (announce_refund clk rp)"
proof -
  have free: "keepsT (ledger D) (settleInTx now i 0)" for now i
    unfolding keepsT_def using ledger_settle [where x = 0] by fastforce
  show ?thesis
    unfolding announce_refund_def
    by (intro keeps ledger.keeps_pieces free | simp only: split: if_split | intro conjI impI)+
qed

lemma ledger_refund_tx: "keepsT (ledger D) (refund_tx clk rp)"
proof (unfold keepsT_def, intro allI impI)
  fix s a s' assume ok: "ledger D s" and run: "refund_tx clk rp s = Inr (a, s')"
  let ?q = "new_refund clk rp (next_id s)"
  let ?rest = "bindT (void_tickets rp (next_id s)) (\<lambda>_.
     bindT (for_eachT (\<lambda>(tid, n). add_remaining tid n) (restored rp)) (\<lambda>_.
     bindT (announce_refund clk rp) (\<lambda>_. returnT (next_id s))))"
  have "keepsT (ledger D) ?rest"
    by (intro keeps ledger.keeps_void ledger.keeps_pieces ledger_announce
        | simp only: split: prod.split | intro allI impI)+
  moreover have "ledger D (s\<lparr>next_id := Suc (next_id s), refunds := refunds s @ [?q]\<rparr>)"
    using ok by (rule ledger_refund_add) (simp_all add: new_refund_def rp_free_def split: if_splits)
  moreover have "?rest (s\<lparr>next_id := Suc (next_id s), refunds := refunds s @ [?q]\<rparr>) = Inr (a, s')"
    using run unfolding refund_tx_def bindT_fresh bindT_refund_Inr refunds_next by (elim conjE)
  ultimately show "ledger D s'" by (rule keepsTD)
qed

lemma ledger_money_leg:
  "keepsT (ledger D) (set_provider_refund rid prov)" "keepsT (ledger D) (fail_refund rid)"
  "keepsT (ledger D) (reopen_refund rid)" "keepsT (ledger D) (compensation_tx clk i x)"
proof -
  show "keepsT (ledger D) (set_provider_refund rid prov)"
    by (auto simp: keepsT_def set_provider_refund_def intro: ledger_refund_edit split: option.splits)
  show "keepsT (ledger D) (fail_refund rid)"
    unfolding fail_refund_def by (intro keepsT_write ledger_refund_edit) (simp_all add: refund_in_def)
  show "keepsT (ledger D) (reopen_refund rid)"
    by (auto simp: keepsT_def reopen_refund_def refund_in_def intro: ledger_refund_edit)
  show "keepsT (ledger D) (compensation_tx clk i x)"
    by (auto simp: keepsT_def compensation_tx_def bindT_Inr fresh_id_Inr insert_refund_Inr returnT_Inr
        intro: ledger_refund_add)
qed

lemma ledger_tx_step:
  assumes "tx_step s t" and "ledger D s"
  shows "ledger D t"
  using assms(1)
proof cases
  case (unhold ev seat key)
  with assms(2) show ?thesis by (simp add: ledger.hold_write)
next
  case other
  from elsewhere_rows [OF this] show ?thesis by (intro ledger_rows [OF assms(2)]) simp_all
qed (use assms(2) in \<open>blast intro: keepsTD ledger.keeps_holds ledger.keeps_release ledger.keeps_succeeded
    ledger.keeps_failed ledger_refunded ledger_money_leg ledger.keeps_admit ledger.keeps_type
    ledger.keeps_create_map\<close>)+

lemma ledger_sys_step: "sys_step y z \<Longrightarrow> ledger D (y_db y) \<Longrightarrow> ledger D (y_db z)"
  by (erule sys_stepE) (auto intro: ledger_tx_step keepsTD [OF ledger.keeps_create] keepsTD [OF ledger_refund_tx]
      keepsTD [OF ledger.keeps_holds(1)])

section \<open>Refunds and the tickets they void\<close>

definition refund_cost :: "order_item list \<Rightarrow> ticket list \<Rightarrow> satang" where
  "refund_cost its ks = sum_by (\<lambda>k. price_by_type its (t_ticketTypeId k)) ks"

definition voided_for :: "id \<Rightarrow> ticket \<Rightarrow> bool" where
  "voided_for rid k \<longleftrightarrow> t_status k = Void \<and> t_refundId k = Some rid"

definition desk_refund_ok :: "order list \<Rightarrow> ticket list \<Rightarrow> refund \<Rightarrow> bool" where
  "desk_refund_ok os ks q \<longleftrightarrow> (\<exists>r \<in> set os. o_id r = r_orderId q \<and>
     r_amountSatang q = refund_cost (o_items r) (filter (voided_for (r_id q)) ks))"

definition backed :: "db \<Rightarrow> bool" where
  "backed s \<longleftrightarrow> (\<forall>q \<in> set (refunds s). r_id q < next_id s \<and>
       (r_requestedById q \<noteq> None \<longrightarrow> desk_refund_ok (orders s) (tickets s) q)) \<and>
     (\<forall>k \<in> set (tickets s). t_status k = Void \<longrightarrow>
       (\<exists>q \<in> set (refunds s). t_refundId k = Some (r_id q) \<and> r_orderId q = t_orderId k))"

lemma backed_orders:
  assumes "backed s" and "\<And>r. r \<in> set (orders s) \<Longrightarrow> \<exists>x \<in> set os. o_id x = o_id r \<and> o_items x = o_items r"
    and "next_id s \<le> n"
  shows "backed (s\<lparr>next_id := n, orders := os\<rparr>)"
proof -
  have "desk_refund_ok os (tickets s) q" if "desk_refund_ok (orders s) (tickets s) q" for q
    using that assms(2) unfolding desk_refund_ok_def by metis
  with assms(1,3) show ?thesis by (fastforce simp: backed_def)
qed

lemma backed_order_edit:
  assumes "backed s" and "\<And>r. p r \<Longrightarrow> o_id (f r) = o_id r \<and> o_items (f r) = o_items r"
  shows "backed (s\<lparr>orders := update_where p f (orders s)\<rparr>)"
proof -
  have "backed (s\<lparr>next_id := next_id s, orders := update_where p f (orders s)\<rparr>)"
  proof (rule backed_orders [OF assms(1)])
    fix r assume "r \<in> set (orders s)"
    with assms(2) show "\<exists>x \<in> set (update_where p f (orders s)). o_id x = o_id r \<and> o_items x = o_items r"
      by (intro bexI [of _ "if p r then f r else r"]) (auto simp: set_update_where)
  qed simp
  then show ?thesis by simp
qed

lemma backed_settle_edit:
  assumes ok: "backed s" and edit: "\<And>q. p q \<Longrightarrow> r_id (f q) = r_id q \<and> r_orderId (f q) = r_orderId q \<and>
      r_amountSatang (f q) = r_amountSatang q \<and> r_requestedById (f q) = r_requestedById q"
  shows "backed (s\<lparr>refunds := update_where p f (refunds s)\<rparr>)"
  unfolding backed_def
proof (intro conjI ballI)
  fix q assume "q \<in> set (refunds (s\<lparr>refunds := update_where p f (refunds s)\<rparr>))"
  then obtain x where x: "x \<in> set (refunds s)" and "q = (if p x then f x else x)"
    by (auto simp: set_update_where)
  with edit [of x] have q: "r_id q = r_id x" "r_orderId q = r_orderId x" "r_amountSatang q = r_amountSatang x"
      "r_requestedById q = r_requestedById x" by auto
  show "r_id q < next_id (s\<lparr>refunds := update_where p f (refunds s)\<rparr>)"
    using ok x q by (simp add: backed_def)
  show "r_requestedById q \<noteq> None \<longrightarrow> desk_refund_ok (orders (s\<lparr>refunds := update_where p f (refunds s)\<rparr>))
      (tickets (s\<lparr>refunds := update_where p f (refunds s)\<rparr>)) q"
    using ok x unfolding backed_def desk_refund_ok_def by (simp add: q)
next
  fix k assume "k \<in> set (tickets (s\<lparr>refunds := update_where p f (refunds s)\<rparr>))"
  show "t_status k = Void \<longrightarrow> (\<exists>q \<in> set (refunds (s\<lparr>refunds := update_where p f (refunds s)\<rparr>)).
      t_refundId k = Some (r_id q) \<and> r_orderId q = t_orderId k)"
  proof
    assume "t_status k = Void"
    with ok \<open>k \<in> _\<close> obtain x where "x \<in> set (refunds s)" "t_refundId k = Some (r_id x)" "r_orderId x = t_orderId k"
      by (auto simp: backed_def)
    with edit [of x] show "\<exists>q \<in> set (refunds (s\<lparr>refunds := update_where p f (refunds s)\<rparr>)).
        t_refundId k = Some (r_id q) \<and> r_orderId q = t_orderId k"
      by (intro bexI [of _ "if p x then f x else x"]) (auto simp: set_update_where)
  qed
qed

interpretation backed: settle_invariant backed
proof unfold_locales
  fix s and r :: order assume "backed s"
  from backed_orders [OF this, of "orders s @ [r]" "Suc (Suc (next_id s))"]
  show "backed (s\<lparr>next_id := Suc (Suc (next_id s)), orders := orders s @ [r]\<rparr>)" by auto
next
  fix s oq og assume ok: "backed s" and e: "order_edit oq og"
  show "backed (s\<lparr>orders := update_where oq og (orders s)\<rparr>)"
  proof (rule backed_order_edit [OF ok])
    fix r assume "oq r"
    with e obtain st where "og r = r\<lparr>o_status := st\<rparr>" unfolding order_edit_def by blast
    then show "o_id (og r) = o_id r \<and> o_items (og r) = o_items r" by simp
  qed
next
  fix s i now assume ok: "backed s"
  let ?ks = "update_where (admissible i) (admit now) (tickets s)"
  have "filter (voided_for rid) (update_where (admissible i) (admit now) ks) = filter (voided_for rid) ks" for rid ks
    by (induction ks) (auto simp: voided_for_def admissible_def admit_def)
  then have "desk_refund_ok os ?ks q = desk_refund_ok os (tickets s) q" for os q
    by (simp add: desk_refund_ok_def)
  moreover have "k \<in> set (tickets s)" if "k \<in> set ?ks" "t_status k = Void" for k
    using that by (auto simp: set_update_where admit_def split: if_splits)
  ultimately show "backed (s\<lparr>tickets := ?ks\<rparr>)" using ok by (auto simp: backed_def)
next
  fix s rq rg assume ok: "backed s" and e: "refund_edit rq rg"
  show "backed (s\<lparr>refunds := update_where rq rg (refunds s)\<rparr>)"
  proof (rule backed_settle_edit [OF ok])
    fix q assume "rq q"
    with e obtain st pr se where "rg q = q\<lparr>r_status := st, r_providerRefundId := pr, r_settledAt := se\<rparr>"
      unfolding refund_edit_def by blast
    then show "r_id (rg q) = r_id q \<and> r_orderId (rg q) = r_orderId q \<and>
      r_amountSatang (rg q) = r_amountSatang q \<and> r_requestedById (rg q) = r_requestedById q" by simp
  qed
next
  show "backed (set_status i st s)" if "backed s" for s i st
    unfolding set_status_def by (rule backed_order_edit [OF that]) simp
  show "backed (add_refunded i x s)" if "backed s" for s i x
    unfolding add_refunded_def by (rule backed_order_edit [OF that]) simp
qed (auto simp: backed_def desk_refund_ok_def voided_for_def)

text \<open>A refund plan is priced by the items of its order; neither ever changes.\<close>

definition plan_priced :: "db \<Rightarrow> refund_plan \<Rightarrow> bool" where
  "plan_priced s rp \<longleftrightarrow> (\<exists>r \<in> set (orders s). o_id r = rp_orderId rp \<and>
     rp_amount rp = refund_cost (o_items r) (rp_tickets rp))"

lemma plan_refund_priced: "plan_refund ri s = Inr rp \<Longrightarrow> plan_priced s rp"
  by (auto simp: plan_refund_def plan_priced_def refund_cost_def Let_def dest!: find_SomeD
      split: option.splits if_splits)

lemma refund_cost_keys: "refund_cost its ks = sum_by (\<lambda>x. price_by_type its (fst (snd (snd x)))) (map ticket_key ks)"
  by (simp add: refund_cost_def sum_by_map ticket_key_def comp_def)

lemma voided_filter:
  assumes "\<And>k. k \<in> set ks \<Longrightarrow> \<not> voided_for rid k"
  shows "filter (voided_for rid) (update_where (voidable rp) (void_ticket rid) ks) =
      map (void_ticket rid) (filter (voidable rp) ks)"
    and "i \<noteq> rid \<Longrightarrow> filter (voided_for i) (update_where (voidable rp) (void_ticket rid) ks) = filter (voided_for i) ks"
  using assms by (induction ks) (auto simp: voided_for_def void_ticket_def voidable_def)

lemma backed_void:
  assumes ok: "backed s" and ids: "ids_ok s" and plan: "refund_plan_ok s rp" and priced: "plan_priced s rp"
    and count: "count_where (voidable rp) (tickets s) = length (rp_ticketIds rp)"
  shows "backed (s\<lparr>next_id := Suc (next_id s), refunds := refunds s @ [new_refund clk rp (next_id s)],
    tickets := update_where (voidable rp) (void_ticket (next_id s)) (tickets s)\<rparr>)"
proof -
  let ?rid = "next_id s" and ?q = "new_refund clk rp (next_id s)"
  let ?ks = "update_where (voidable rp) (void_ticket (next_id s)) (tickets s)"
  have unused: "\<not> voided_for ?rid k" if "k \<in> set (tickets s)" for k
  proof
    assume "voided_for ?rid k"
    then have "t_status k = Void" "t_refundId k = Some ?rid" by (simp_all add: voided_for_def)
    with ok that obtain q where "q \<in> set (refunds s)" "r_id q = ?rid" by (auto simp: backed_def)
    with ok show False by (auto simp: backed_def)
  qed
  note filters = voided_filter [of "tickets s" ?rid, OF unused]
  from priced obtain r where r: "r \<in> set (orders s)" "o_id r = rp_orderId rp"
    "rp_amount rp = refund_cost (o_items r) (rp_tickets rp)" by (auto simp: plan_priced_def)
  have "refund_cost (o_items r) (filter (voided_for ?rid) ?ks) = refund_cost (o_items r) (filter (voidable rp) (tickets s))"
    by (simp add: filters(1) refund_cost_def sum_by_map void_ticket_def comp_def)
  also have "\<dots> = rp_amount rp"
    by (simp only: refund_cost_keys voided_keys [OF ids plan count] r(3))
  finally have new: "desk_refund_ok (orders s) ?ks ?q"
    using r by (auto simp: desk_refund_ok_def new_refund_def)
  have old: "desk_refund_ok (orders s) ?ks q = desk_refund_ok (orders s) (tickets s) q" if "q \<in> set (refunds s)" for q
  proof -
    from ok that have "r_id q \<noteq> ?rid" by (auto simp: backed_def)
    then show ?thesis by (simp add: desk_refund_ok_def filters(2))
  qed
  have "\<exists>q \<in> insert ?q (set (refunds s)). t_refundId k = Some (r_id q) \<and> r_orderId q = t_orderId k"
    if k: "k \<in> set ?ks" "t_status k = Void" for k
  proof (cases "k \<in> set (tickets s)")
    case True
    with ok k(2) show ?thesis by (auto simp: backed_def)
  next
    case False
    with k(1) obtain x where "x \<in> set (tickets s)" "voidable rp x" "k = void_ticket ?rid x"
      by (auto simp: set_update_where)
    then show ?thesis by (intro bexI [of _ ?q]) (auto simp: new_refund_def voidable_def void_ticket_def)
  qed
  moreover have "r_id ?q = ?rid" by (simp add: new_refund_def)
  moreover have "\<forall>q \<in> set (refunds s). r_id q < Suc ?rid" using ok by (auto simp: backed_def less_SucI)
  ultimately show ?thesis using ok new old by (auto simp: backed_def)
qed

lemma backed_refund_tx:
  assumes ok: "backed s" and ids: "ids_ok s" and plan: "refund_plan_ok s rp" and priced: "plan_priced s rp"
    and run: "refund_tx clk rp s = Inr (a, s')"
  shows "backed s'"
proof -
  let ?s2 = "s\<lparr>next_id := Suc (next_id s), refunds := refunds s @ [new_refund clk rp (next_id s)],
    tickets := update_where (voidable rp) (void_ticket (next_id s)) (tickets s)\<rparr>"
  let ?rest = "bindT (for_eachT (\<lambda>(tid, n). add_remaining tid n) (restored rp)) (\<lambda>_.
     bindT (announce_refund clk rp) (\<lambda>_. returnT (next_id s)))"
  from run have count: "count_where (voidable rp) (tickets s) = length (rp_ticketIds rp)"
    and rest: "?rest ?s2 = Inr (a, s')"
    unfolding refund_tx_def bindT_fresh bindT_refund_Inr void_tickets_def
    by (auto simp: bindT_Inr readT_Inr writeT_Inr guardT_Inr)
  have "keepsT backed ?rest"
    unfolding announce_refund_def
    by (intro keeps backed.keeps_pieces backed.keeps_settle
        | simp only: split: if_split prod.split | intro conjI impI allI)+
  from keepsTD [OF this backed_void [OF ok ids plan priced count] rest] show ?thesis .
qed

lemma backed_compensation: "keepsT backed (compensation_tx clk i x)"
  by (fastforce simp: keepsT_def compensation_tx_def bindT_Inr fresh_id_Inr insert_refund_Inr returnT_Inr
      backed_def less_SucI)

lemma backed_tx_step:
  assumes "tx_step s t" and "backed s"
  shows "backed t"
  using assms(1)
proof cases
  case (unhold ev seat key)
  with assms(2) show ?thesis by (simp add: backed.hold_write)
next
  case other
  from elsewhere_rows [OF this] assms(2) show ?thesis by (fastforce simp: backed_def)
qed (use assms(2) in \<open>blast intro: keepsTD backed.keeps_holds backed.keeps_release backed.keeps_succeeded
    backed.keeps_failed backed.keeps_refunded backed.keeps_money_leg backed_compensation backed.keeps_admit
    backed.keeps_type backed.keeps_create_map\<close>)+

definition books_ok :: "system \<Rightarrow> bool" where
  "books_ok y \<longleftrightarrow> ledger (\<lambda>_. 0) (y_db y) \<and> backed (y_db y) \<and> (\<forall>rp \<in> set (y_refunds y). plan_priced (y_db y) rp)"

lemma order_follows_items: "order_follows r q \<Longrightarrow> o_items q = o_items r"
  by (cases r; cases q) (simp add: order_follows_def)

lemma plan_priced_step:
  assumes "ids_ok (y_db y)" and "sys_step y z" and "plan_priced (y_db y) rp"
  shows "plan_priced (y_db z) rp"
proof -
  from assms(3) obtain r where r: "r \<in> set (orders (y_db y))" "o_id r = rp_orderId rp"
    "rp_amount rp = refund_cost (o_items r) (rp_tickets rp)" by (auto simp: plan_priced_def)
  from life.sys_step_keeps [OF assms(2) advanced_now [OF assms(1)]] r(1)
  obtain q where q: "q \<in> set (orders (y_db z))" "order_follows r q" unfolding advanced_def by blast
  with r order_follows_items [OF q(2)] order_follows_id [OF q(2)] show ?thesis by (auto simp: plan_priced_def)
qed

lemma backed_sys_step:
  assumes "sys_inv y" and "books_ok y" and "sys_step y z"
  shows "backed (y_db z)"
  using assms(3)
proof cases
  case (refund rp clk rid s')
  with assms(1,2) show ?thesis
    by (auto simp: sys_inv_def core_def books_ok_def intro: backed_refund_tx)
qed (use assms(2) in \<open>auto simp: books_ok_def intro: backed_tx_step keepsTD [OF backed.keeps_create]
    keepsTD [OF backed.keeps_holds(1)]\<close>)

lemma books_step:
  assumes "sys_inv y" and "books_ok y" and "sys_step y z"
  shows "books_ok z"
proof -
  have "ids_ok (y_db y)" using assms(1) by (simp add: sys_inv_def core_def)
  note keep = plan_priced_step [OF this assms(3)]
  have "\<forall>rp \<in> set (y_refunds z). plan_priced (y_db z) rp"
    using assms(3)
  proof cases
    case (read_refund ri rp)
    with assms(2) show ?thesis by (auto simp: books_ok_def plan_refund_priced)
  qed (use keep assms(2) in \<open>auto simp: books_ok_def\<close>)
  with backed_sys_step [OF assms] ledger_sys_step [OF assms(3)] assms(2) show ?thesis by (simp add: books_ok_def)
qed

lemma reachable_books: "reachable y \<Longrightarrow> books_ok y"
proof -
  assume "reachable y"
  then obtain x where x: "sys_start x" "sys_step\<^sup>*\<^sup>* x y" by (auto simp: reachable_def)
  from x(2) show "books_ok y"
  proof (induction rule: rtranclp_induct)
    case base
    from x(1) show ?case
      by (simp add: sys_start_def books_ok_def ledger_def backed_def booked_def settled_def empty_db_def)
  next
    case (step y z)
    from x step(1) have "reachable y" by (auto simp: reachable_def)
    from books_step [OF reachable_inv [OF this] step(3,2)] show ?case .
  qed
qed

section \<open>Properties\<close>

text \<open>
  C13: The books of refunds are right. In every reachable state every order shows as refunded exactly
  the sum of its refunds that succeeded; every refund an organizer made is, to the satang, the price
  the buyer paid for the tickets that were voided for it, all of them tickets of that order; and no
  ticket is void without such a refund.
\<close>

theorem refund_books:
  assumes "reachable y"
  shows "(\<forall>r \<in> set (orders (y_db y)). o_refundedSatang r =
      sum_by r_amountSatang (filter (\<lambda>q. r_orderId q = o_id r \<and> r_status q = R_succeeded) (refunds (y_db y)))) \<and>
    (\<forall>q \<in> set (refunds (y_db y)). r_requestedById q \<noteq> None \<longrightarrow>
      desk_refund_ok (orders (y_db y)) (tickets (y_db y)) q) \<and>
    (\<forall>k \<in> set (tickets (y_db y)). t_status k = Void \<longrightarrow>
      (\<exists>q \<in> set (refunds (y_db y)). t_refundId k = Some (r_id q) \<and> r_orderId q = t_orderId k))"
proof -
  from reachable_books [OF assms] have l: "ledger (\<lambda>_. 0) (y_db y)" and b: "backed (y_db y)"
    by (simp_all add: books_ok_def)
  have "o_refundedSatang r =
      sum_by r_amountSatang (filter (\<lambda>q. r_orderId q = o_id r \<and> r_status q = R_succeeded) (refunds (y_db y)))"
    if r: "r \<in> set (orders (y_db y))" for r
  proof -
    have "filter (\<lambda>x. o_id x = o_id r) (orders (y_db y)) = [r]"
      using l r by (intro update_one [where k = o_id]) (auto simp: ledger_def)
    then have "booked (o_id r) (orders (y_db y)) = o_refundedSatang r"
      by (simp add: booked_def flip: sum_by_filter)
    with l show ?thesis by (simp add: ledger_def settled_def flip: sum_by_filter)
  qed
  with b show ?thesis by (simp add: backed_def)
qed

lemma run_has_refund: "length (refunds run_admitted) = 1" by code_simp

theorem refund_books_witness:
  "list_all (\<lambda>r. o_refundedSatang r = sum_by r_amountSatang
      (filter (\<lambda>q. r_orderId q = o_id r \<and> r_status q = R_succeeded) (refunds run_admitted))) (orders run_admitted) \<and>
    list_all (\<lambda>q. r_requestedById q = None \<or> desk_refund_ok (orders run_admitted) (tickets run_admitted) q)
      (refunds run_admitted) \<and> length (refunds run_admitted) = 1"
  using refund_books [OF run_admitted_reachable] run_has_refund by (auto simp: list_all_iff)

end
