(* ===== verification/Sale.thy ===== *)
theory Sale
  imports Lifecycle
begin

text \<open>
  What holds of the sale in every state the service can reach, under any interleaving of requests,
  jobs and webhooks (\<open>reachable\<close>, theory System): the stock of every tier adds up, and a seat has one
  owner.
\<close>

lemma awaiting_qty_nonneg:
  assumes "items_nonneg s"
  shows "0 \<le> awaiting_qty t (orders s)"
  unfolding awaiting_qty_def
proof (rule sum_by_nonneg)
  fix r assume "r \<in> set (orders s)"
  with assms have "0 \<le> items_qty t (o_items r)"
    unfolding items_qty_def by (intro sum_by_nonneg) (auto simp: items_nonneg_def)
  then show "0 \<le> (if awaiting r then items_qty t (o_items r) else 0)" by simp
qed

lemma reserved_nonneg: "items_nonneg s \<Longrightarrow> 0 \<le> reserved t s"
  by (simp add: reserved_def awaiting_qty_nonneg)

lemma row_sums:
  assumes "ids_ok s" and "tt \<in> set (ticketTypes s)"
  shows "rem_of (tt_id tt) (ticketTypes s) = tt_remaining tt" and "qty_of (tt_id tt) (ticketTypes s) = tt_quantity tt"
proof -
  from assms have f: "filter (\<lambda>q. tt_id q = tt_id tt) (ticketTypes s) = [tt]"
    by (intro filter_key) (simp_all add: ids_ok_def)
  show "rem_of (tt_id tt) (ticketTypes s) = tt_remaining tt"
    unfolding rem_of_def sum_by_filter [symmetric] f by simp
  show "qty_of (tt_id tt) (ticketTypes s) = tt_quantity tt"
    unfolding qty_of_def sum_by_filter [symmetric] f by simp
qed

lemma reachable_core: "reachable y \<Longrightarrow> core (y_db y)"
  using reachable_inv by (simp add: sys_inv_def)

section \<open>A seated tier has stock for every seat that is held\<close>

lemma seats_of_card:
  assumes "distinct (map s_id sts)"
  shows "seats_of t sts = int (card (s_id ` {st \<in> set sts. s_ticketTypeId st = t}))"
proof -
  let ?rows = "filter (\<lambda>st. s_ticketTypeId st = t) sts"
  have "seats_of t sts = int (length (map s_id ?rows))"
    by (simp add: seats_of_def count_where_sum_by [symmetric] count_where_def)
  also have "\<dots> = int (card (set (map s_id ?rows)))"
    by (rule arg_cong [where f = int, OF distinct_card [OF distinct_map_filter [OF assms], symmetric]])
  finally show ?thesis unfolding set_map set_filter .
qed

lemma live_seats_filter:
  "distinct (live_seats ks) \<Longrightarrow> distinct (live_seats (filter p ks))"
proof (induction ks)
  case (Cons k ks)
  have "set (live_seats (filter p ks)) \<subseteq> set (live_seats ks)"
    unfolding subset_iff set_live_seats by (simp, blast)
  with Cons show ?case by (cases "t_seatId k"; cases "live k"; cases "p k") (simp_all add: live_seats_Cons subset_iff, blast)
qed (simp add: live_seats_def List.map_filter_def)

lemma live_of_card:
  assumes "distinct (live_seats ks)" and "\<And>k. k \<in> set ks \<Longrightarrow> t_ticketTypeId k = t \<Longrightarrow> t_seatId k \<noteq> None"
  shows "live_of t ks = int (card (set (live_seats (filter (\<lambda>k. t_ticketTypeId k = t) ks))))"
proof -
  have "live_of t ks = int (length (live_seats (filter (\<lambda>k. t_ticketTypeId k = t) ks)))"
    using assms(2)
  proof (induction ks)
    case Nil
    then show ?case by (simp add: live_of_def live_seats_def List.map_filter_def)
  next
    case (Cons k ks)
    then have "live_of t ks = int (length (live_seats (filter (\<lambda>k. t_ticketTypeId k = t) ks)))" by simp
    with Cons.prems [of k] show ?case by (auto simp: live_of_def live_seats_Cons)
  qed
  with distinct_card [OF live_seats_filter [OF assms(1)]] show ?thesis by simp
qed

text \<open>The part of the invariant the fulfilment of an order needs; it does not read the orders' columns.\<close>

definition seat_stock :: "db \<Rightarrow> bool" where
  "seat_stock s \<longleftrightarrow> seat_inv s \<and> ids_ok s \<and> refs (\<lambda>t. kind_of t s) {} (seats s) s \<and>
     (\<forall>t. kind_of t s = Some Seated \<longrightarrow>
        rem_of t (ticketTypes s) + live_of t (tickets s) = qty_of t (ticketTypes s))"

lemma core_seat_stock:
  assumes "core s"
  shows "seat_stock s"
proof -
  have "rem_of t (ticketTypes s) + live_of t (tickets s) = qty_of t (ticketTypes s)" if "kind_of t s = Some Seated" for t
  proof -
    from assms have "bal t s = 0" by (simp add: core_def stock_balanced_def)
    with that show ?thesis by (simp add: bal_def reserved_def)
  qed
  with assms show ?thesis by (simp add: core_def seat_stock_def)
qed

lemma held_room:
  assumes core: "seat_stock s" and kind: "kind_of t s = Some Seated"
  shows "seats_of t (fulfil_seats i s) \<le> rem_of t (ticketTypes s)"
proof -
  let ?A = "s_id ` {st \<in> set (fulfil_seats i s). s_ticketTypeId st = t}"
  let ?B = "set (live_seats (filter (\<lambda>k. t_ticketTypeId k = t) (tickets s)))"
  let ?C = "s_id ` {st \<in> set (seats s). s_ticketTypeId st = t}"
  have inv: "seat_inv s" and refs: "refs (\<lambda>t. kind_of t s) {} (seats s) s"
    and bal: "rem_of t (ticketTypes s) + live_of t (tickets s) = qty_of t (ticketTypes s)"
    using core kind by (simp_all add: seat_stock_def)
  have d: "distinct (map s_id (seats s))" using inv by (simp add: seat_inv_def)
  have typed: "typed (\<lambda>t. kind_of t s) (seats s) (t_ticketTypeId k) (t_seatId k)" if "k \<in> set (tickets s)" for k
    using refs that by (simp add: refs_def)
  have a: "seats_of t (fulfil_seats i s) = int (card ?A)"
    by (rule seats_of_card) (simp add: fulfil_seats_def distinct_map_filter d)
  have b: "live_of t (tickets s) = int (card ?B)"
  proof (rule live_of_card)
    show "distinct (live_seats (tickets s))" using inv by (simp add: seat_inv_def seats_single_def)
    show "t_seatId k \<noteq> None" if "k \<in> set (tickets s)" "t_ticketTypeId k = t" for k
      using typed [OF that(1)] that(2) kind by (cases "t_seatId k") (auto simp: typed_def)
  qed
  have c: "seats_of t (seats s) = int (card ?C)" by (rule seats_of_card [OF d])
  have "seats_of t (seats s) \<le> qty_of t (ticketTypes s)" using refs kind by (simp add: refs_def)
  moreover have "card ?A + card ?B \<le> card ?C"
  proof -
    have "?B \<subseteq> ?C" using typed by (fastforce simp: typed_def set_live_seats)
    moreover have "?A \<subseteq> ?C" by (auto simp: fulfil_seats_def)
    moreover have "?A \<inter> ?B = {}"
      using inv by (auto simp: fulfil_seats_def held_seat_ids_def seat_inv_def holds_free_def seat_sold_def set_live_seats)
    moreover have fin: "finite ?C" by simp
    ultimately have "card ?A + card ?B = card (?A \<union> ?B)"
      by (intro card_Un_disjoint [symmetric]) (auto intro: finite_subset)
    also have "\<dots> \<le> card ?C" using \<open>?A \<subseteq> ?C\<close> \<open>?B \<subseteq> ?C\<close> by (intro card_mono) auto
    finally show ?thesis .
  qed
  ultimately show ?thesis using a b c bal by simp
qed

lemma stock_pairs_ok:
  assumes "distinct (map fst ms)" and "ids_ok s"
    and "\<And>t n. (t, n) \<in> set ms \<Longrightarrow> kind_of t s \<noteq> None \<and> n \<le> rem_of t (ticketTypes s)"
  shows "\<exists>s'. for_eachT (\<lambda>(t, n). add_remaining t (- n)) ms s = Inr ((), s')"
  using assms
proof (induction ms arbitrary: s)
  case Nil
  then show ?case by simp
next
  case (Cons m ms)
  obtain t n where m: "m = (t, n)" by (cases m)
  from Cons.prems(3) [of t n] m obtain tt where tt: "find_ticket_type t s = Some tt" and n: "n \<le> rem_of t (ticketTypes s)"
    by (auto simp: kind_of_def)
  from find_SomeD [OF tt [unfolded find_ticket_type_def]] have row: "tt \<in> set (ticketTypes s)" "tt_id tt = t" by simp_all
  with row_sums(1) [OF Cons.prems(2) row(1)] n have "n \<le> tt_remaining tt" by simp
  with tt have "\<exists>s1. add_remaining t (- n) s = Inr ((), s1)"
    by (simp add: add_remaining_def find_ticket_type_def)
  then obtain s1 where s1: "add_remaining t (- n) s = Inr ((), s1)" ..
  from moves_add_remaining [OF this] Cons.prems(2)
  have ids: "ids_ok s1" and kinds: "\<And>u. kind_of u s1 = kind_of u s" by (simp_all add: moves_def)
  have rems: "rem_of u (ticketTypes s1) = rem_of u (ticketTypes s)" if "u \<noteq> t" for u
  proof -
    have "ticketTypes s1 = update_where (\<lambda>q. tt_id q = t) (\<lambda>q. q\<lparr>tt_remaining := tt_remaining q - n\<rparr>) (ticketTypes s)"
      using s1 by (auto simp: add_remaining_Inr)
    with that show ?thesis unfolding rem_of_def by (simp add: sum_by_update_on)
  qed
  have "kind_of u s1 \<noteq> None \<and> k \<le> rem_of u (ticketTypes s1)" if "(u, k) \<in> set ms" for u k
  proof -
    from that Cons.prems(1) m have "u \<noteq> t" by force
    with rems kinds Cons.prems(3) [of u k] that show ?thesis by simp
  qed
  with Cons.IH [OF _ ids] Cons.prems(1) s1 m show ?case by simp
qed

lemma fulfil_goes_through:
  assumes core: "seat_stock s"
  shows "\<exists>s'. fulfil_tx now r s = Inr ((), s')"
proof -
  let ?s1 = "s\<lparr>holds := delete_where (\<lambda>h. h_orderId h = Some (o_id r)) (holds s)\<rparr>"
  let ?types = "map s_ticketTypeId (fulfil_seats (o_id r) s)"
  let ?sps = "ga_specs (filter (is_ga_item ?s1) (o_items r)) @ seat_specs (fulfil_seats (o_id r) s)"
  have inv: "seat_inv s" and ids: "ids_ok s" using core by (simp_all add: seat_stock_def)
  have "\<exists>s2. for_eachT (\<lambda>(tid, n). add_remaining tid (- n)) (tally ?types) ?s1 = Inr ((), s2)"
  proof (rule stock_pairs_ok)
    show "ids_ok ?s1" using ids by (simp add: ids_ok_def)
    fix t n assume tn: "(t, n) \<in> set (tally ?types)"
    then have "t \<in> set ?types" using fst_set_tally [of ?types] by (metis fst_conv image_eqI)
    then have kind: "kind_of t s = Some Seated" using core by (auto simp: seat_stock_def refs_def fulfil_seats_def)
    have "n = sum_by (\<lambda>(j, m). if j = t then m else 0) (tally ?types)"
      using tn map_of_is_SomeI [OF distinct_tally tn] by (simp add: sum_by_alist)
    then have "n = seats_of t (fulfil_seats (o_id r) s)"
      by (simp add: sum_by_tally sum_by_seat_types)
    moreover have "kind_of t ?s1 = kind_of t s" by (simp add: kind_of_def find_ticket_type_def)
    ultimately show "kind_of t ?s1 \<noteq> None \<and> n \<le> rem_of t (ticketTypes ?s1)"
      using held_room [OF core kind, of "o_id r"] kind by simp
  qed simp
  then obtain s2 where loop: "for_eachT (\<lambda>(tid, n). add_remaining tid (- n)) (tally ?types) ?s1 = Inr ((), s2)" ..
  have same: "holds s2 = holds ?s1 \<and> tickets s2 = tickets ?s1 \<and> seats s2 = seats ?s1"
    by (rule stock_pairs [OF loop])
  have "seat_inv ?s1" using inv by (rule seat_inv_delete)
  with same have inv2: "seat_inv s2" by (blast intro: seat_inv_frameI)
  have "free_seats ?sps s2"
    using fulfil_free [OF inv] same free_seats_frame [of s2 ?s1] by (simp add: fulfil_seats_def)
  from issue_all_free [OF inv2 this, of now "o_id r" "o_eventId r" "o_buyerEmail r" "o_buyerName r"]
  obtain s3 where "for_eachT (issue_ticket now (o_id r) (o_eventId r) (o_buyerEmail r) (o_buyerName r)) ?sps s2
      = Inr ((), s3)" by metis
  with loop show ?thesis by (simp add: fulfil_stages bindT_def writeInTx_eq whenT_def)
qed

lemma seat_stock_frame:
  assumes "seat_stock s" and "holds s' = holds s" and "seats s' = seats s" and "tickets s' = tickets s"
    and "ticketTypes s' = ticketTypes s" and "next_id s' = next_id s"
    and "map o_id (orders s') = map o_id (orders s)" and "map o_items (orders s') = map o_items (orders s)"
  shows "seat_stock s'"
proof -
  have k: "kind_of t s' = kind_of t s" for t using assms by (simp add: kind_of_def find_ticket_type_def)
  have "(\<forall>x \<in> set (orders s'). o_id x < next_id s') \<longleftrightarrow> (\<forall>i \<in> set (map o_id (orders s)). i < next_id s)"
    by (simp add: assms(6) assms(7) [symmetric])
  with assms have "ids_ok s'" by (auto simp: seat_stock_def ids_ok_def)
  moreover have "seat_inv s'" using assms by (auto simp: seat_stock_def elim: seat_inv_frameI)
  moreover have "refs (\<lambda>t. kind_of t s) {} (seats s) s'" using assms by (auto simp: seat_stock_def elim: refs_frameI)
  ultimately show ?thesis using assms k by (simp add: seat_stock_def)
qed

lemma succeeded_total:
  assumes "core s"
  shows "\<exists>out s'. succeeded_tx now intent s = Inr (out, s')"
proof (cases "find_payment intent s")
  case None
  then show ?thesis by (simp add: succeeded_tx_def bindT_def readT_def returnT_def)
next
  case (Some p)
  let ?s1 = "set_payment intent P_succeeded s"
  let ?s2 = "claim_paid (p_orderId p) ?s1"
  have "seat_stock ?s2"
    using core_seat_stock [OF assms] by (rule seat_stock_frame) (simp_all add: set_payment_def claim_paid_def)
  note fulfil = fulfil_goes_through [OF this]
  have "\<exists>r. find_order (p_orderId p) ?s2 = Some r"
    if "count_where (claim_release (p_orderId p)) (orders ?s1) \<noteq> 0"
  proof -
    from that obtain r where "r \<in> set (orders ?s1)" "o_id r = p_orderId p"
      by (auto simp: count_where_0 claim_release_def)
    then have "p_orderId p \<in> o_id ` set (orders ?s1)" by (metis image_eqI)
    moreover have "o_id ` set (orders ?s2) = o_id ` set (orders ?s1)"
      by (simp add: claim_paid_def set_map [symmetric] del: set_map)
    ultimately obtain q where "q \<in> set (orders ?s2)" "o_id q = p_orderId p" by (metis imageE)
    then show ?thesis
      unfolding find_order_def by (cases "List.find (\<lambda>r. o_id r = p_orderId p) (orders ?s2)") (auto dest: find_NoneD)
  qed
  note found = this
  obtain f where f: "\<And>r. fulfil_tx now r ?s2 = Inr ((), f r)" using fulfil [of now] by metis
  show ?thesis
  proof (cases "count_where (claim_release (p_orderId p)) (orders ?s1) = 0")
    case True
    with Some show ?thesis
      by (auto simp: succeeded_tx_def bindT_def readT_def writeT_def returnT_def split: option.splits)
  next
    case False
    then obtain r where "find_order (p_orderId p) ?s2 = Some r" using found by blast
    with False Some f show ?thesis
      by (simp add: succeeded_tx_def bindT_def readT_def writeT_def returnT_def someT_def)
  qed
qed

lemma core_stock:
  assumes core: "core s" and "tt \<in> set (ticketTypes s)"
  shows "tt_remaining tt + live_of (tt_id tt) (tickets s) + reserved (tt_id tt) s = tt_quantity tt"
    and "0 \<le> tt_remaining tt" and "0 \<le> reserved (tt_id tt) s"
    and "live_of (tt_id tt) (tickets s) + reserved (tt_id tt) s \<le> tt_quantity tt"
proof -
  from core have ids: "ids_ok s" and bal: "bal (tt_id tt) s = 0"
    by (simp_all add: core_def stock_balanced_def)
  from ids assms(2) show *: "0 \<le> tt_remaining tt" by (simp add: ids_ok_def)
  from bal row_sums [OF ids assms(2)]
  show "tt_remaining tt + live_of (tt_id tt) (tickets s) + reserved (tt_id tt) s = tt_quantity tt"
    by (simp add: bal_def)
  with * show "live_of (tt_id tt) (tickets s) + reserved (tt_id tt) s \<le> tt_quantity tt" by simp
  show "0 \<le> reserved (tt_id tt) s" by (rule reserved_nonneg [OF core_items_nonneg [OF core]])
qed

lemma core_seats:
  assumes "core s"
  shows "distinct (live_seats (tickets s))" and "distinct (map h_seatId (holds s))"
    and "set (map h_seatId (holds s)) \<inter> set (live_seats (tickets s)) = {}"
    and "set (map (\<lambda>h. (h_seatId h, h_eventId h)) (holds s)) \<subseteq> set (map (\<lambda>st. (s_id st, s_eventId st)) (seats s))"
proof -
  from assms have inv: "seat_inv s" by (simp add: core_def)
  then show "distinct (live_seats (tickets s))" by (simp add: seat_inv_def seats_single_def)
  have "distinct (holds s)" using inv by (auto simp: seat_inv_def holds_unique_def distinct_map)
  then show "distinct (map h_seatId (holds s))"
    using seat_inv_one_hold [OF inv] by (auto simp: distinct_map inj_on_def)
  show "set (map h_seatId (holds s)) \<inter> set (live_seats (tickets s)) = {}"
    using inv by (auto simp: seat_inv_def holds_free_def seat_sold_live)
  show "set (map (\<lambda>h. (h_seatId h, h_eventId h)) (holds s)) \<subseteq> set (map (\<lambda>st. (s_id st, s_eventId st)) (seats s))"
    using inv by (auto simp: seat_inv_def image_iff) metis
qed

section \<open>Properties\<close>

text \<open>
  C4: Stock is conserved and never oversold. In every reachable state, for every ticket type: the
  remaining stock, the tickets alive and the floor tickets reserved by orders awaiting payment add
  up to its quantity, and no summand is negative; so the tickets alive and the reservations never
  exceed the quantity.
\<close>

theorem stock_conserved:
  assumes "reachable y" and "tt \<in> set (ticketTypes (y_db y))"
  shows "tt_remaining tt + live_of (tt_id tt) (tickets (y_db y)) + reserved (tt_id tt) (y_db y) = tt_quantity tt \<and>
    0 \<le> tt_remaining tt \<and> 0 \<le> reserved (tt_id tt) (y_db y) \<and>
    live_of (tt_id tt) (tickets (y_db y)) + reserved (tt_id tt) (y_db y) \<le> tt_quantity tt"
  using core_stock [OF reachable_core [OF assms(1)] assms(2)] by simp

definition run_floor_type :: ticket_type where
  "run_floor_type = demo_ga\<lparr>tt_remaining := 9\<rparr>"

lemma run_floor_type_in: "run_floor_type \<in> set (ticketTypes run_refunded)"
  by code_simp

lemma run_refunded_reachable: "reachable (run_system run_refunded [run_refund_plan])"
  using reachable_step [OF reachable_step [OF run_paid_reachable run_step(4) [OF run_later(1)]]
    run_step(5) [OF _ run_later(2)]] by simp

theorem stock_conserved_witness:
  "tt_remaining run_floor_type + live_of 3 (tickets run_refunded) + reserved 3 run_refunded = 10 \<and>
    0 \<le> tt_remaining run_floor_type \<and> 0 \<le> reserved 3 run_refunded \<and>
    live_of 3 (tickets run_refunded) + reserved 3 run_refunded \<le> 10"
  using stock_conserved [OF run_refunded_reachable, of run_floor_type] run_floor_type_in
  by (simp add: run_floor_type_def demo_ga_def)

text \<open>
  C5: A seat has one owner. In every reachable state no two live tickets name the same seat, no two
  holds name the same seat, no seat with a live ticket is held, and every hold is on an existing
  seat of the event it names.
\<close>

theorem seat_has_one_owner:
  assumes "reachable y"
  shows "distinct (live_seats (tickets (y_db y))) \<and> distinct (map h_seatId (holds (y_db y))) \<and>
    set (map h_seatId (holds (y_db y))) \<inter> set (live_seats (tickets (y_db y))) = {} \<and>
    set (map (\<lambda>h. (h_seatId h, h_eventId h)) (holds (y_db y)))
      \<subseteq> set (map (\<lambda>st. (s_id st, s_eventId st)) (seats (y_db y)))"
  using core_seats [OF reachable_core [OF assms]] by simp

theorem seat_has_one_owner_witness:
  "distinct (live_seats (tickets run_seated)) \<and> distinct (map h_seatId (holds run_seated)) \<and>
    set (map h_seatId (holds run_seated)) \<inter> set (live_seats (tickets run_seated)) = {} \<and>
    set (map (\<lambda>h. (h_seatId h, h_eventId h)) (holds run_seated))
      \<subseteq> set (map (\<lambda>st. (s_id st, s_eventId st)) (seats run_seated))"
  using seat_has_one_owner [OF run_seated_reachable] by simp


text \<open>
  C11: A captured payment is never lost to a rollback. In every reachable state the transaction that
  records a payment goes through, for whichever intent and however the orders, holds and tickets
  stand: no unique index, no check constraint and no missing row can fail it, since a seated tier
  always has stock for the seats that are held.
\<close>

theorem payment_goes_through:
  assumes "reachable y"
  shows "\<exists>out s'. succeeded_tx now intent (y_db y) = Inr (out, s')"
  using succeeded_total [OF reachable_core [OF assms]] .

theorem payment_goes_through_witness:
  "\<exists>out s'. succeeded_tx 2000 ''pi_1'' run_billed = Inr (out, s')"
  using payment_goes_through [OF run_billed_reachable] by simp

end
