(* ===== verification/Service.thy ===== *)
theory Service
  imports Api Ledger Sale
begin

text \<open>
  The running service: whatever reaches it, a request, a delivery of the payment provider or a job
  of a queue, refines the step relation of theory System. \<open>along y A B C s\<close> says that the system
  can run from \<open>y\<close> to the database \<open>s\<close>, with the order plans \<open>A\<close>, the refund plans \<open>B\<close> and the
  seats found on sale \<open>C\<close> at hand; every handler keeps it.
\<close>

section \<open>What reaches the service\<close>

datatype activity =
    Http surroundings request route
  | Provider_webhook clock "string \<Rightarrow> string \<Rightarrow> string" string "string \<Rightarrow> error + provider_event"
      "string http_answer" "string option" string
  | Orders_job millis order_job
  | Hold_sweep millis
  | Outbox_run millis "mail \<Rightarrow> bool"
  | Flush_timer
  | Socket_server

fun perform :: "activity \<Rightarrow> world \<Rightarrow> world" where
  "perform (Http env rq r) w = snd (api env rq r w)"
| "perform (Provider_webhook clk hmac secret parse ans header rawBody) w =
     snd (webhook clk hmac secret parse ans header rawBody w)"
| "perform (Orders_job now j) w = snd (run_order_job now j w)"
| "perform (Hold_sweep now) w = snd (sweepExpired now w)"
| "perform (Outbox_run now mail_ok) w = snd (dispatchPending now mail_ok w)"
| "perform Flush_timer w = flush w"
| "perform Socket_server w = attachServer w"

section \<open>Along the system\<close>

definition along :: "system \<Rightarrow> order_plan set \<Rightarrow> refund_plan set \<Rightarrow> (id \<times> id) set \<Rightarrow> db \<Rightarrow> bool" where
  "along y A B C s \<longleftrightarrow> (\<exists>z. sys_step\<^sup>*\<^sup>* y z \<and> y_db z = s \<and>
     A \<subseteq> set (y_plans z) \<and> B \<subseteq> set (y_refunds z) \<and> C \<subseteq> set (y_taps z))"

named_theorems alongs "transactions and handlers that run along the system"

abbreviation alongR :: "system \<Rightarrow> order_plan set \<Rightarrow> refund_plan set \<Rightarrow> (id \<times> id) set \<Rightarrow> 'a handler \<Rightarrow> bool" where
  "alongR y A B C m \<equiv> keepsR (\<lambda>w. along y A B C (w_db w)) m"

abbreviation alongT :: "system \<Rightarrow> order_plan set \<Rightarrow> refund_plan set \<Rightarrow> (id \<times> id) set \<Rightarrow> 'a db_tx \<Rightarrow> bool" where
  "alongT y A B C m \<equiv> keepsT (along y A B C) m"

lemma along_mono: "along y A B C s \<Longrightarrow> A' \<subseteq> A \<Longrightarrow> B' \<subseteq> B \<Longrightarrow> C' \<subseteq> C \<Longrightarrow> along y A' B' C' s"
  unfolding along_def by (elim exE) (rule exI, blast)

lemma along_step:
  assumes "along y A B C s"
    and "\<And>z. y_db z = s \<Longrightarrow> A \<subseteq> set (y_plans z) \<Longrightarrow> B \<subseteq> set (y_refunds z) \<Longrightarrow> C \<subseteq> set (y_taps z) \<Longrightarrow>
      \<exists>x. sys_step z x \<and> y_db x = t \<and> A' \<subseteq> set (y_plans x) \<and> B' \<subseteq> set (y_refunds x) \<and> C' \<subseteq> set (y_taps x)"
  shows "along y A' B' C' t"
proof -
  from assms(1) obtain z where z: "sys_step\<^sup>*\<^sup>* y z" "y_db z = s" "A \<subseteq> set (y_plans z)"
      "B \<subseteq> set (y_refunds z)" "C \<subseteq> set (y_taps z)"
    by (auto simp: along_def)
  with assms(2) obtain x where x: "sys_step z x" "y_db x = t" "A' \<subseteq> set (y_plans x)"
      "B' \<subseteq> set (y_refunds x)" "C' \<subseteq> set (y_taps x)" by blast
  moreover have "sys_step\<^sup>*\<^sup>* y x" using z(1) x(1) by (rule rtranclp.rtrancl_into_rtrancl)
  ultimately show ?thesis unfolding along_def by (intro exI [of _ x]) simp
qed

lemma along_tx: "(\<And>s a s'. m s = Inr (a, s') \<Longrightarrow> tx_step s s') \<Longrightarrow> alongT y A B C m"
proof (unfold keepsT_def, intro allI impI)
  fix s a s' assume *: "along y A B C s" "m s = Inr (a, s')" and tx: "\<And>s a s'. m s = Inr (a, s') \<Longrightarrow> tx_step s s'"
  show "along y A B C s'"
    by (rule along_step [OF *(1)]) (use tx [OF *(2)] sys_step.tx in fastforce)
qed

lemma along_elsewhere: "(\<And>s a s'. m s = Inr (a, s') \<Longrightarrow> elsewhere s s') \<Longrightarrow> alongT y A B C m"
  by (rule along_tx) (blast intro: tx_step.other)

lemma along_write: "(\<And>s. elsewhere s (f s)) \<Longrightarrow> alongT y A B C (writeT f)"
  by (rule along_elsewhere) (simp add: writeT_Inr)

lemma along_fresh [alongs]: "alongT y A B C fresh_id"
  by (rule along_elsewhere) (simp add: fresh_id_Inr elsewhere_def)

lemma along_query: "alongR y A B C (queryR f)" "alongR y A B C (askR g)" "alongR y A B C (guardR b e)"
  by (rule keeps)+

text \<open>A guard that was passed is known to hold in the rest of the handler.\<close>

lemma along_guard: "(b \<Longrightarrow> keepsR P (f ())) \<Longrightarrow> keepsR P (bindR (guardR b e) f)"
  by (auto simp: keepsR_def bindR_def guardR_def)

lemma along_world: "(\<And>w. w_db (f w) = w_db w) \<Longrightarrow> alongR y A B C (writeR f)"
  by (simp add: keepsR_def writeR_def)

lemma along_answer [alongs]: "alongR y A B C m \<Longrightarrow> alongR y A B C (answerR f m)"
  unfolding answerR_def by (intro keeps)

section \<open>Transactions\<close>

lemma along_transactions [alongs]:
  "alongT y A B C (refresh_tx i x)" "alongT y A B C (sweep_tx now)"
  "alongT y A B C (releaseOrderInventoryInTx now i Expired)"
  "alongT y A B C (releaseOrderInventoryInTx now i Canceled)"
  "alongT y A B C (succeeded_tx now intent)" "alongT y A B C (failed_tx now intent)"
  "alongT y A B C (refunded_tx clk rid prov)" "alongT y A B C (set_provider_refund rid ref)"
  "alongT y A B C (fail_refund rid)" "alongT y A B C (reopen_refund rid)"
  "alongT y A B C (compensation_tx clk i x)" "alongT y A B C (admit_tx now i)"
  "alongT y A B C (updateTicketType_tx ev tid d)" "alongT y A B C (create_map_tx now ev ds)"
  by (rule along_tx, blast intro: tx_step.intros)+

lemma along_insert_type: "valid_ticket_type d \<Longrightarrow> alongT y A B C (insert_ticket_type now ev d)"
  by (rule along_tx) (blast intro: tx_step.type_added)

lemma along_rows [alongs]:
  "alongT y A B C (insert_payment pay)" "alongT y A B C (insert_webhook wid ty)"
  "alongT y A B C (markProcessed now wid)" "alongT y A B C (claim_event e)"
  "alongT y A B C (finish_event now i)" "alongT y A B C (insert_event ev)"
  "alongT y A B C (insert_member tm)" "alongT y A B C (insert_user u)"
  "alongT y A B C (revoke_where p now)" "alongT y A B C (claimMemberships now i email)"
  "alongT y A B C (link_google i g)"
  by (rule along_elsewhere, fastforce simp: elsewhere_def insert_payment_Inr insert_webhook_def markProcessed_def
      claim_event_def finish_event_def insert_event_def insert_member_def insert_user_def revoke_where_def
      claimMemberships_def link_google_def writeT_Inr Let_def split: if_splits option.splits)+

lemma along_place:
  assumes "pl \<in> A"
  shows "alongT y A B C (create_tx clk pl)"
proof (unfold keepsT_def, intro allI impI)
  fix s i s' assume *: "along y A B C s" "create_tx clk pl s = Inr (i, s')"
  show "along y A B C s'"
    by (rule along_step [OF *(1)]) (use assms *(2) sys_step.place in fastforce)
qed

lemma along_refund:
  assumes "rp \<in> B"
  shows "alongT y A B C (refund_tx clk rp)"
proof (unfold keepsT_def, intro allI impI)
  fix s i s' assume *: "along y A B C s" "refund_tx clk rp s = Inr (i, s')"
  show "along y A B C s'"
    by (rule along_step [OF *(1)]) (use assms *(2) sys_step.refund in fastforce)
qed

lemma along_acquire:
  assumes "(ev, seat) \<in> C"
  shows "alongT y A B C (acquire_tx clk ev seat key x)"
proof (unfold keepsT_def, intro allI impI)
  fix s i s' assume *: "along y A B C s" "acquire_tx clk ev seat key x s = Inr (i, s')"
  show "along y A B C s'"
    by (rule along_step [OF *(1)]) (use assms *(2) sys_step.acquire in fastforce)
qed

text \<open>The three reads whose result a later transaction relies on.\<close>

lemma along_read:
  assumes "\<And>s a. g s = Inr a \<Longrightarrow> along y A B C s \<Longrightarrow> along y (A' a) (B' a) (C' a) s"
    and "\<And>a. A \<subseteq> A' a \<and> B \<subseteq> B' a \<and> C \<subseteq> C' a"
    and "\<And>a. alongR y (A' a) (B' a) (C' a) (f a)"
  shows "alongR y A B C (bindR (askR g) f)"
proof (unfold keepsR_def, intro allI impI)
  fix w :: world assume w: "along y A B C (w_db w)"
  show "along y A B C (w_db (snd (bindR (askR g) f w)))"
  proof (cases "g (w_db w)")
    case (Inl e)
    with w show ?thesis by (simp add: bindR_def askR_def)
  next
    case (Inr a)
    from assms(3) [of a] assms(1) [OF this w] have "along y (A' a) (B' a) (C' a) (w_db (snd (f a w)))"
      by (simp add: keepsR_def)
    with along_mono assms(2) [of a] Inr show ?thesis by (auto simp: bindR_def askR_def)
  qed
qed

lemma along_plan_order:
  assumes "valid_order_dto is_email dto"
    and "\<And>pl. alongR y (insert pl A) B C (f pl)"
  shows "alongR y A B C (bindR (askR (plan_order clk dto cp)) f)"
proof (rule along_read [where A' = "\<lambda>pl. insert pl A" and B' = "\<lambda>_. B" and C' = "\<lambda>_. C"])
  fix s pl assume "plan_order clk dto cp s = Inr pl" "along y A B C s"
  note plan = this(1) and along = this(2)
  show "along y (insert pl A) B C s"
  proof (rule along_step [OF along])
    fix z :: system assume "y_db z = s" "A \<subseteq> set (y_plans z)" "B \<subseteq> set (y_refunds z)" "C \<subseteq> set (y_taps z)"
    with sys_step.read_order [OF assms(1), of clk cp z pl] plan
    show "\<exists>x. sys_step z x \<and> y_db x = s \<and> insert pl A \<subseteq> set (y_plans x) \<and>
        B \<subseteq> set (y_refunds x) \<and> C \<subseteq> set (y_taps x)"
      by (intro exI [of _ "z\<lparr>y_plans := pl # y_plans z\<rparr>"]) auto
  qed
qed (use assms(2) in auto)

lemma along_plan_refund:
  assumes "\<And>rp. alongR y A (insert rp B) C (f rp)"
  shows "alongR y A B C (bindR (askR (plan_refund ri)) f)"
proof (rule along_read [where A' = "\<lambda>_. A" and B' = "\<lambda>rp. insert rp B" and C' = "\<lambda>_. C"])
  fix s rp assume "plan_refund ri s = Inr rp" "along y A B C s"
  note plan = this(1) and along = this(2)
  show "along y A (insert rp B) C s"
  proof (rule along_step [OF along])
    fix z :: system assume "y_db z = s" "A \<subseteq> set (y_plans z)" "B \<subseteq> set (y_refunds z)" "C \<subseteq> set (y_taps z)"
    with sys_step.read_refund [of ri z rp] plan
    show "\<exists>x. sys_step z x \<and> y_db x = s \<and> A \<subseteq> set (y_plans x) \<and>
        insert rp B \<subseteq> set (y_refunds x) \<and> C \<subseteq> set (y_taps x)"
      by (intro exI [of _ "z\<lparr>y_refunds := rp # y_refunds z\<rparr>"]) auto
  qed
qed (use assms in auto)

lemma along_tap:
  assumes "alongR y A B (insert (ev, seat) C) (f ())"
  shows "alongR y A B C (bindR (queryR (seat_on_sale ev seat)) (\<lambda>found. bindR (guardR (found \<noteq> None) e) f))"
proof (unfold keepsR_def, intro allI impI)
  fix w :: world assume w: "along y A B C (w_db w)"
  show "along y A B C (w_db (snd (bindR (queryR (seat_on_sale ev seat))
      (\<lambda>found. bindR (guardR (found \<noteq> None) e) f) w)))"
  proof (cases "seat_on_sale ev seat (w_db w)")
    case None
    with w show ?thesis by (simp add: bindR_def queryR_def guardR_def)
  next
    case (Some st)
    have "along y A B (insert (ev, seat) C) (w_db w)"
    proof (rule along_step [OF w])
      fix z :: system assume "y_db z = w_db w" "A \<subseteq> set (y_plans z)" "B \<subseteq> set (y_refunds z)" "C \<subseteq> set (y_taps z)"
      with sys_step.tap [of ev seat z] Some
      show "\<exists>x. sys_step z x \<and> y_db x = w_db w \<and> A \<subseteq> set (y_plans x) \<and>
          B \<subseteq> set (y_refunds x) \<and> insert (ev, seat) C \<subseteq> set (y_taps x)"
        by (intro exI [of _ "z\<lparr>y_taps := (ev, seat) # y_taps z\<rparr>"]) auto
    qed
    with assms have "along y A B (insert (ev, seat) C) (w_db (snd (f () w)))" by (simp add: keepsR_def)
    then have "along y A B C (w_db (snd (f () w)))" by (rule along_mono) auto
    with Some show ?thesis by (simp add: bindR_def queryR_def guardR_def)
  qed
qed

section \<open>Handlers\<close>

lemma along_payment_leg: "alongR y A B C (payment_leg clk ans i amount)"
  unfolding payment_leg_def expireOrder_def
  by (intro keeps alongs along_world) (simp add: enqueueExpiry_def)

lemma along_create:
  assumes "valid_order_dto is_email dto"
  shows "alongR y A B C (create clk ans dto cp)"
  unfolding create_def
  by (intro keeps alongs along_plan_order [OF assms] along_place along_payment_leg insertI1
      | split option.split sum.split if_split | intro conjI impI allI)+

lemma along_money_leg: "alongR y A B C (sendMoneyLeg ans rid intent amount)"
  unfolding sendMoneyLeg_def by (intro keeps alongs)

lemma along_create_refund: "alongR y A B C (create_refund clk ans ri)"
  unfolding create_refund_def getRefund_def
  by (intro keeps alongs along_plan_refund along_refund along_money_leg insertI1
      | split option.split sum.split if_split | intro conjI impI allI)+

lemma along_retry: "alongR y A B C (retry ans rid u)"
  unfolding retry_def getRefund_def by (intro keeps alongs along_money_leg)

lemma along_acquire_request: "alongR y A B C (acquire clk ttl ev seat key)"
  unfolding acquire_def Let_def
  by (intro along_tap)
    (intro keeps alongs along_acquire along_world insertI1 seatsChanged_frame
      | split option.split sum.split if_split | intro conjI impI allI)+

lemma along_release_request: "alongR y A B C (release ev seat key)"
proof -
  have "alongT y A B C (\<lambda>s. Inr (n s, s\<lparr>holds := delete_where
      (\<lambda>h. h_eventId h = ev \<and> h_seatId h = seat \<and> h_holderKey h = key \<and> h_orderId h = None) (holds s)\<rparr>))" for n :: "db \<Rightarrow> nat"
    by (rule along_tx) (auto intro: tx_step.unhold)
  then show ?thesis unfolding release_def Let_def by (intro keeps along_world seatsChanged_frame)
qed

lemma along_sweep: "alongR y A B C (sweepExpired now)"
  unfolding sweepExpired_def
  by (intro keeps alongs along_world | split prod.split | intro allI impI | rule seatsChanged_frame)+

lemma along_jobs: "alongR y A B C (run_order_job now j)"
proof (cases j)
  case (Expire_job i)
  then show ?thesis by (simp add: expireOrder_def) (intro keeps alongs)
next
  case Reconcile_job
  have "alongR y A B C (reconcile_loop now is)" for "is"
    by (induction "is") (simp_all only: reconcile_loop.simps, (intro keeps alongs | assumption)+)
  with Reconcile_job show ?thesis by (simp add: reconcileExpired_def) (intro keeps)
qed

lemma along_compensate: "alongR y A B C (compensateUnfulfilledPayment clk ans i x intent)"
  unfolding compensateUnfulfilledPayment_def
  by (intro keeps alongs along_money_leg
      | split option.split sum.split if_split | intro conjI impI allI)+

lemma along_process: "alongR y A B C (processEvent clk ans i intent ev)"
  unfolding processEvent_def handleSucceeded_def handleFailed_def handleRefunded_def
  by (intro keeps alongs along_compensate
      | split option.split succeeded_outcome.split if_split | intro conjI impI allI)+

lemma along_webhook: "alongR y A B C (webhook clk hmac secret parse ans header rawBody)"
  unfolding webhook_def recordEvent_def Let_def
  by (intro keeps alongs along_process
      | split option.split if_split | intro conjI impI allI)+

lemma along_dispatch: "alongR y A B C (dispatchPending now mail_ok)"
proof -
  have handled: "alongR y A B C (handle mail_ok p)" for p by (simp add: keepsR_def)
  have "alongR y A B C (dispatch_all now mail_ok evs)" for evs
    by (induction evs) (simp_all only: dispatch_all.simps dispatch_one_def,
        (intro keeps alongs handled | assumption | split if_split | intro conjI impI)+)
  then show ?thesis unfolding dispatchPending_def by (intro keeps)
qed

lemma along_check_in: "alongR y A B C (checkIn now ev u qr)"
  unfolding checkIn_def by (intro keeps alongs)

lemma along_create_map: "alongR y A B C (create_map now ev u ds)"
  unfolding create_map_def by (intro keeps alongs)

lemma along_session [alongs]: "alongR y A B C (session cry now token u)"
proof -
  have "alongT y A B C (insert_refresh_token i h x)" for i h x
    by (rule along_elsewhere)
      (auto simp: insert_refresh_token_def bindT_Inr fresh_id_Inr elsewhere_def split: if_splits)
  then show ?thesis unfolding session_def issueTokens_def Let_def by (intro keeps)
qed

lemma along_create_user [alongs]: "alongT y A B C (create_user email name pw g)"
  unfolding create_user_def Let_def by (intro keeps alongs)

lemma along_register: "alongR y A B C (register cry now token d)"
  unfolding register_def Let_def
  by (intro keeps alongs | split if_split | intro conjI impI)+

lemma along_login: "alongR y A B C (login cry now token email pw)"
  unfolding login_def
  by (intro keeps alongs | split option.split if_split | intro conjI impI allI)+

lemma along_google: "alongR y A B C (loginWithGoogle cry now token credential)"
  unfolding loginWithGoogle_def findOrCreateGoogleUser_def Let_def
  by (intro keeps alongs | split option.split if_split | intro conjI impI allI)+

lemma along_rotate: "alongR y A B C (refresh_request cry now token cookie)"
  unfolding refresh_request_def rotateRefreshToken_def rotate_finish_def
  by (intro keeps alongs | split option.split if_split | intro conjI impI allI)+

lemma along_logout: "alongR y A B C (logout cry now cookie)"
  unfolding logout_def revokeRefreshToken_def by (intro keeps alongs)

lemma along_create_event:
  assumes "valid_event_dto d"
  shows "alongR y A B C (create_event now suffix u d)"
proof -
  have "alongT y A B C (insert_ticket_type now i x)" if "x \<in> set (ce_ticketTypes d)" for i x
    by (rule along_insert_type) (use assms that in \<open>auto simp: valid_event_dto_def list_all_iff\<close>)
  then show ?thesis unfolding create_event_def create_event_tx_def load_event_def by (intro keeps alongs)
qed

lemma along_change_event [alongs]: "alongT y A B C (change_event ev f)"
  unfolding change_event_def load_event_def
  by (intro keeps along_write) (simp add: elsewhere_def)

lemma along_team:
  "alongR y A B C (team_add now ev u email role)" "alongR y A B C (changeRole ev u i role)"
  "alongR y A B C (team_remove ev u i)"
proof -
  show "alongR y A B C (team_add now ev u email role)"
    unfolding team_add_def Let_def
    by (intro keeps alongs | split prod.split | intro allI impI)+
  have "alongT y A B C (\<lambda>s. let s' = s\<lparr>teamMembers := update_where p f (teamMembers s)\<rparr>
      in case g s' of None \<Rightarrow> Inl e | Some m \<Rightarrow> Inr (toView m, s'))" for p f e and g :: "db \<Rightarrow> team_member option"
    by (rule along_elsewhere) (auto simp: elsewhere_def Let_def split: option.splits)
  then show "alongR y A B C (changeRole ev u i role)" unfolding changeRole_def by (intro keeps)
  have "alongT y A B C (\<lambda>s. let gone = p in Inr (n gone s, s\<lparr>teamMembers := delete_where gone (teamMembers s)\<rparr>))"
    for p and n :: "(team_member \<Rightarrow> bool) \<Rightarrow> db \<Rightarrow> nat"
    by (rule along_elsewhere) (auto simp: elsewhere_def Let_def)
  then show "alongR y A B C (team_remove ev u i)" unfolding team_remove_def by (intro keeps)
qed

section \<open>The router\<close>

lemma along_checks [alongs]:
  "alongR y A B C (validationPipe ok)" "alongR y A B C (jwtAuthGuard rq)" "alongR y A B C (admissionGuard env rq ev)"
  unfolding validationPipe_def jwtAuthGuard_def admissionGuard_def by (intro keeps)+

text \<open>What passed the validation pipe is valid in the rest of the handler.\<close>

lemma along_valid: "(ok \<Longrightarrow> alongR y A B C (f ())) \<Longrightarrow> alongR y A B C (bindR (validationPipe ok) f)"
  unfolding validationPipe_def by (rule along_guard)

lemmas along_handlers = along_create_refund along_retry along_acquire_request along_release_request
  along_check_in along_create_map along_register along_login along_google along_rotate along_logout
  along_team

lemma along_events: "alongR y A B C (eventsController env u r)"
  by (cases r; simp only: eventsController.simps update_event_def publish_def addTicketType_def
      updateTicketType_def; intro along_valid keeps alongs along_create_event along_insert_type; assumption)

lemma along_orders: "alongR y A B C (ordersController env rq r)"
  by (cases r; simp only: ordersController.simps)
    (intro along_valid keeps alongs along_create; assumption)+

lemma along_controllers:
  "alongR y A B C (teamController env ev u tr)"
  "alongR y A B C (checkinController env ev u ci)"
  "alongR y A B C (refundsController env rq u rr)"
  "alongR y A B C (holdsController env rq ev hr)"
  "alongR y A B C (seatmapsController env rq ev mr)"
  "alongR y A B C (dashboardResolver env u q)"
  "alongR y A B C (authController env rq ar)"
proof -
  note intros = keeps alongs along_handlers
  show "alongR y A B C (teamController env ev u tr)"
    by (cases tr; simp only: teamController.simps; intro intros)
  show "alongR y A B C (checkinController env ev u ci)"
    by (cases ci; simp only: checkinController.simps; intro intros)
  show "alongR y A B C (refundsController env rq u rr)"
    by (cases rr; simp only: refundsController.simps; intro intros; simp only: split_beta; intro intros)
  show "alongR y A B C (holdsController env rq ev hr)"
    by (cases hr; simp only: holdsController.simps; intro intros)
  show "alongR y A B C (seatmapsController env rq ev mr)"
    by (cases mr; simp only: seatmapsController.simps; intro intros)
  show "alongR y A B C (dashboardResolver env u q)"
    by (cases q; simp only: dashboardResolver.simps; intro intros)
  show "alongR y A B C (authController env rq ar)"
    by (cases ar; simp only: authController.simps; intro intros)
qed

lemma along_api: "alongR y A B C (api env rq r)"
  by (cases r; simp only: api.simps loginAs_def; intro keeps alongs along_controllers along_events along_orders)

lemma along_perform: "along y A B C (w_db w) \<Longrightarrow> along y A B C (w_db (perform a w))"
  using along_api along_webhook along_jobs along_sweep along_dispatch
  by (cases a) (auto simp: keepsR_def attachServer_def)

lemma along_fold: "along y A B C (w_db w) \<Longrightarrow> along y A B C (w_db (fold perform acts w))"
  by (induction acts arbitrary: w) (auto intro: along_perform)

lemma along_start: "y_db y = s \<Longrightarrow> along y {} {} {} s"
  unfolding along_def by blast

section \<open>A day of the service\<close>

text \<open>
  An organizer registers, creates an event with one floor tier and publishes it; a guest orders two
  tickets and pays, the outbox is dispatched, and the organizer scans the first ticket.
\<close>

definition day_env :: "millis \<Rightarrow> surroundings" where
  "day_env now = \<lparr>env_clock = \<lparr>app_now = now, db_now = now\<rparr>, env_holdTtl = None, env_crypto = demo_crypto,
     env_random = ''r1'', env_intent = Http_response 201 (Some \<lparr>in_intentId = ''pi_1'', in_checkoutUrl = ''/pay''\<rparr>),
     env_refund = Http_response 201 (Some ''re_1''), env_collate = length, env_isEmail = (\<lambda>e. CHR ''@'' \<in> set e),
     env_tokenHmac = (\<lambda>k m. ''00ff''), env_tokenClaims = (\<lambda>_. None), env_gateSecret = ''gate''\<rparr>"

definition day_request :: "id option \<Rightarrow> request" where
  "day_request u = \<lparr>rq_user = u, rq_holdKey = None, rq_idempotencyKey = None, rq_admission = None,
     rq_cookie = None\<rparr>"

definition day_event :: create_event_dto where
  "day_event = \<lparr>ce_title = ''Gig'', ce_description = None, ce_venueName = ''Hall'', ce_startsAt = 0,
     ce_endsAt = None, ce_ticketTypes = [\<lparr>ct_name = ''Floor'', ct_quantity = 10, ct_priceSatang = 500,
       ct_maxPerOrder = None\<rparr>]\<rparr>"

definition day_order :: create_order_dto where
  "day_order = \<lparr>d_items = Some [\<lparr>oi_ticketTypeId = 3, oi_quantity = 2\<rparr>], d_seatIds = None,
     d_buyerEmail = ''ann@x'', d_buyerName = ''Ann''\<rparr>"

definition day_payment :: provider_event where
  "day_payment = \<lparr>we_id = Some ''evt_1'', we_type = ''payment.succeeded'', we_intentId = Some ''pi_1'',
     we_orderId = Some 4, we_refundId = None, we_reference = None\<rparr>"

definition day :: "activity list" where
  "day = [
     Http (day_env 1000) (day_request None)
       (Auth_routes (Auth_register \<lparr>rg_email = ''o@x'', rg_password = ''password'', rg_displayName = ''Org''\<rparr>)),
     Http (day_env 2000) (day_request (Some 0)) (Event_routes (Event_create day_event)),
     Http (day_env 3000) (day_request (Some 0)) (Event_routes (Event_publish 2)),
     Http (day_env 4000) (day_request None) (Order_routes (Order_create 2 day_order)),
     Provider_webhook \<lparr>app_now = 5000, db_now = 5000\<rparr> (\<lambda>k m. ''00ff'') ''key'' (\<lambda>body. Inr day_payment)
       Network_failure (Some ''t=5,v1=00ff'') ''{}'',
     Outbox_run 6000 (\<lambda>_. True),
     Http (day_env 7000) (day_request (Some 0)) (Checkin_routes 2 (Checkin_scan 9))]"

definition day_world :: world where
  "day_world = fold perform day (demo_world empty_db)"

definition day_summary :: "world \<Rightarrow> ticket_status list \<times> order_status list \<times> nat \<times> (id \<times> int \<times> int) list" where
  "day_summary w = (map t_status (tickets (w_db w)), map o_status (orders (w_db w)), length (w_mails w),
     map (\<lambda>tt. (tt_id tt, tt_remaining tt, tt_quantity tt)) (ticketTypes (w_db w)))"

lemma day_summary_eq: "day_summary day_world = ([Issued, Checked_in], [Paid], 1, [(3, 8, 10)])"
  by code_simp

lemmas day_outcome = day_summary_eq [unfolded day_summary_def prod.inject, THEN conjunct1]
  day_summary_eq [unfolded day_summary_def prod.inject, THEN conjunct2, THEN conjunct1]
  day_summary_eq [unfolded day_summary_def prod.inject, THEN conjunct2, THEN conjunct2, THEN conjunct1]
  day_summary_eq [unfolded day_summary_def prod.inject, THEN conjunct2, THEN conjunct2, THEN conjunct2]

section \<open>Properties\<close>

text \<open>
  C2: The running service refines the system. From any state of the step relation, whatever requests,
  deliveries of the payment provider, jobs, sweeps and outbox runs are performed on its database, one
  after the other, with whatever clocks, provider answers and random texts, the database reached is
  one the step relation can reach: no handler writes anything but through its listed transactions,
  under their preconditions. Everything proved of reachable states therefore holds of the service.
\<close>

theorem service_refines_system:
  assumes "y_db y = w_db w"
  shows "\<exists>z. sys_step\<^sup>*\<^sup>* y z \<and> y_db z = w_db (fold perform acts w)"
  using along_fold [OF along_start [OF assms], of acts] by (auto simp: along_def)

theorem service_refines_system_witness:
  "\<exists>z. sys_step\<^sup>*\<^sup>* \<lparr>y_db = empty_db, y_plans = [], y_refunds = [], y_taps = []\<rparr> z \<and>
     map t_status (tickets (y_db z)) = [Issued, Checked_in] \<and> map o_status (orders (y_db z)) = [Paid]"
proof -
  let ?y = "\<lparr>y_db = empty_db, y_plans = [], y_refunds = [], y_taps = []\<rparr> :: system"
  have "y_db ?y = w_db (demo_world empty_db)" by (simp add: demo_world_def)
  from service_refines_system [OF this, of day] obtain z where
    "sys_step\<^sup>*\<^sup>* ?y z" and "y_db z = w_db day_world" unfolding day_world_def by blast
  with day_outcome(1,2) show ?thesis by (intro exI [of _ z]) simp
qed

lemma service_reachable:
  assumes "w_db w = empty_db"
  obtains z where "reachable z" and "y_db z = w_db (fold perform acts w)"
proof -
  let ?y = "\<lparr>y_db = empty_db, y_plans = [], y_refunds = [], y_taps = []\<rparr>"
  have "along ?y {} {} {} (w_db w)" by (rule along_start) (simp add: assms)
  from along_fold [OF this, of acts] obtain z where z: "sys_step\<^sup>*\<^sup>* ?y z" "y_db z = w_db (fold perform acts w)"
    by (auto simp: along_def)
  moreover have "sys_start ?y" by (simp add: sys_start_def)
  ultimately have "reachable z" unfolding reachable_def by blast
  with z(2) show thesis by (rule that [rotated])
qed

text \<open>
  C3: The service never oversells. Started on an empty database, after any sequence of requests,
  deliveries, jobs and sweeps: the tickets alive and the reservations of a ticket type stay within
  its quantity and the remaining stock is what is left of it, no seat has two live tickets, no seat
  is held twice, and no seat with a live ticket is held.
\<close>

theorem service_never_oversells:
  assumes "w_db w = empty_db" and "s = w_db (fold perform acts w)"
  shows "(\<forall>tt \<in> set (ticketTypes s).
      tt_remaining tt = tt_quantity tt - (live_of (tt_id tt) (tickets s) + reserved (tt_id tt) s) \<and>
      0 \<le> tt_remaining tt \<and> 0 \<le> reserved (tt_id tt) s) \<and>
    distinct (live_seats (tickets s)) \<and> distinct (map h_seatId (holds s)) \<and>
    set (map h_seatId (holds s)) \<inter> set (live_seats (tickets s)) = {}"
proof -
  from service_reachable [OF assms(1), of acts] assms(2) have core: "core s"
    using reachable_core by metis
  from core_stock [OF this] core_seats [OF core] show ?thesis by fastforce
qed

theorem service_never_oversells_witness:
  "list_all (\<lambda>tt. tt_remaining tt = tt_quantity tt - (live_of (tt_id tt) (tickets (w_db day_world)) +
      reserved (tt_id tt) (w_db day_world))) (ticketTypes (w_db day_world)) \<and>
    length (ticketTypes (w_db day_world)) = 1"
proof
  have "w_db (demo_world empty_db) = empty_db" by (simp add: demo_world_def)
  from service_never_oversells [OF this, of "w_db day_world" day] 
  show "list_all (\<lambda>tt. tt_remaining tt = tt_quantity tt - (live_of (tt_id tt) (tickets (w_db day_world)) +
      reserved (tt_id tt) (w_db day_world))) (ticketTypes (w_db day_world))"
    unfolding list_all_iff day_world_def [symmetric] by blast
  from day_outcome(4) have "length (map (\<lambda>tt. (tt_id tt, tt_remaining tt, tt_quantity tt)) (ticketTypes (w_db day_world))) = 1"
    by (simp only: list.size)
  then show "length (ticketTypes (w_db day_world)) = 1" by simp
qed

end
