(* ===== verification/Undo.thy ===== *)
theory Undo
  imports Service
begin

text \<open>
  A purchase whose payment could not be set up: \<^verbatim>\<open>orders.service.ts\<close> cancels the order it has
  just committed, and this theory shows that the cancellation is an exact inverse of the reservation.
\<close>

section \<open>Stock as a displacement\<close>

definition shift_by :: "(id \<Rightarrow> int) \<Rightarrow> ticket_type list \<Rightarrow> ticket_type list" where
  "shift_by f tts = map (\<lambda>tt. tt\<lparr>tt_remaining := tt_remaining tt + f (tt_id tt)\<rparr>) tts"

lemma shift_by_ids [simp]: "map tt_id (shift_by f tts) = map tt_id tts"
  by (simp add: shift_by_def)

lemma shift_by_shift [simp]: "shift_by f (shift_by g tts) = shift_by (\<lambda>t. g t + f t) tts"
  by (simp add: shift_by_def)

lemma shift_by_zero: "(\<And>tt. tt \<in> set tts \<Longrightarrow> f (tt_id tt) = 0) \<Longrightarrow> shift_by f tts = tts"
  by (induction tts) (auto simp: shift_by_def)

lemma shift_by_cong: "(\<And>tt. tt \<in> set tts \<Longrightarrow> f (tt_id tt) = g (tt_id tt)) \<Longrightarrow> shift_by f tts = shift_by g tts"
  by (induction tts) (auto simp: shift_by_def)

lemma claim_ga_shift:
  assumes "distinct (map tt_id (ticketTypes s))" and "claim_ga it s = Inr (u, s')"
  shows "s' = s\<lparr>ticketTypes := shift_by (\<lambda>t. - items_qty t [it]) (ticketTypes s)\<rparr>"
proof -
  let ?hit = "\<lambda>tt. tt_id tt = i_ticketTypeId it \<and> tt_remaining tt \<ge> i_quantity it"
  let ?f = "\<lambda>tt. tt\<lparr>tt_remaining := tt_remaining tt - i_quantity it\<rparr>"
  from assms(2) have n: "count_where ?hit (ticketTypes s) = 1"
    and s': "s' = s\<lparr>ticketTypes := update_where ?hit ?f (ticketTypes s)\<rparr>"
    unfolding claim_ga_def Let_def by (cases "count_where ?hit (ticketTypes s) = 1"; simp)+
  from n have "\<exists>tt \<in> set (ticketTypes s). ?hit tt" using count_where_pos [of ?hit "ticketTypes s"] by simp
  then obtain tt where tt: "tt \<in> set (ticketTypes s)" "?hit tt" by blast
  have "?hit q \<longleftrightarrow> tt_id q = i_ticketTypeId it" if "q \<in> set (ticketTypes s)" for q
    using distinct_map_key_eq [OF assms(1) that tt(1)] tt(2) by auto
  then have "update_where ?hit ?f (ticketTypes s) = shift_by (\<lambda>t. - items_qty t [it]) (ticketTypes s)"
    unfolding update_where_def shift_by_def by (intro map_cong refl) (auto simp: items_qty_def)
  with s' show ?thesis by simp
qed

lemma claims_shift:
  "distinct (map tt_id (ticketTypes s)) \<Longrightarrow> for_eachT claim_ga its s = Inr (u, s') \<Longrightarrow>
     s' = s\<lparr>ticketTypes := shift_by (\<lambda>t. - items_qty t its) (ticketTypes s)\<rparr>"
proof (induction its arbitrary: s)
  case Nil
  then show ?case by (simp add: shift_by_zero items_qty_def)
next
  case (Cons it its)
  from Cons.prems(2) obtain v s1 where 1: "claim_ga it s = Inr (v, s1)" and 2: "for_eachT claim_ga its s1 = Inr (u, s')"
    by (auto simp only: for_eachT_Cons_Inr)
  from claim_ga_shift [OF Cons.prems(1) 1]
  have s1: "s1 = s\<lparr>ticketTypes := shift_by (\<lambda>t. - items_qty t [it]) (ticketTypes s)\<rparr>" .
  with Cons.prems(1) have "distinct (map tt_id (ticketTypes s1))" by simp
  from Cons.IH [OF this 2] s1 show ?case
    by (auto simp: items_qty_def intro!: arg_cong [of _ _ "\<lambda>x. s\<lparr>ticketTypes := x\<rparr>"] shift_by_cong)
qed

lemma give_back_shift:
  "(\<forall>tt \<in> set (ticketTypes s). 0 \<le> tt_remaining tt) \<Longrightarrow>
   (\<forall>it \<in> set its. 0 \<le> i_quantity it \<and> i_ticketTypeId it \<in> set (map tt_id (ticketTypes s))) \<Longrightarrow>
     for_eachT (\<lambda>it. add_remaining (i_ticketTypeId it) (i_quantity it)) its s =
       Inr ((), s\<lparr>ticketTypes := shift_by (\<lambda>t. items_qty t its) (ticketTypes s)\<rparr>)"
proof (induction its arbitrary: s)
  case Nil
  then show ?case by (simp add: shift_by_zero items_qty_def)
next
  case (Cons it its)
  from Cons.prems(2) have "i_ticketTypeId it \<in> set (map tt_id (ticketTypes s))" and q: "0 \<le> i_quantity it" by auto
  then obtain tt where found: "List.find (\<lambda>tt. tt_id tt = i_ticketTypeId it) (ticketTypes s) = Some tt"
    by (cases "List.find (\<lambda>tt. tt_id tt = i_ticketTypeId it) (ticketTypes s)") (auto simp: find_None_iff)
  with Cons.prems(1) q have room: "\<not> tt_remaining tt + i_quantity it < 0" by (auto dest!: find_SomeD)
  have "update_where (\<lambda>tt. tt_id tt = i_ticketTypeId it) (\<lambda>tt. tt\<lparr>tt_remaining := tt_remaining tt + i_quantity it\<rparr>)
      (ticketTypes s) = shift_by (\<lambda>t. items_qty t [it]) (ticketTypes s)"
    unfolding update_where_def shift_by_def by (intro map_cong refl) (auto simp: items_qty_def)
  with found room have one: "add_remaining (i_ticketTypeId it) (i_quantity it) s =
      Inr ((), s\<lparr>ticketTypes := shift_by (\<lambda>t. items_qty t [it]) (ticketTypes s)\<rparr>)"
    by (simp add: add_remaining_def)
  let ?s = "s\<lparr>ticketTypes := shift_by (\<lambda>t. items_qty t [it]) (ticketTypes s)\<rparr>"
  have "\<forall>tt \<in> set (ticketTypes ?s). 0 \<le> tt_remaining tt"
    using Cons.prems(1) q by (auto simp: shift_by_def items_qty_def)
  moreover have "\<forall>it \<in> set its. 0 \<le> i_quantity it \<and> i_ticketTypeId it \<in> set (map tt_id (ticketTypes ?s))"
    using Cons.prems(2) by (simp del: set_map)
  ultimately show ?case
    using Cons.IH [of ?s] one
    by (auto simp: items_qty_def intro!: arg_cong [of _ _ "\<lambda>x. s\<lparr>ticketTypes := x\<rparr>"] shift_by_cong)
qed

section \<open>The reservation, written out\<close>

definition bind_hold :: "order_plan \<Rightarrow> id \<Rightarrow> hold \<Rightarrow> hold" where
  "bind_hold pl i h = h\<lparr>h_orderId := Some i,
     h_expiresAt := (case pl_expiresAt pl of None \<Rightarrow> h_expiresAt h | Some x \<Rightarrow> x)\<rparr>"

definition reserved_db :: "clock \<Rightarrow> order_plan \<Rightarrow> db \<Rightarrow> db" where
  "reserved_db clk pl s = s\<lparr>
     ticketTypes := shift_by (\<lambda>t. - items_qty t (pl_ga pl)) (ticketTypes s),
     orders := orders s @ [new_order clk pl (next_id s) (Suc (next_id s))],
     holds := update_where (my_live_hold clk pl) (bind_hold pl (next_id s)) (holds s),
     next_id := Suc (Suc (next_id s))\<rparr>"

lemma create_tx_reserves:
  assumes "distinct (map tt_id (ticketTypes s))" and "requiresPayment pl" and "create_tx clk pl s = Inr (i, s')"
  shows "i = next_id s" and "s' = reserved_db clk pl s"
proof -
  from assms(3) obtain u s1 s2 where 1: "for_eachT claim_ga (pl_ga pl) s = Inr (u, s1)"
    and 2: "s2 = s1\<lparr>next_id := Suc (Suc (next_id s1)),
      orders := orders s1 @ [new_order clk pl (next_id s1) (Suc (next_id s1))]\<rparr>"
    and 3: "whenT (pl_seatIds pl \<noteq> []) (bind_holds clk pl (next_id s1)) s2 = Inr ((), s')" and i: "i = next_id s1"
    using assms(2) unfolding create_tx_def
    by (auto simp: bindT_Inr fresh_id_Inr insert_order_Inr whenT_Inr returnT_Inr split: if_splits)
  from claims_shift [OF assms(1) 1] have s1: "s1 = s\<lparr>ticketTypes := shift_by (\<lambda>t. - items_qty t (pl_ga pl)) (ticketTypes s)\<rparr>" .
  with i show "i = next_id s" by simp
  have "update_where (my_live_hold clk pl) f (holds s) = holds s" if "pl_seatIds pl = []" for f
    using that by (intro update_where_id) (simp add: my_live_hold_def)
  with 3 show "s' = reserved_db clk pl s"
    by (auto simp: whenT_Inr bind_holds_def bindT_Inr readT_Inr guardT_Inr writeT_Inr 2 s1 reserved_db_def
        bind_hold_def [abs_def] split: if_splits)
qed

section \<open>The cancellation\<close>

definition canceled_db :: "clock \<Rightarrow> order_plan \<Rightarrow> db \<Rightarrow> db \<Rightarrow> bool" where
  "canceled_db clk pl s s' \<longleftrightarrow>
     ticketTypes s' = ticketTypes s \<and> tickets s' = tickets s \<and> payments s' = payments s \<and>
     orders s' = orders s @ [(new_order clk pl (next_id s) (Suc (next_id s)))\<lparr>o_status := Canceled\<rparr>] \<and>
     holds s' = delete_where (\<lambda>h. my_live_hold clk pl h \<or> h_orderId h = Some (next_id s)) (holds s)"

lemma delete_bound:
  "delete_where (\<lambda>h. h_orderId h = Some i) (update_where p (bind_hold pl i) hs) =
     delete_where (\<lambda>h. p h \<or> h_orderId h = Some i) hs"
  by (induction hs) (auto simp: delete_where_def bind_hold_def)

lemma release_seats_total:
  "\<exists>s'. release_seats now r st s = Inr ((), s') \<and> ticketTypes s' = ticketTypes s \<and> tickets s' = tickets s \<and>
     payments s' = payments s \<and> orders s' = orders s \<and>
     holds s' = delete_where (\<lambda>h. h_orderId h = Some (o_id r)) (holds s)"
  by (simp add: release_seats_def bindT_def readT_def writeT_def whenT_def writeInTx_def fresh_id_def)

lemma kind_of_reserved: "kind_of t (reserved_db clk pl s\<lparr>orders := os\<rparr>) = kind_of t s"
proof -
  have "map_option tt_kind (List.find (\<lambda>tt. tt_id tt = t) (shift_by f tts)) =
      map_option tt_kind (List.find (\<lambda>tt. tt_id tt = t) tts)" for f tts
    by (induction tts) (auto simp: shift_by_def)
  then show ?thesis by (simp add: kind_of_def find_ticket_type_def reserved_db_def)
qed

lemma type_reserved:
  assumes "kind_of t s \<noteq> None"
  shows "t \<in> set (map tt_id (ticketTypes (reserved_db clk pl s)))"
proof -
  from assms obtain tt where "List.find (\<lambda>tt. tt_id tt = t) (ticketTypes s) = Some tt"
    by (auto simp: kind_of_def find_ticket_type_def)
  from find_SomeD [OF this] have "t \<in> tt_id ` set (ticketTypes s)" by blast
  then show ?thesis by (simp add: reserved_db_def shift_by_def image_image)
qed

text \<open>Of the items of the order only those of the floor give stock back.\<close>

lemma floor_items_qty:
  assumes plan: "plan_ok s pl" and kinds: "\<And>t. kind_of t s2 = kind_of t s"
  shows "items_qty t (filter (is_ga_item s2) (pl_ga pl @ pl_groups pl)) = items_qty t (pl_ga pl)"
proof -
  have "items_qty t its = 0" if "\<And>it. it \<in> set its \<Longrightarrow> kind_of (i_ticketTypeId it) s \<noteq> kind_of t s" for its
    unfolding items_qty_def using that by (intro sum_by_zero) auto
  moreover have "kind_of (i_ticketTypeId it) s = Some Ga" if "it \<in> set (pl_ga pl)" for it
    using plan that by (simp add: plan_ok_def)
  moreover have "kind_of (i_ticketTypeId it) s = Some Seated" if "it \<in> set (pl_groups pl)" for it
    using plan that by (simp add: plan_ok_def)
  ultimately show ?thesis unfolding items_qty_ga kinds items_qty_append
    by (smt (verit, best) option.inject ticket_kind.distinct(1))
qed

lemma cancel_undoes:
  assumes core: "core s" and plan: "plan_ok s pl" and pay: "requiresPayment pl"
    and tx: "create_tx clk pl s = Inr (i, s1)"
  shows "\<exists>s'. releaseOrderInventoryInTx now i Canceled s1 = Inr (True, s') \<and> canceled_db clk pl s s'"
proof -
  have ids: "ids_ok s" using core by (simp add: core_def)
  then have dist: "distinct (map tt_id (ticketTypes s))" by (simp add: ids_ok_def)
  note res = create_tx_reserves [OF dist pay tx]
  let ?new = "new_order clk pl (next_id s) (Suc (next_id s))"
  let ?canceled = "?new\<lparr>o_status := Canceled\<rparr>"
  have old: "o_id r \<noteq> next_id s" if "r \<in> set (orders s)" for r using ids that by (auto simp: ids_ok_def)
  have new: "claim_release (next_id s) ?new" "o_id ?canceled = next_id s" "o_items ?canceled = pl_ga pl @ pl_groups pl"
    using pay by (simp_all add: claim_release_def new_order_def)
  let ?s2 = "(reserved_db clk pl s)\<lparr>orders := orders s @ [?canceled]\<rparr>"
  let ?ga = "filter (is_ga_item ?s2) (pl_ga pl @ pl_groups pl)"
  have claimed: "update_where (claim_release (next_id s)) (\<lambda>r. r\<lparr>o_status := Canceled\<rparr>) (orders s @ [?new]) =
      orders s @ [?canceled]"
    using new(1) old by (auto simp: claim_release_def intro!: update_where_id)
  have one: "count_where (claim_release (next_id s)) (orders s @ [?new]) \<noteq> 0" using new(1) by simp
  have found: "find_order (next_id s) ?s2 = Some ?canceled"
    using old new(2) by (auto simp: find_order_def find_append find_None_iff split: option.splits dest!: find_SomeD)
  have types: "\<forall>it \<in> set ?ga. 0 \<le> i_quantity it \<and> i_ticketTypeId it \<in> set (map tt_id (ticketTypes ?s2))"
    using plan type_reserved [of _ s clk pl] by (auto simp: plan_ok_def)
  have "ids_ok s1" using create_tx_moves [OF plan tx] ids by (simp add: moves_def)
  then have room: "\<forall>tt \<in> set (ticketTypes ?s2). 0 \<le> tt_remaining tt"
    by (simp add: ids_ok_def res(2))
  let ?s3 = "?s2\<lparr>ticketTypes := shift_by (\<lambda>t. items_qty t ?ga) (ticketTypes ?s2)\<rparr>"
  have given: "for_eachT (\<lambda>it. add_remaining (i_ticketTypeId it) (i_quantity it)) ?ga ?s2 = Inr ((), ?s3)"
    by (rule give_back_shift [OF room types])
  have stock: "ticketTypes ?s3 = ticketTypes s"
    unfolding floor_items_qty [OF plan kind_of_reserved] by (simp add: reserved_db_def shift_by_zero)
  obtain s4 where s4: "release_seats now ?canceled Canceled ?s3 = Inr ((), s4)"
    and same: "ticketTypes s4 = ticketTypes ?s3" "tickets s4 = tickets ?s3" "payments s4 = payments ?s3"
      "orders s4 = orders ?s3" "holds s4 = delete_where (\<lambda>h. h_orderId h = Some (o_id ?canceled)) (holds ?s3)"
    using release_seats_total by blast
  have "releaseOrderInventoryInTx now i Canceled s1 = Inr (True, s4)"
    unfolding releaseOrderInventoryInTx_def res
    using claimed one found given s4 new(3)
    by (simp add: bindT_def readT_def writeT_def someT_def returnT_def reserved_db_def)
  moreover have "canceled_db clk pl s s4"
    using same stock new(2) by (simp add: canceled_db_def reserved_db_def delete_bound)
  ultimately show ?thesis by blast
qed

section \<open>The handler\<close>

lemma payment_leg_failed:
  assumes "payment_leg clk ans i amount w = (Inl e, w')"
    and "releaseOrderInventoryInTx (db_now clk) i Canceled (w_db w) = Inr (True, s')"
  shows "w_db w' = s'"
  using assms
  by (auto simp: payment_leg_def expireOrder_def handler_defs createIntent_def insert_payment_def
      enqueueExpiry_def split: sum.splits prod.splits option.splits if_splits)

text \<open>Only the payment leg calls the provider.\<close>

lemma failed_in_leg:
  assumes run: "bindR (whenR c (payment_leg clk ans i x)) (\<lambda>_. bindR (queryR (find_order i)) (\<lambda>found.
      bindR (someR (Prisma P2025) found) (\<lambda>r. returnR (r, False)))) w = (Inl e, w')"
    and calls: "w_calls w' \<noteq> w_calls w" and order: "\<And>s. orders s = orders (w_db w) \<Longrightarrow> find_order i s \<noteq> None"
  shows "c \<and> (\<exists>e'. payment_leg clk ans i x w = (Inl e', w'))"
proof -
  have c using run calls by (auto simp: bindR_def whenR_def queryR_def someR_def returnR_def split: option.splits if_splits)
  moreover have "\<exists>e'. payment_leg clk ans i x w = (Inl e', w')"
  proof (cases "payment_leg clk ans i x w")
    case (Pair res w2)
    show ?thesis
    proof (cases res)
      case (Inl e')
      with Pair run \<open>c\<close> show ?thesis by (simp add: bindR_def whenR_def)
    next
      case (Inr u)
      from order payment_leg_orders [OF Pair [unfolded Inr]] obtain r where "find_order i (w_db w2) = Some r" by blast
      with Pair Inr run \<open>c\<close> show ?thesis by (simp add: bindR_def whenR_def queryR_def someR_def returnR_def)
    qed
  qed
  ultimately show ?thesis by blast
qed

lemma create_failed:
  assumes "create clk ans dto cp w = (Inl e, w')" and "w_calls w' \<noteq> w_calls w"
  obtains pl i s1 e' where "plan_order clk dto cp (w_db w) = Inr pl" and "requiresPayment pl"
    and "create_tx clk pl (w_db w) = Inr (i, s1)"
    and "payment_leg clk ans i (pl_total pl) (w\<lparr>w_db := s1\<rparr>) = (Inl e', w')"
proof -
  let ?key = "key_of cp"
  let ?leg = "\<lambda>pl i. bindR (whenR (requiresPayment pl) (payment_leg clk ans i (pl_total pl))) (\<lambda>_.
         bindR (queryR (find_order i)) (\<lambda>found.
         bindR (someR (Prisma P2025) found) (\<lambda>r. returnR (r, False))))"
  from assms obtain pl where plan: "plan_order clk dto cp (w_db w) = Inr pl"
    and new: "?key (w_db w) = None"
    and rest: "bindR (tryR (bindR (commit (create_tx clk pl)) (\<lambda>i. returnR (Inl i)))
          (\<lambda>e. if truthy (cp_idempotencyKey cp) \<and> e = Prisma P2002 then
                 bindR (queryR ?key) (\<lambda>again.
                 case again of Some r \<Rightarrow> returnR (Inr r) | None \<Rightarrow> throwR e)
               else throwR e)) (\<lambda>out. case out of Inr r \<Rightarrow> returnR (r, True) | Inl i \<Rightarrow> ?leg pl i) w = (Inl e, w')"
    by (cases "plan_order clk dto cp (w_db w)")
      (auto simp: create_def bindR_def [of "guardR _ _"] bindR_def [of "queryR (key_of cp)"] guardR_def queryR_def
        returnR_def bindR_def [of "askR _"] askR_def split: if_splits option.splits)
  show thesis
  proof (cases "create_tx clk pl (w_db w)")
    case (Inl e1)
    with rest assms(2) show thesis
      by (auto simp: bindR_def tryR_def commit_def throwR_def returnR_def queryR_def
          split: if_splits option.splits)
  next
    case (Inr is1)
    obtain i s1 where tx: "create_tx clk pl (w_db w) = Inr (i, s1)" using Inr by (cases is1) auto
    from rest tx have leg: "?leg pl i (w\<lparr>w_db := s1\<rparr>) = (Inl e, w')"
      by (simp add: bindR_def [of "tryR _ _"] tryR_def bindR_def [of "commit _"] commit_def returnR_def)
    obtain g where "orders s1 = orders (w_db w) @ [new_order clk pl i g]" using create_tx_adds [OF tx] by blast
    then have "find_order i s \<noteq> None" if "orders s = orders s1" for s
      using that by (auto simp: find_order_def find_append new_order_def split: option.splits)
    with failed_in_leg [OF leg] assms(2) show thesis using that [OF plan _ tx] by auto
  qed
qed

section \<open>Properties\<close>

text \<open>
  C16: A purchase that reached the payment provider and then failed, whatever the reason, leaves no
  trace on the sale: its order stays behind as canceled, every ticket type has exactly the stock it
  had, no ticket and no payment is recorded, and the only holds gone are the buyer's own on the
  seats of the purchase, which are free again.
\<close>

theorem failed_purchase_undone:
  assumes "reachable y" and "y_db y = w_db w" and "valid_order_dto is_email dto"
    and "create clk ans dto cp w = (Inl e, w')" and "w_calls w' \<noteq> w_calls w"
  shows "\<exists>r. orders (w_db w') = orders (w_db w) @ [r] \<and> o_status r = Canceled \<and>
    ticketTypes (w_db w') = ticketTypes (w_db w) \<and> tickets (w_db w') = tickets (w_db w) \<and>
    payments (w_db w') = payments (w_db w) \<and>
    holds (w_db w') = delete_where (\<lambda>h. h_orderId h = Some (o_id r) \<or>
      (h_eventId h = cp_eventId cp \<and> Some (h_holderKey h) = cp_holderKey cp \<and> db_now clk < h_expiresAt h \<and>
       h_seatId h \<in> set (dto_seats dto))) (holds (w_db w))"
proof -
  let ?s = "w_db w"
  from reachable_core [OF assms(1)] assms(2) have core: "core ?s" by simp
  from create_failed [OF assms(4,5)] obtain pl i s1 e' where plan: "plan_order clk dto cp ?s = Inr pl"
    and pay: "requiresPayment pl" and tx: "create_tx clk pl ?s = Inr (i, s1)"
    and leg: "payment_leg clk ans i (pl_total pl) (w\<lparr>w_db := s1\<rparr>) = (Inl e', w')" .
  have "plan_ok ?s pl"
    using core by (intro plan_order_ok(1) [OF plan assms(3)]) (auto simp: core_def seat_inv_def)
  from cancel_undoes [OF core this pay tx, of "db_now clk"] payment_leg_failed [OF leg]
  have undone: "canceled_db clk pl ?s (w_db w')" by auto
  have "pl_eventId pl = cp_eventId cp" "pl_seatIds pl = dto_seats dto"
    using plan by (auto elim: plan_orderE)
  moreover have "pl_holderKey pl = cp_holderKey cp"
    using plan by (auto simp: plan_order_def Let_def split: option.splits sum.splits if_splits)
  ultimately show ?thesis
    using undone by (auto simp: canceled_db_def my_live_hold_def new_order_def disj_commute)
qed

text \<open>Bob holds a seat, asks for it together with two floor tickets, and the provider is down.\<close>

definition bob_dto :: create_order_dto where
  "bob_dto = \<lparr>d_items = Some [\<lparr>oi_ticketTypeId = 3, oi_quantity = 2\<rparr>], d_seatIds = Some [6],
     d_buyerEmail = ''bob@x'', d_buyerName = ''Bob''\<rparr>"

definition bob_failed :: world where
  "bob_failed = snd (create demo_clock Network_failure bob_dto (run_params ''k2'') (demo_world run_held))"

lemma bob_fails: "create demo_clock Network_failure bob_dto (run_params ''k2'') (demo_world run_held) =
    (Inl Provider_unavailable, bob_failed)"
  by code_simp

lemma run_held_reachable: "reachable (run_system run_held [])"
proof -
  have "sys_step (run_system run_listed []) (run_system run_ordered [])"
    by (rule run_step(1) [OF _ run_steps(1)]) simp
  from reachable_step [OF reachable_step [OF run_listed_reachable this] run_step(2) [OF run_steps(2)]]
  show ?thesis .
qed

theorem failed_purchase_undone_witness:
  "\<exists>r. orders (w_db bob_failed) = orders run_held @ [r] \<and> o_status r = Canceled \<and>
    ticketTypes (w_db bob_failed) = ticketTypes run_held \<and> length (holds run_held) = 1 \<and> holds (w_db bob_failed) = []"
proof -
  have "valid_order_dto (\<lambda>_. True) bob_dto" by code_simp
  moreover have "w_calls bob_failed \<noteq> w_calls (demo_world run_held)" by code_simp
  moreover have "y_db (run_system run_held []) = w_db (demo_world run_held)" by (simp add: demo_world_def)
  ultimately obtain r where "orders (w_db bob_failed) = orders run_held @ [r]" "o_status r = Canceled"
      "ticketTypes (w_db bob_failed) = ticketTypes run_held"
    using failed_purchase_undone [OF run_held_reachable _ _ bob_fails] by (auto simp: demo_world_def)
  moreover have "length (holds run_held) = 1 \<and> holds (w_db bob_failed) = []" by code_simp
  ultimately show ?thesis by blast
qed

end
