(* ===== verification/Drain.thy ===== *)
theory Drain
  imports Undo
begin

text \<open>
  The reconciliation of orders whose expiry job was lost (\<^verbatim>\<open>reconcileExpired\<close>): releasing an order
  cannot fail in a state of the service, so every run returns and enough runs leave no order behind.
\<close>

lemma known_type: "kind_of t s \<noteq> None \<Longrightarrow> t \<in> set (map tt_id (ticketTypes s))"
proof -
  assume "kind_of t s \<noteq> None"
  then obtain tt where "List.find (\<lambda>tt. tt_id tt = t) (ticketTypes s) = Some tt"
    by (auto simp: kind_of_def find_ticket_type_def)
  from find_SomeD [OF this] show ?thesis by auto
qed

lemma find_claimed:
  assumes "count_where (claim_release i) os \<noteq> 0"
  shows "\<exists>r. List.find (\<lambda>r. o_id r = i) (update_where (claim_release i) (\<lambda>r. r\<lparr>o_status := st\<rparr>) os) = Some r \<and>
    (\<exists>q \<in> set os. o_items r = o_items q)"
proof -
  let ?os = "update_where (claim_release i) (\<lambda>r. r\<lparr>o_status := st\<rparr>) os"
  from assms obtain q where "q \<in> set os" "claim_release i q" by (auto simp: count_where_0)
  then have "q\<lparr>o_status := st\<rparr> \<in> set ?os" "o_id (q\<lparr>o_status := st\<rparr>) = i"
    by (auto simp: row_simps claim_release_def intro!: rev_image_eqI [of q])
  then obtain r where r: "List.find (\<lambda>r. o_id r = i) ?os = Some r"
    by (cases "List.find (\<lambda>r. o_id r = i) ?os") (auto dest: find_NoneD)
  then have "r \<in> set ?os" by (auto dest: find_SomeD)
  then have "\<exists>q \<in> set os. o_items r = o_items q" by (auto simp: row_simps split: if_splits)
  with r show ?thesis by blast
qed

lemma release_total:
  assumes core: "core s"
  shows "\<exists>s'. releaseOrderInventoryInTx now i st s = Inr (count_where (claim_release i) (orders s) \<noteq> 0, s') \<and>
    orders s' = update_where (claim_release i) (\<lambda>r. r\<lparr>o_status := st\<rparr>) (orders s)"
proof (cases "count_where (claim_release i) (orders s) = 0")
  case True
  then show ?thesis
    by (simp add: releaseOrderInventoryInTx_def bindT_def readT_def writeT_def returnT_def)
next
  case False
  let ?s1 = "s\<lparr>orders := update_where (claim_release i) (\<lambda>r. r\<lparr>o_status := st\<rparr>) (orders s)\<rparr>"
  from find_claimed [OF False, of st] obtain r q where r: "find_order i ?s1 = Some r"
    and q: "q \<in> set (orders s)" "o_items r = o_items q"
    by (auto simp: find_order_def)
  have refs: "refs (\<lambda>t. kind_of t s) {} (seats s) s" and ids: "ids_ok s" using core by (simp_all add: core_def)
  let ?ga = "filter (is_ga_item ?s1) (o_items r)"
  have types: "\<forall>it \<in> set ?ga. 0 \<le> i_quantity it \<and> i_ticketTypeId it \<in> set (map tt_id (ticketTypes ?s1))"
  proof
    fix it assume "it \<in> set ?ga"
    then have "it \<in> set (o_items q)" by (simp add: q(2))
    with refs q(1) have "0 \<le> i_quantity it" "kind_of (i_ticketTypeId it) s \<noteq> None" by (auto simp: refs_def)
    with known_type show "0 \<le> i_quantity it \<and> i_ticketTypeId it \<in> set (map tt_id (ticketTypes ?s1))" by simp
  qed
  have "\<forall>tt \<in> set (ticketTypes ?s1). 0 \<le> tt_remaining tt" using ids by (simp add: ids_ok_def)
  note given = give_back_shift [OF this types]
  from release_seats_total [of now r st "?s1\<lparr>ticketTypes := shift_by (\<lambda>t. items_qty t ?ga) (ticketTypes ?s1)\<rparr>"]
  obtain s' where "release_seats now r st (?s1\<lparr>ticketTypes := shift_by (\<lambda>t. items_qty t ?ga) (ticketTypes ?s1)\<rparr>) = Inr ((), s')"
    and "orders s' = orders ?s1" by auto
  with False r given show ?thesis
    by (simp add: releaseOrderInventoryInTx_def bindT_def readT_def writeT_def someT_def returnT_def)
qed

lemma stranded_released:
  assumes "distinct (map o_id os)" and "r \<in> set os" and "is_stranded now r"
  shows "count_where (claim_release (o_id r)) os \<noteq> 0"
    and "Suc (count_where (is_stranded now) (update_where (claim_release (o_id r)) (\<lambda>r. r\<lparr>o_status := Expired\<rparr>) os)) =
      count_where (is_stranded now) os"
proof -
  show "count_where (claim_release (o_id r)) os \<noteq> 0"
    using assms(2,3) by (auto simp: count_where_0 claim_release_def is_stranded_def)
  show "Suc (count_where (is_stranded now) (update_where (claim_release (o_id r)) (\<lambda>r. r\<lparr>o_status := Expired\<rparr>) os)) =
      count_where (is_stranded now) os"
    using assms
  proof (induction os)
    case Nil
    then show ?case by simp
  next
    case (Cons q os)
    show ?case
    proof (cases "q = r")
      case True
      with Cons.prems(1) have "o_id r \<notin> o_id ` set os" by simp
      then have "\<not> claim_release (o_id r) p" if "p \<in> set os" for p
        using that unfolding claim_release_def by (metis image_eqI)
      then have "update_where (claim_release (o_id r)) (\<lambda>r. r\<lparr>o_status := Expired\<rparr>) os = os"
        by (rule update_where_id)
      moreover have "claim_release (o_id r) r" "\<not> is_stranded now (r\<lparr>o_status := Expired\<rparr>)"
        using Cons.prems(3) by (simp_all add: claim_release_def is_stranded_def)
      ultimately show ?thesis using True Cons.prems(3) by simp
    next
      case False
      with Cons.prems have "r \<in> set os" "o_id q \<noteq> o_id r" by auto
      moreover from this have "\<not> claim_release (o_id r) q" by (simp add: claim_release_def)
      ultimately show ?thesis using Cons by simp
    qed
  qed
qed

lemma reconcile_loop_drains:
  assumes "core (w_db w)" and "distinct is"
    and "\<forall>i \<in> set is. \<exists>r \<in> set (orders (w_db w)). o_id r = i \<and> is_stranded now r"
  shows "\<exists>w'. reconcile_loop now is w = (Inr (length is), w') \<and> core (w_db w') \<and>
    count_where (is_stranded now) (orders (w_db w')) + length is = count_where (is_stranded now) (orders (w_db w))"
  using assms
proof (induction "is" arbitrary: w)
  case Nil
  then show ?case by (simp add: returnR_def)
next
  case (Cons i "is")
  let ?s = "w_db w"
  from Cons.prems(3) obtain r where r: "r \<in> set (orders ?s)" "o_id r = i" "is_stranded now r" by auto
  have dist: "distinct (map o_id (orders ?s))" using Cons.prems(1) by (simp add: core_def ids_ok_def)
  note one = stranded_released [OF dist r(1,3), unfolded r(2)]
  from release_total [OF Cons.prems(1), of now i Expired] one(1) obtain s' where
    rel: "releaseOrderInventoryInTx now i Expired ?s = Inr (True, s')"
    and os: "orders s' = update_where (claim_release i) (\<lambda>r. r\<lparr>o_status := Expired\<rparr>) (orders ?s)" by auto
  have "tx_step ?s s'" by (rule tx_step.release [OF _ rel]) simp
  with Cons.prems(1) have core': "core s'" using tx_step_safe by blast
  have "\<forall>j \<in> set is. \<exists>r \<in> set (orders s'). o_id r = j \<and> is_stranded now r"
  proof
    fix j assume j: "j \<in> set is"
    with Cons.prems(2) have "j \<noteq> i" by auto
    from Cons.prems(3) j obtain q where "q \<in> set (orders ?s)" "o_id q = j" "is_stranded now q" by auto
    with \<open>j \<noteq> i\<close> show "\<exists>r \<in> set (orders s'). o_id r = j \<and> is_stranded now r"
      unfolding os set_update_where
      by (intro bexI [of _ q]) (auto simp: claim_release_def intro!: rev_image_eqI [of q])
  qed
  with Cons.IH [of "w\<lparr>w_db := s'\<rparr>"] core' Cons.prems(2) obtain w' where
    "reconcile_loop now is (w\<lparr>w_db := s'\<rparr>) = (Inr (length is), w')" "core (w_db w')"
    "count_where (is_stranded now) (orders (w_db w')) + length is = count_where (is_stranded now) (orders s')"
    by auto
  moreover have "Suc (count_where (is_stranded now) (orders s')) = count_where (is_stranded now) (orders ?s)"
    using one(2) os by simp
  ultimately show ?case using rel by (intro exI [of _ w']) (simp add: bindR_def commit_def returnR_def)
qed

lemma stranded_ids:
  assumes "distinct (map o_id (orders s))"
  shows "distinct (stranded now s)"
    and "length (stranded now s) = min RECONCILE_BATCH_SIZE (count_where (is_stranded now) (orders s))"
    and "\<forall>i \<in> set (stranded now s). \<exists>r \<in> set (orders s). o_id r = i \<and> is_stranded now r"
proof -
  let ?k = "\<lambda>r. case o_expiresAt r of None \<Rightarrow> 0 | Some x \<Rightarrow> x"
  let ?fs = "sort_key ?k (filter (is_stranded now) (orders s))"
  have "distinct (map o_id ?fs)"
  proof -
    have "distinct (map o_id (filter (is_stranded now) (orders s)))" using assms by (rule distinct_map_filter)
    then show ?thesis by (simp add: distinct_map)
  qed
  then show "distinct (stranded now s)" unfolding stranded_def by (simp add: take_map [symmetric])
  show "length (stranded now s) = min RECONCILE_BATCH_SIZE (count_where (is_stranded now) (orders s))"
    by (simp add: stranded_def count_where_def min.commute)
  show "\<forall>i \<in> set (stranded now s). \<exists>r \<in> set (orders s). o_id r = i \<and> is_stranded now r"
    by (auto simp: stranded_def dest!: in_set_takeD)
qed

text \<open>Runs of the reconciliation job, one after the other, and how many orders they released.\<close>

fun reconcile_runs :: "nat \<Rightarrow> millis \<Rightarrow> nat handler" where
  "reconcile_runs 0 now = returnR 0"
| "reconcile_runs (Suc k) now =
     bindR (reconcileExpired now) (\<lambda>n. bindR (reconcile_runs k now) (\<lambda>m. returnR (n + m)))"

lemma reconcile_run:
  assumes "core (w_db w)" and n: "n = count_where (is_stranded now) (orders (w_db w))"
  shows "\<exists>w'. reconcileExpired now w = (Inr (min RECONCILE_BATCH_SIZE n), w') \<and> core (w_db w') \<and>
    count_where (is_stranded now) (orders (w_db w')) = n - RECONCILE_BATCH_SIZE"
proof -
  have "distinct (map o_id (orders (w_db w)))" using assms(1) by (simp add: core_def ids_ok_def)
  note ids = stranded_ids [OF this, of now]
  from reconcile_loop_drains [OF assms(1) ids(1,3)] obtain w' where
    "reconcile_loop now (stranded now (w_db w)) w = (Inr (length (stranded now (w_db w))), w')" "core (w_db w')"
    "count_where (is_stranded now) (orders (w_db w')) + length (stranded now (w_db w)) = n"
    unfolding n by blast
  with ids(2) show ?thesis
    by (intro exI [of _ w']) (auto simp: reconcileExpired_def bindR_def queryR_def n)
qed

lemma reconcile_runs_drain:
  "core (w_db w) \<Longrightarrow> count_where (is_stranded now) (orders (w_db w)) \<le> RECONCILE_BATCH_SIZE * k \<Longrightarrow>
     \<exists>w'. reconcile_runs k now w = (Inr (count_where (is_stranded now) (orders (w_db w))), w') \<and>
       count_where (is_stranded now) (orders (w_db w')) = 0"
proof (induction k arbitrary: w)
  case 0
  then show ?case by (simp add: returnR_def)
next
  case (Suc k)
  let ?n = "count_where (is_stranded now) (orders (w_db w))"
  from reconcile_run [OF Suc.prems(1) refl, of now] obtain w1 where 1: "reconcileExpired now w = (Inr (min RECONCILE_BATCH_SIZE ?n), w1)"
    "core (w_db w1)" "count_where (is_stranded now) (orders (w_db w1)) = ?n - RECONCILE_BATCH_SIZE" by auto
  with Suc.prems(2) have "count_where (is_stranded now) (orders (w_db w1)) \<le> RECONCILE_BATCH_SIZE * k" by simp
  from Suc.IH [OF 1(2) this] obtain w2 where
    "reconcile_runs k now w1 = (Inr (count_where (is_stranded now) (orders (w_db w1))), w2)"
    "count_where (is_stranded now) (orders (w_db w2)) = 0" by blast
  with 1 show ?case by (auto simp: bindR_def returnR_def)
qed

section \<open>Properties\<close>

text \<open>
  C20: Reconciliation terminates with nothing stranded. In every reachable state each run of the
  reconciliation job returns, and as soon as the runs are enough for the orders waiting past their
  expiry, at a hundred a run, all of them have been released, each counted once, and none is left.
\<close>

theorem reconciliation_drains:
  assumes "reachable y" and "y_db y = w_db w"
    and "count_where (is_stranded now) (orders (w_db w)) \<le> 100 * k"
  shows "\<exists>w'. reconcile_runs k now w = (Inr (count_where (is_stranded now) (orders (w_db w))), w') \<and>
    stranded now (w_db w') = []"
proof -
  have "core (w_db w)" using reachable_core [OF assms(1)] assms(2) by simp
  from reconcile_runs_drain [OF this, of now k] assms(3) show ?thesis
    by (auto simp: RECONCILE_BATCH_SIZE_def stranded_def count_where_0 filter_empty_conv)
qed

text \<open>Two unpaid orders past their window.\<close>

theorem reconciliation_drains_witness:
  "\<exists>w'. reconcile_runs 1 2000000 (demo_world run_seated) = (Inr 2, w') \<and> stranded 2000000 (w_db w') = []"
proof -
  have n: "count_where (is_stranded 2000000) (orders (w_db (demo_world run_seated))) = 2" by code_simp
  have "y_db (run_system run_seated []) = w_db (demo_world run_seated)" by (simp add: demo_world_def)
  from reconciliation_drains [OF run_seated_reachable this, of 2000000 1] n show ?thesis by simp
qed

end
