(* ===== verification/Refusals.thy ===== *)
theory Refusals
  imports Service
begin

text \<open>
  What the service refuses and what a failure leaves behind: organizer routes without the role, and
  a purchase whose payment could not be set up.
\<close>

section \<open>Organizer routes\<close>

text \<open>
  The event a route is about and the least role its service asks for: the event of its path, or for
  the retry of a refund that of the refund's order.
\<close>

fun path_role :: "route \<Rightarrow> (id \<times> role) option" where
  "path_role (Team_routes ev _) = Some (ev, Owner)"
| "path_role (Event_routes (Event_update ev _)) = Some (ev, Manager)"
| "path_role (Event_routes (Event_publish ev)) = Some (ev, Manager)"
| "path_role (Event_routes (Type_add ev _)) = Some (ev, Manager)"
| "path_role (Event_routes (Type_update ev _ _)) = Some (ev, Manager)"
| "path_role (Checkin_routes ev (Checkin_scan _)) = Some (ev, Staff)"
| "path_role (Checkin_routes ev Attendees_csv) = Some (ev, Manager)"
| "path_role (Refund_routes (Refund_create ev _ _)) = Some (ev, Manager)"
| "path_role (Map_routes ev (Map_create _)) = Some (ev, Manager)"
| "path_role (Dashboard_queries (Event_dashboard ev)) = Some (ev, Manager)"
| "path_role (Dashboard_queries (Event_summary ev)) = Some (ev, Staff)"
| "path_role (Dashboard_queries (Event_attendees ev _)) = Some (ev, Staff)"
| "path_role (Dashboard_queries (Event_orders ev _)) = Some (ev, Manager)"
| "path_role _ = None"

definition required_role :: "db \<Rightarrow> route \<Rightarrow> (id \<times> role) option" where
  "required_role s r = (case r of
     Refund_routes (Refund_retry rid) \<Rightarrow>
       (case Option.bind (find_refund rid s) (\<lambda>q. find_order (r_orderId q) s) of
          None \<Rightarrow> None
        | Some order \<Rightarrow> Some (o_eventId order, Manager))
   | _ \<Rightarrow> path_role r)"

text \<open>Whether its body passes the validation pipe.\<close>

fun valid_body :: "surroundings \<Rightarrow> route \<Rightarrow> bool" where
  "valid_body env (Team_routes _ (Team_add email _)) = env_isEmail env email"
| "valid_body env (Event_routes (Event_update _ d)) = valid_event_update d"
| "valid_body env (Event_routes (Type_add _ d)) = valid_ticket_type d"
| "valid_body env (Event_routes (Type_update _ _ d)) = valid_ticket_type_update d"
| "valid_body env (Refund_routes (Refund_create _ _ xs)) = valid_refund_dto xs"
| "valid_body env (Map_routes _ (Map_create ds)) = valid_map_dto ds"
| "valid_body env _ = True"

definition refusal :: "surroundings \<Rightarrow> request \<Rightarrow> route \<Rightarrow> id \<Rightarrow> db \<Rightarrow> error" where
  "refusal env rq r ev s =
     (case rq_user rq of
        None \<Rightarrow> Unauthorized Not_authenticated
      | Some u \<Rightarrow>
          if \<not> valid_body env r then Bad_request Invalid_dto
          else if effective_role s ev u = None then Not_found Event_not_found
          else Role_not_allowed)"

definition has_role :: "request \<Rightarrow> id \<Rightarrow> role \<Rightarrow> db \<Rightarrow> bool" where
  "has_role rq ev need s \<longleftrightarrow> (case rq_user rq of
     None \<Rightarrow> False
   | Some u \<Rightarrow> (case effective_role s ev u of None \<Rightarrow> False | Some have \<Rightarrow> need \<le> have))"

lemma gate_refusal:
  assumes "\<not> has_role rq ev need s" and "rq_user rq = Some u" and "valid_body env r"
  shows "requireEventRole ev u need s = Inl (refusal env rq r ev s)"
  using assms by (auto simp: event_gate.gate_eq has_role_def refusal_def not_le split: option.splits)

lemma first_refusal:
  "g (w_db w) = Inl e \<Longrightarrow> bindR (askR g) f w = (Inl e, w)"
  by (simp add: bindR_def askR_def)

lemma pipe_refusal: "\<not> ok \<Longrightarrow> bindR (validationPipe ok) f w = (Inl (Bad_request Invalid_dto), w)"
  by (simp add: bindR_def validationPipe_def guardR_def)

lemma pipe_passes: "ok \<Longrightarrow> bindR (validationPipe ok) f w = f () w"
  by (simp add: bindR_def validationPipe_def guardR_def)

lemma answer_refusal: "m w = (Inl e, w) \<Longrightarrow> answerR g m w = (Inl e, w)"
  by (simp add: answerR_def bindR_def)

lemma signed_in: "rq_user rq = Some u \<Longrightarrow> bindR (jwtAuthGuard rq) f w = f u w"
  by (simp add: bindR_def jwtAuthGuard_def someR_def)

lemma anonymous: "rq_user rq = None \<Longrightarrow> bindR (jwtAuthGuard rq) f w = (Inl (Unauthorized Not_authenticated), w)"
  by (simp add: bindR_def jwtAuthGuard_def someR_def)

lemmas guarded_reads = team_list_def attendeesCsv_def eventDashboard_def eventSummary_def
  eventAttendees_def eventOrders_def

lemmas guarded_writes = team_add_def changeRole_def team_remove_def update_event_def publish_def
  addTicketType_def updateTicketType_def checkIn_def create_refund_def refund_request_def create_map_def

lemma team_refusal:
  assumes "requireEventRole ev u Owner (w_db w) = Inl e" and "valid_body env (Team_routes ev r)"
  shows "teamController env ev u r w = (Inl e, w)"
  using assms by (cases r) (auto simp: pipe_passes guarded_reads guarded_writes askR_def
      intro!: answer_refusal first_refusal)

lemma path_guarded:
  assumes "path_role r = Some (ev, need)" and "\<not> has_role rq ev need (w_db w)"
  shows "api env rq r w = (Inl (refusal env rq r ev (w_db w)), w)"
proof (cases "rq_user rq")
  case None
  with assms(1) show ?thesis
    by (cases r rule: path_role.cases) (auto simp: anonymous refusal_def)
next
  case (Some u)
  note gate = gate_refusal [OF assms(2) Some]
  show ?thesis
  proof (cases "valid_body env r")
    case False
    then have "refusal env rq r ev (w_db w) = Bad_request Invalid_dto" using Some by (simp add: refusal_def)
    with assms(1) Some False show ?thesis
      by (cases r rule: path_role.cases)
        (auto simp: signed_in pipe_refusal elim!: valid_body.elims)
  next
    case True
    with gate have gate: "requireEventRole ev u need (w_db w) = Inl (refusal env rq r ev (w_db w))" by blast
    from assms(1) Some True show ?thesis
      by (cases r rule: path_role.cases)
        (use gate in \<open>auto simp: signed_in pipe_passes guarded_reads guarded_writes askR_def
          intro!: answer_refusal first_refusal team_refusal\<close>)
  qed
qed

lemma retry_guarded:
  assumes "find_refund rid (w_db w) = Some q" and "find_order (r_orderId q) (w_db w) = Some order"
    and "\<not> has_role rq (o_eventId order) Manager (w_db w)"
  shows "api env rq (Refund_routes (Refund_retry rid)) w =
    (Inl (refusal env rq (Refund_routes (Refund_retry rid)) (o_eventId order) (w_db w)), w)"
proof (cases "rq_user rq")
  case None
  then show ?thesis by (simp add: anonymous refusal_def)
next
  case (Some u)
  from gate_refusal [OF assms(3) Some, of env "Refund_routes (Refund_retry rid)"] assms(1,2)
  have "retry ans rid u w = (Inl (refusal env rq (Refund_routes (Refund_retry rid)) (o_eventId order) (w_db w)), w)" for ans
    by (simp add: retry_def bindR_def queryR_def someR_def askR_def)
  with Some show ?thesis by (simp add: signed_in answer_refusal)
qed

text \<open>
  C19: Organizer routes are guarded. A request to a route about an event, or to retry a refund of one
  of its orders, from a visitor, a stranger or a member whose role is too low, is refused and changes
  nothing: without a user as unauthorized, with a malformed body as such, to a stranger as if the
  event did not exist, to a member as not allowed.
\<close>

theorem organizer_routes_guarded:
  assumes "required_role (w_db w) r = Some (ev, need)" and "\<not> has_role rq ev need (w_db w)"
  shows "api env rq r w = (Inl (refusal env rq r ev (w_db w)), w)"
proof (cases "\<exists>rid. r = Refund_routes (Refund_retry rid)")
  case True
  then obtain rid where r: "r = Refund_routes (Refund_retry rid)" by blast
  with assms(1) obtain q order where "find_refund rid (w_db w) = Some q" "find_order (r_orderId q) (w_db w) = Some order"
      "ev = o_eventId order" "need = Manager"
    by (auto simp: required_role_def bind_eq_Some_conv split: option.splits)
  with retry_guarded [of rid w q order rq env] assms(2) r show ?thesis by blast
next
  case False
  with assms(1) have "path_role r = Some (ev, need)"
    by (auto simp: required_role_def split: route.splits refund_route.splits)
  then show ?thesis using assms(2) by (rule path_guarded)
qed

definition refused_requests :: "(request \<times> route) list" where
  "refused_requests =
     [(day_request None, Event_routes (Event_publish 1)), (day_request (Some 5), Checkin_routes 1 (Checkin_scan 31)),
      (day_request (Some 7), Refund_routes (Refund_create 1 20 [30])), (day_request (Some 7), Team_routes 1 (Team_delete 8)),
      (day_request (Some 6), Team_routes 1 (Team_add ''x'' M_staff))]"

theorem organizer_routes_guarded_witness:
  "list_all (\<lambda>(rq, r). case required_role (w_db (demo_world paid_db)) r of None \<Rightarrow> False | Some (ev, need) \<Rightarrow>
      api (day_env 1000) rq r (demo_world paid_db) =
        (Inl (refusal (day_env 1000) rq r ev (w_db (demo_world paid_db))), demo_world paid_db)) refused_requests \<and>
    map (\<lambda>(rq, r). refusal (day_env 1000) rq r 1 paid_db) refused_requests =
      [Unauthorized Not_authenticated, Not_found Event_not_found, Role_not_allowed, Role_not_allowed,
       Bad_request Invalid_dto]"
proof
  have "list_all (\<lambda>(rq, r). case required_role (w_db (demo_world paid_db)) r of None \<Rightarrow> False | Some (ev, need) \<Rightarrow>
      \<not> has_role rq ev need (w_db (demo_world paid_db))) refused_requests"
    by code_simp
  then show "list_all (\<lambda>(rq, r). case required_role (w_db (demo_world paid_db)) r of None \<Rightarrow> False | Some (ev, need) \<Rightarrow>
      api (day_env 1000) rq r (demo_world paid_db) =
        (Inl (refusal (day_env 1000) rq r ev (w_db (demo_world paid_db))), demo_world paid_db)) refused_requests"
    unfolding list_all_iff using organizer_routes_guarded by (fastforce split: option.splits)
  show "map (\<lambda>(rq, r). refusal (day_env 1000) rq r 1 paid_db) refused_requests =
      [Unauthorized Not_authenticated, Not_found Event_not_found, Role_not_allowed, Role_not_allowed,
       Bad_request Invalid_dto]"
    by code_simp
qed

end
