(* ===== verification/Webhooks.thy ===== *)
theory Webhooks
  imports Sale
begin

text \<open>
  What the provider can rely on when it delivers an event (\<^verbatim>\<open>payments/payments.service.ts\<close>):
  deliveries are idempotent, a payment is recorded once, and money that arrives for a released order
  is sent back, once and in full.
\<close>

section \<open>The log of delivered events\<close>

lemma keepsR_case: "(\<And>a. x = Some a \<Longrightarrow> keepsR P (f a)) \<Longrightarrow> (x = None \<Longrightarrow> keepsR P m) \<Longrightarrow>
    keepsR P (case x of None \<Rightarrow> m | Some a \<Rightarrow> f a)"
  by (cases x) auto

lemma log_send: "keepsR (\<lambda>w. webhookEvents (w_db w) = W) (sendMoneyLeg ans rid intentId amount)"
  unfolding sendMoneyLeg_def by (intro keeps webhook_log.keeps_money_leg)

lemma log_succeeded: "keepsR (\<lambda>w. webhookEvents (w_db w) = W) (handleSucceeded clk ans intent)"
proof -
  have "keepsR (\<lambda>w. webhookEvents (w_db w) = W) (compensateUnfulfilledPayment clk ans i x intent)" for i x
    unfolding compensateUnfulfilledPayment_def
    by (intro keeps keepsR_case log_send webhook_log.keeps_compensation | simp only: split: if_split | intro conjI impI)+
  then show ?thesis
    unfolding handleSucceeded_def
    by (intro keeps webhook_log.keeps_succeeded) (simp split: succeeded_outcome.split add: keeps)
qed

lemma log_failed: "keepsR (\<lambda>w. webhookEvents (w_db w) = W) (handleFailed now intent)"
  unfolding handleFailed_def by (intro keeps webhook_log.keeps_failed)

lemma log_refunded: "keepsR (\<lambda>w. webhookEvents (w_db w) = W) (handleRefunded clk ev)"
  unfolding handleRefunded_def by (intro keeps keepsR_case webhook_log.keeps_refunded)

definition logged :: "string \<Rightarrow> db \<Rightarrow> bool" where
  "logged i s \<longleftrightarrow> (\<exists>r. find_webhook i s = Some r)"

definition handled_event :: "string \<Rightarrow> db \<Rightarrow> bool" where
  "handled_event i s \<longleftrightarrow> (\<exists>r. find_webhook i s = Some r \<and> w_processedAt r \<noteq> None)"

lemma logged_append: "logged i (s\<lparr>webhookEvents := webhookEvents s @ [r]\<rparr>) \<longleftrightarrow> logged i s \<or> w_providerEventId r = i"
  by (auto simp: logged_def find_webhook_def find_append split: option.splits)

lemma process_handled:
  assumes "logged i (w_db w)" and "processEvent clk ans i intent ev w = (Inr u, w')"
  shows "handled_event i (w_db w')"
proof -
  let ?body = "if we_type ev = ''payment.succeeded'' then handleSucceeded clk ans intent
            else if we_type ev = ''payment.failed'' then handleFailed (db_now clk) intent
            else if we_type ev = ''payment.refunded'' then handleRefunded clk ev
            else returnR ()"
  have keep: "keepsR (\<lambda>v. webhookEvents (w_db v) = webhookEvents (w_db w)) ?body"
    by (simp add: log_succeeded log_failed log_refunded keepsR_return)
  obtain v where v: "?body w = (Inr (), v)" and fin: "commit (markProcessed (app_now clk) i) v = (Inr u, w')"
    using assms(2) unfolding processEvent_def bindR_def by (auto split: prod.splits sum.splits)
  from keepsRD [OF keep refl v] have "webhookEvents (w_db v) = webhookEvents (w_db w)" .
  with assms(1) have "logged i (w_db v)" by (simp add: logged_def find_webhook_def)
  then obtain r where r: "List.find (\<lambda>w. w_providerEventId w = i) (webhookEvents (w_db v)) = Some r"
    by (auto simp: logged_def find_webhook_def)
  have "w_db w' = (w_db v)\<lparr>webhookEvents := update_where (\<lambda>w. w_providerEventId w = i)
      (\<lambda>w. w\<lparr>w_processedAt := Some (app_now clk)\<rparr>) (webhookEvents (w_db v))\<rparr>"
    using fin by (auto simp: commit_def markProcessed_def writeT_def)
  with r find_SomeD [OF r] show ?thesis
    by (simp add: handled_event_def find_webhook_def find_update_where)
qed

lemma record_logs:
  assumes "recordEvent i ty w = (Inr res, w')"
  shows "logged i (w_db w') \<and> (res = Processed \<longrightarrow> handled_event i (w_db w'))"
proof (cases "find_webhook i (w_db w)")
  case None
  with assms show ?thesis
    by (auto simp: recordEvent_def handler_defs insert_webhook_def logged_append)
next
  case (Some r)
  with assms show ?thesis
    by (auto simp: recordEvent_def handler_defs insert_webhook_def logged_def handled_event_def split: if_splits)
qed

lemma record_handled:
  "handled_event i (w_db w) \<Longrightarrow> recordEvent i ty w = (Inr Processed, w)"
  by (auto simp: handled_event_def recordEvent_def handler_defs insert_webhook_def)

section \<open>Properties\<close>

text \<open>
  C7: Deliveries are idempotent. Once a delivery of an event has been answered with success, every
  later delivery of it that verifies is acknowledged as a duplicate and changes nothing at all,
  whatever has happened in between (as long as its row in the log is still there), whatever the
  clocks and the provider say: no ticket, refund, message or call to the provider.
\<close>

theorem webhook_idempotent:
  assumes "webhook clk hmac secret parse ans header body w = (Inr b, w1)"
    and "parse body = Inr ev" and "we_id ev = Some i"
    and "find_webhook i (w_db w2) = find_webhook i (w_db w1)"
    and "verifySignature hmac secret (app_now clk2) header2 body = Inr ()"
  shows "webhook clk2 hmac secret parse ans2 header2 body w2 = (Inr True, w2)"
proof -
  from assms(1-3) have body: "body \<noteq> []" and ids: "we_intentId ev \<noteq> None" "we_orderId ev \<noteq> None"
    by (auto simp: webhook_def handler_defs split: if_splits sum.splits)
  from assms(1-3) body ids obtain res v where rec: "recordEvent i (we_type ev) w = (Inr res, v)"
    and rest: "if res = Processed then (Inr b, w1) = (Inr True, v)
      else bindR (processEvent clk ans i (the (we_intentId ev)) ev) (\<lambda>_. returnR False) v = (Inr b, w1)"
    by (auto simp: webhook_def guardR_def askR_def bindR_def [of "guardR _ _"] bindR_def [of "askR _"]
        bindR_def [of "recordEvent _ _"] returnR_def split: if_splits sum.splits prod.splits)
  have "handled_event i (w_db w1)"
  proof (cases "res = Processed")
    case True
    with record_logs [OF rec] rest show ?thesis by simp
  next
    case False
    with rest obtain u where "processEvent clk ans i (the (we_intentId ev)) ev v = (Inr u, w1)"
      by (auto simp: bindR_def returnR_def split: prod.splits sum.splits)
    with record_logs [OF rec] process_handled show ?thesis by blast
  qed
  then have "handled_event i (w_db w2)" by (simp add: handled_event_def assms(4))
  from record_handled [OF this] show ?thesis
    using assms(2,3,5) body ids by (simp add: webhook_def handler_defs)
qed

definition paid_event :: provider_event where
  "paid_event = \<lparr>we_id = Some ''evt_1'', we_type = ''payment.succeeded'', we_intentId = Some ''pi_1'',
     we_orderId = Some 20, we_refundId = None, we_reference = None\<rparr>"

abbreviation demo_hmac :: "string \<Rightarrow> string \<Rightarrow> string" where
  "demo_hmac \<equiv> \<lambda>k m. ''00ff''"

abbreviation demo_parse :: "string \<Rightarrow> error + provider_event" where
  "demo_parse \<equiv> \<lambda>body. Inr paid_event"

definition deliver :: "world \<Rightarrow> (error + bool) \<times> world" where
  "deliver = webhook demo_clock demo_hmac ''key'' demo_parse Network_failure (Some ''t=1,v1=00ff'') ''{}''"

lemma deliver_first: "deliver (demo_world awaiting_db) = (Inr False, snd (deliver (demo_world awaiting_db)))"
  by code_simp

lemma deliver_signed: "verifySignature demo_hmac ''key'' (app_now demo_clock) (Some ''t=1,v1=00ff'') ''{}'' = Inr ()"
  by code_simp

theorem webhook_idempotent_witness:
  "webhook demo_clock demo_hmac ''key'' demo_parse (Http_response 200 (Some ''re_1'')) (Some ''t=1,v1=00ff'') ''{}''
      (snd (deliver (demo_world awaiting_db))) = (Inr True, snd (deliver (demo_world awaiting_db)))"
  by (rule webhook_idempotent [OF deliver_first [unfolded deliver_def], where i = "''evt_1''" and ev = paid_event,
      folded deliver_def, OF _ _ _ deliver_signed]) (simp_all add: paid_event_def deliver_def)

section \<open>Released and paid orders\<close>

lemma release_noop:
  assumes "\<forall>r \<in> set (orders s). \<not> claim_release i r"
  shows "releaseOrderInventoryInTx now i st s = Inr (False, s)"
proof -
  have "count_where (claim_release i) (orders s) = 0" using assms by (simp add: count_where_0)
  moreover have "update_where (claim_release i) f (orders s) = orders s" for f
    using assms by (intro update_where_id) simp
  ultimately show ?thesis
    by (simp add: releaseOrderInventoryInTx_def bindT_def readT_def writeT_def returnT_def)
qed

text \<open>The tables a payment fills, and what is announced about them.\<close>

definition order_work :: "db \<Rightarrow> ticket list \<times> hold list \<times> ticket_type list \<times> order list \<times> outbox_event list" where
  "order_work s = (tickets s, holds s, ticketTypes s, orders s, outboxEvents s)"

lemma order_work_frame [simp]:
  "order_work (s\<lparr>refunds := rs\<rparr>) = order_work s" "order_work (s\<lparr>payments := ps\<rparr>) = order_work s"
  "order_work (s\<lparr>next_id := n\<rparr>) = order_work s" "order_work (s\<lparr>webhookEvents := ws\<rparr>) = order_work s"
  "order_work (set_payment intent st s) = order_work s"
  by (simp_all add: order_work_def set_payment_def)

lemma work_money_leg: "keepsR (\<lambda>w. order_work (w_db w) = W) (sendMoneyLeg ans rid intentId amount)"
proof -
  have set_id: "keepsT (\<lambda>s. order_work s = W) (set_provider_refund rid prov)" for prov
    by (auto simp: keepsT_def set_provider_refund_def split: option.splits)
  have fail: "keepsT (\<lambda>s. order_work s = W) (fail_refund rid)"
    unfolding fail_refund_def by (intro keepsT_write) simp
  show ?thesis unfolding sendMoneyLeg_def by (intro keeps set_id fail)
qed

lemma work_compensation:
  "keepsR (\<lambda>w. order_work (w_db w) = W) (compensateUnfulfilledPayment clk ans i x intent)"
proof -
  have tx: "keepsT (\<lambda>s. order_work s = W) (compensation_tx clk i x)"
    by (auto simp: keepsT_def compensation_tx_def bindT_Inr fresh_id_Inr insert_refund_Inr returnT_Inr)
  show ?thesis
    unfolding compensateUnfulfilledPayment_def
    by (intro keeps keepsR_case work_money_leg tx | simp only: split: if_split | intro conjI impI)+
qed

lemma settled_succeeded:
  assumes "\<forall>p. find_payment intent s = Some p \<longrightarrow> (\<forall>r \<in> set (orders s). \<not> claim_release (p_orderId p) r)"
    and "succeeded_tx now intent s = Inr (out, s')"
  shows "out \<noteq> Paid_outcome \<and> order_work s' = order_work s"
proof (cases "find_payment intent s")
  case None
  with assms(2) show ?thesis
    by (auto simp: succeeded_tx_def bindT_def readT_def returnT_def)
next
  case (Some p)
  let ?s1 = "set_payment intent P_succeeded s"
  from assms(1) Some have none: "\<forall>r \<in> set (orders s). \<not> claim_release (p_orderId p) r" by blast
  then have "count_where (claim_release (p_orderId p)) (orders ?s1) = 0"
    by (simp add: count_where_0 set_payment_def)
  moreover have "claim_paid (p_orderId p) ?s1 = ?s1"
    using none update_where_id [of "orders s" "claim_release (p_orderId p)"]
    by (simp add: claim_paid_def set_payment_def)
  ultimately have "succeeded_tx now intent s = Inr (out, ?s1) \<and> out \<noteq> Paid_outcome"
    using Some assms(2) by (simp add: succeeded_tx_def bindT_def readT_def writeT_def returnT_def
        split: option.splits if_splits) (metis succeeded_outcome.distinct(5))
  then show ?thesis using assms(2) by (metis order_work_frame(5) prod.inject sum.inject(2))
qed

lemma settled_failed:
  assumes "\<forall>p. find_payment intent s = Some p \<longrightarrow> (\<forall>r \<in> set (orders s). \<not> claim_release (p_orderId p) r)"
    and "failed_tx now intent s = Inr (u, s')"
  shows "order_work s' = order_work s"
proof (cases "find_payment intent s")
  case None
  with assms(2) show ?thesis
    by (auto simp: failed_tx_def bindT_def readT_def returnT_def)
next
  case (Some p)
  from assms(1) Some have "\<forall>r \<in> set (orders (set_payment intent P_failed s)). \<not> claim_release (p_orderId p) r"
    by (simp add: set_payment_def)
  from release_noop [OF this] Some assms(2) show ?thesis
    by (auto simp: failed_tx_def bindT_def readT_def writeT_def returnT_def split: if_splits)
qed

lemma settled_event:
  assumes "\<forall>p. find_payment intent (w_db w) = Some p \<longrightarrow> (\<forall>r \<in> set (orders (w_db w)). \<not> claim_release (p_orderId p) r)"
    and "we_type e \<in> {''payment.succeeded'', ''payment.failed''}"
  shows "order_work (w_db (snd (processEvent clk ans i intent e w))) = order_work (w_db w)"
proof -
  have mark: "keepsR (\<lambda>w. order_work (w_db w) = W) (commit (markProcessed (app_now clk) i))" for W
    unfolding markProcessed_def by (intro keeps keepsT_write) simp
  have paid: "order_work (w_db (snd (handleSucceeded clk ans intent w))) = order_work (w_db w)"
  proof (cases "succeeded_tx (db_now clk) intent (w_db w)")
    case (Inl err)
    then show ?thesis by (simp add: handleSucceeded_def handler_defs)
  next
    case (Inr a)
    with settled_succeeded [OF assms(1), of "db_now clk"] obtain out s where a: "a = (out, s)" "order_work s = order_work (w_db w)"
      by (cases a) auto
    have "order_work (w_db (snd (compensateUnfulfilledPayment clk ans j x intent (w\<lparr>w_db := s\<rparr>)))) = order_work (w_db w)" for j x
      using work_compensation [of "order_work (w_db w)" clk ans j x intent] a(2)
      by (simp add: keepsR_def)
    with Inr a show ?thesis
      by (simp add: handleSucceeded_def bindR_def commit_def returnR_def split: succeeded_outcome.split)
  qed
  have failed: "order_work (w_db (snd (handleFailed (db_now clk) intent w))) = order_work (w_db w)"
    using settled_failed [OF assms(1), of "db_now clk"]
    by (auto simp: handleFailed_def commit_def split: sum.splits)
  let ?m = "if we_type e = ''payment.succeeded'' then handleSucceeded clk ans intent
            else if we_type e = ''payment.failed'' then handleFailed (db_now clk) intent
            else if we_type e = ''payment.refunded'' then handleRefunded clk e else returnR ()"
  obtain x v where v: "?m w = (x, v)" by (cases "?m w")
  have "order_work (w_db (snd (?m w))) = order_work (w_db w)" using assms(2) paid failed by auto
  with v have "order_work (w_db v) = order_work (w_db w)" by simp
  moreover from this mark have "order_work (w_db (snd (commit (markProcessed (app_now clk) i) v))) = order_work (w_db w)"
    unfolding keepsR_def by blast
  ultimately show ?thesis
    unfolding processEvent_def bindR_def v by (simp split: sum.split)
qed

lemma follows_id: "order_follows r q \<Longrightarrow> o_id q = o_id r"
  by (cases r; cases q) (simp add: order_follows_def)

text \<open>
  C8: An order is settled once. Once an order has left `awaiting payment` (paid, expired, canceled or
  refunded, with or without a payment of its own), then whatever happens afterwards, in every
  interleaving: every release of it finds nothing and changes nothing, and no payment event, whether
  it reports success or failure, for any intent that is not another order's, changes an order, a
  ticket, a hold or the stock, or announces anything. The provider may still be asked to send the
  money of a late payment back.
\<close>

theorem order_settled_once:
  assumes "reachable y" and "sys_step\<^sup>*\<^sup>* y z" and "r \<in> set (orders (y_db y))" and "o_status r \<noteq> Awaiting_payment"
    and "w_db w = y_db z"
  shows "releaseOrderInventoryInTx now (o_id r) st (y_db z) = Inr (False, y_db z) \<and>
    expireOrder now (o_id r) st w = (Inr (), w) \<and>
    (\<forall>clk ans i intent e. we_type e \<in> {''payment.succeeded'', ''payment.failed''} \<and>
       (\<forall>p. find_payment intent (y_db z) = Some p \<longrightarrow> p_orderId p = o_id r) \<longrightarrow>
       order_work (w_db (snd (processEvent clk ans i intent e w))) = order_work (y_db z))"
proof -
  have ids: "distinct (map o_id (orders (y_db z)))"
    using reachable_ids [OF reachable_steps [OF assms(1,2)]] by (simp add: ids_ok_def)
  from follow_rows [OF assms(1,2)] assms(3) obtain q where q: "q \<in> set (orders (y_db z))" "order_follows r q"
    unfolding advanced_def by blast
  from follows_id [OF q(2)] have "o_id q = o_id r" .
  moreover have "o_status q \<noteq> Awaiting_payment"
    using q(2) assms(4) by (cases "o_status r") (auto simp: order_follows_def)
  ultimately have none: "\<forall>q \<in> set (orders (y_db z)). \<not> claim_release (o_id r) q"
    using ids q(1) by (auto simp: claim_release_def dest: distinct_map_key_eq)
  from release_noop [OF none] have "expireOrder now (o_id r) st w = (Inr (), w)"
    by (simp add: expireOrder_def handler_defs assms(5) [symmetric])
  moreover have "order_work (w_db (snd (processEvent clk ans i intent e w))) = order_work (y_db z)"
    if "we_type e \<in> {''payment.succeeded'', ''payment.failed''}"
      "\<forall>p. find_payment intent (y_db z) = Some p \<longrightarrow> p_orderId p = o_id r" for clk ans i intent e
    using settled_event [of intent w e] none that assms(5) by simp
  ultimately show ?thesis using release_noop [OF none] by blast
qed

text \<open>The sample order above, paid: after the refund and the check-in both kinds of event come in again.\<close>

definition run_order :: order where
  "run_order = the (find_order 8 run_paid)"

lemma run_order_paid: "find_order 8 run_paid = Some run_order \<and> o_status run_order = Paid \<and> o_id run_order = 8 \<and>
    map_option p_orderId (find_payment ''pi_1'' run_admitted) = Some 8"
  by code_simp

definition failed_event :: provider_event where
  "failed_event = paid_event\<lparr>we_type := ''payment.failed''\<rparr>"

theorem order_settled_once_witness:
  "releaseOrderInventoryInTx 7000 8 Expired run_admitted = Inr (False, run_admitted) \<and>
    expireOrder 7000 8 Expired (demo_world run_admitted) = (Inr (), demo_world run_admitted) \<and>
    order_work (w_db (snd (processEvent demo_clock Network_failure ''evt_2'' ''pi_1'' failed_event
      (demo_world run_admitted)))) = order_work run_admitted \<and>
    order_work (w_db (snd (processEvent demo_clock Network_failure ''evt_3'' ''pi_1'' paid_event
      (demo_world run_admitted)))) = order_work run_admitted"
proof -
  have r: "run_order \<in> set (orders run_paid)" "o_status run_order \<noteq> Awaiting_payment" "o_id run_order = 8"
    using run_order_paid find_order_in by auto
  have p: "p_orderId p = 8" if "find_payment ''pi_1'' run_admitted = Some p" for p
    using run_order_paid that by simp
  have e: "we_type failed_event = ''payment.failed''" "we_type paid_event = ''payment.succeeded''"
    by (simp_all add: failed_event_def paid_event_def)
  from order_settled_once [OF run_paid_reachable run_aftermath, of run_order "demo_world run_admitted" 7000 Expired]
  show ?thesis using r p e by (simp add: demo_world_def)
qed

section \<open>Money for an order that was released\<close>

definition no_compensation :: "id \<Rightarrow> db \<Rightarrow> bool" where
  "no_compensation i s \<longleftrightarrow> list_all (\<lambda>q. r_orderId q = i \<longrightarrow> r_requestedById q \<noteq> None \<and>
     r_idempotencyKey q \<noteq> Some SYSTEM_COMPENSATION_KEY) (refunds s) \<and> list_all (\<lambda>q. r_id q < next_id s) (refunds s)"

definition compensation_row :: "clock \<Rightarrow> string http_answer \<Rightarrow> payment \<Rightarrow> id \<Rightarrow> refund" where
  "compensation_row clk ans p i = \<lparr>r_id = i, r_orderId = p_orderId p,
     r_providerRefundId = (case answer_body ans of Inl e \<Rightarrow> None | Inr prov \<Rightarrow> Some prov),
     r_amountSatang = p_amountSatang p,
     r_status = (case answer_body ans of Inl e \<Rightarrow> R_failed | Inr prov \<Rightarrow> R_pending),
     r_idempotencyKey = Some SYSTEM_COMPENSATION_KEY, r_requestedById = None,
     r_createdAt = db_now clk, r_settledAt = None\<rparr>"

lemma find_last: "list_all (\<lambda>q. \<not> p q) rs \<Longrightarrow> p r \<Longrightarrow> List.find p (rs @ [r]) = Some r"
  by (induction rs) auto

lemma late_succeeded:
  assumes pay: "find_payment intent s = Some p" "p_status p = P_requires_action"
    and order: "find_order (p_orderId p) s = Some r" "o_status r \<in> set UNFULFILLABLE_ORDER_STATUSES"
    and ids: "distinct (map o_id (orders s))"
  shows "succeeded_tx now intent s =
    Inr (Unfulfillable (p_orderId p) (p_amountSatang p), set_payment intent P_succeeded s)"
proof -
  let ?s1 = "set_payment intent P_succeeded s"
  from find_SomeD [OF pay(1) [unfolded find_payment_def]] pay(2)
  have "count_where (open_payment intent) (payments s) \<noteq> 0"
    by (auto simp: count_where_0 open_payment_def)
  moreover from find_order_in [OF order(1)] order(2) ids
  have none: "\<forall>q \<in> set (orders s). \<not> claim_release (p_orderId p) q"
    by (auto simp: claim_release_def UNFULFILLABLE_ORDER_STATUSES_def dest: distinct_map_key_eq)
  then have "count_where (claim_release (p_orderId p)) (orders ?s1) = 0"
    by (simp add: count_where_0 set_payment_def)
  moreover have "claim_paid (p_orderId p) ?s1 = ?s1"
    using none update_where_id [of "orders s" "claim_release (p_orderId p)"] by (simp add: claim_paid_def set_payment_def)
  moreover have "find_order (p_orderId p) ?s1 = Some r" using order(1) by (simp add: find_order_def set_payment_def)
  ultimately show ?thesis using pay(1) order(2)
    by (simp add: succeeded_tx_def bindT_def readT_def writeT_def returnT_def)
qed

abbreviation open_row :: "clock \<Rightarrow> payment \<Rightarrow> id \<Rightarrow> refund" where
  "open_row clk p i \<equiv> compensation_row clk (Http_response 200 (Some [])) p i\<lparr>r_providerRefundId := None\<rparr>"

lemma answer_good: "answer_body (Http_response 200 (Some a)) = Inr a"
  by (simp add: answer_body_def response_ok_def)

lemma compensation_eq:
  assumes "\<not> refund_key_taken (p_orderId p) (Some SYSTEM_COMPENSATION_KEY) s"
  shows "compensation_tx clk (p_orderId p) (p_amountSatang p) s =
    Inr (next_id s, s\<lparr>next_id := Suc (next_id s), refunds := refunds s @ [open_row clk p (next_id s)]\<rparr>)"
  using assms by (simp add: compensation_tx_def bindT_def fresh_id_def insert_refund_def returnT_def
      refund_key_taken_def compensation_row_def answer_good)

lemma send_last:
  assumes "refunds (w_db w) = rs @ [open_row clk p i]" and "list_all (\<lambda>q. \<not> r_id q = i) rs"
  shows "sendMoneyLeg ans i intent x w = (Inr (), w\<lparr>w_db := (w_db w)\<lparr>refunds := rs @ [compensation_row clk ans p i]\<rparr>,
    w_calls := w_calls w @ [Create_refund intent x i]\<rparr>)"
proof (cases "answer_body ans")
  case (Inl e)
  have old: "update_where (refund_in i R_pending) f rs = rs" for f
    using assms(2) by (intro update_where_id) (auto simp: list_all_iff refund_in_def)
  show ?thesis
    by (simp add: sendMoneyLeg_def createRefund_def tryR_def bindR_def commit_def fail_refund_def writeT_def Inl assms(1)
        old refund_in_def compensation_row_def answer_good)
next
  case (Inr prov)
  have old: "update_where (\<lambda>r. r_id r = i) f rs = rs" for f
    using assms(2) by (intro update_where_id) (auto simp: list_all_iff)
  from Inr show ?thesis
    by (simp add: sendMoneyLeg_def createRefund_def tryR_def bindR_def commit_def set_provider_refund_def find_refund_def
        assms(1) old find_last [OF assms(2)] compensation_row_def answer_good)
qed

lemma compensate_first:
  assumes "List.find (\<lambda>q. r_orderId q = p_orderId p \<and> r_requestedById q = None) (refunds (w_db w)) = None"
    and "\<not> refund_key_taken (p_orderId p) (Some SYSTEM_COMPENSATION_KEY) (w_db w)"
    and "list_all (\<lambda>q. \<not> r_id q = next_id (w_db w)) (refunds (w_db w))"
  shows "compensateUnfulfilledPayment clk ans (p_orderId p) (p_amountSatang p) intent w =
    (Inr (), w\<lparr>w_db := (w_db w)\<lparr>next_id := Suc (next_id (w_db w)),
        refunds := refunds (w_db w) @ [compensation_row clk ans p (next_id (w_db w))]\<rparr>,
      w_calls := w_calls w @ [Create_refund intent (p_amountSatang p) (next_id (w_db w))]\<rparr>)"
proof -
  let ?s = "w_db w"
  let ?w = "w\<lparr>w_db := ?s\<lparr>next_id := Suc (next_id ?s), refunds := refunds ?s @ [open_row clk p (next_id ?s)]\<rparr>\<rparr>"
  have "compensateUnfulfilledPayment clk ans (p_orderId p) (p_amountSatang p) intent w =
      sendMoneyLeg ans (next_id ?s) intent (p_amountSatang p) ?w"
    by (simp add: compensateUnfulfilledPayment_def bindR_def queryR_def tryR_def commit_def returnR_def assms(1)
        compensation_eq [OF assms(2)])
  also have "\<dots> = (Inr (), ?w\<lparr>w_db := (w_db ?w)\<lparr>refunds := refunds ?s @ [compensation_row clk ans p (next_id ?s)]\<rparr>,
      w_calls := w_calls ?w @ [Create_refund intent (p_amountSatang p) (next_id ?s)]\<rparr>)"
    by (rule send_last) (simp_all add: assms(3))
  finally show ?thesis by simp
qed

text \<open>
  C9: Money for a released order goes back, once and in full. When the success of an open payment is
  reported for an order that has expired or was canceled, and no compensation exists yet, then: the
  payment is marked succeeded, exactly one refund row is added, for the order and the whole amount,
  exactly one refund call is made to the provider for that intent, amount and row, the row ends
  pending or failed as the provider answered, no order, ticket, hold or stock changes, and reporting
  the success again changes nothing.
\<close>

theorem late_payment_compensated:
  assumes "find_payment intent (w_db w) = Some p" and "p_status p = P_requires_action"
    and "find_order (p_orderId p) (w_db w) = Some r" and "o_status r \<in> set UNFULFILLABLE_ORDER_STATUSES"
    and "distinct (map o_id (orders (w_db w)))" and "no_compensation (p_orderId p) (w_db w)"
    and "handleSucceeded clk ans intent w = (res, w')"
  shows "res = Inr () \<and>
    w' = w\<lparr>w_db := (set_payment intent P_succeeded (w_db w))\<lparr>next_id := Suc (next_id (w_db w)),
             refunds := refunds (w_db w) @ [compensation_row clk ans p (next_id (w_db w))]\<rparr>,
           w_calls := w_calls w @ [Create_refund intent (p_amountSatang p) (next_id (w_db w))]\<rparr> \<and>
    handleSucceeded clk2 ans2 intent w' = (Inr (), w')"
proof -
  let ?s = "w_db w" and ?s1 = "set_payment intent P_succeeded (w_db w)"
  have old: "list_all (\<lambda>q. \<not> r_id q = next_id ?s) (refunds ?s)"
    and no_auto: "List.find (\<lambda>q. r_orderId q = p_orderId p \<and> r_requestedById q = None) (refunds ?s) = None"
    and no_key: "\<not> refund_key_taken (p_orderId p) (Some SYSTEM_COMPENSATION_KEY) ?s"
    using assms(6) by (auto simp: no_compensation_def list_all_iff refund_key_taken_def find_None_iff)
  let ?w1 = "w\<lparr>w_db := ?s1\<rparr>"
  have frame: "next_id ?s1 = next_id ?s" "refunds ?s1 = refunds ?s" by (simp_all add: set_payment_def)
  have "handleSucceeded clk ans intent w =
      compensateUnfulfilledPayment clk ans (p_orderId p) (p_amountSatang p) intent ?w1"
    by (simp add: handleSucceeded_def bindR_def commit_def late_succeeded [OF assms(1-5)])
  also have "\<dots> = (Inr (), w\<lparr>w_db := ?s1\<lparr>next_id := Suc (next_id ?s),
        refunds := refunds ?s @ [compensation_row clk ans p (next_id ?s)]\<rparr>,
      w_calls := w_calls w @ [Create_refund intent (p_amountSatang p) (next_id ?s)]\<rparr>)"
    using compensate_first [of p ?w1] no_auto no_key old by (simp add: frame refund_key_taken_def)
  finally have "handleSucceeded clk ans intent w = (Inr (), w\<lparr>w_db := ?s1\<lparr>next_id := Suc (next_id ?s),
        refunds := refunds ?s @ [compensation_row clk ans p (next_id ?s)]\<rparr>,
      w_calls := w_calls w @ [Create_refund intent (p_amountSatang p) (next_id ?s)]\<rparr>)" .
  with assms(7) have res: "res = Inr ()" and w': "w' = w\<lparr>w_db := ?s1\<lparr>next_id := Suc (next_id ?s),
        refunds := refunds ?s @ [compensation_row clk ans p (next_id ?s)]\<rparr>,
      w_calls := w_calls w @ [Create_refund intent (p_amountSatang p) (next_id ?s)]\<rparr>" by simp_all
  have none: "count_where (open_payment intent) (payments (w_db w')) = 0"
    by (simp add: w' set_payment_def succeeded_claim.none_left)
  then have "set_payment intent P_succeeded (w_db w') = w_db w'"
    by (simp add: set_payment_def succeeded_claim.lost_claim_changes_nothing)
  with none have "\<exists>out. succeeded_tx (db_now clk2) intent (w_db w') = Inr (Ignored, w_db w')"
    by (cases "find_payment intent (w_db w')")
      (simp_all add: succeeded_tx_def bindT_def readT_def writeT_def returnT_def)
  then have "handleSucceeded clk2 ans2 intent w' = (Inr (), w')"
    by (auto simp: handleSucceeded_def handler_defs)
  with res w' show ?thesis by blast
qed

definition expired_world :: world where
  "expired_world = demo_world (awaiting_db\<lparr>orders := [demo_order\<lparr>o_status := Expired\<rparr>]\<rparr>)"

theorem late_payment_compensated_witness:
  "fst (handleSucceeded demo_clock (Http_response 200 (Some ''re_1'')) ''pi_1'' expired_world) = Inr () \<and>
    snd (handleSucceeded demo_clock (Http_response 200 (Some ''re_1'')) ''pi_1'' expired_world) =
     expired_world\<lparr>w_db := (set_payment ''pi_1'' P_succeeded (w_db expired_world))\<lparr>next_id := Suc (next_id (w_db expired_world)),
             refunds := refunds (w_db expired_world) @ [compensation_row demo_clock (Http_response 200 (Some ''re_1''))
                demo_payment (next_id (w_db expired_world))]\<rparr>,
           w_calls := w_calls expired_world @ [Create_refund ''pi_1'' (p_amountSatang demo_payment) (next_id (w_db expired_world))]\<rparr> \<and>
    handleSucceeded demo_clock Network_failure ''pi_1''
      (snd (handleSucceeded demo_clock (Http_response 200 (Some ''re_1'')) ''pi_1'' expired_world)) =
     (Inr (), snd (handleSucceeded demo_clock (Http_response 200 (Some ''re_1'')) ''pi_1'' expired_world))"
  by (rule late_payment_compensated [where r = "demo_order\<lparr>o_status := Expired\<rparr>"])
    (simp_all add: expired_world_def find_payment_def find_order_def no_compensation_def demo_defs
      UNFULFILLABLE_ORDER_STATUSES_def)

section \<open>What a payment delivers\<close>

lemma issued_rows:
  assumes "for_eachT (issue_ticket now i ev email name) sps s = Inr (u, s')"
  shows "\<exists>ks. tickets s' = tickets s @ ks \<and> map (\<lambda>k. (t_ticketTypeId k, t_seatId k)) ks = sps \<and>
    list_all (\<lambda>k. t_orderId k = i \<and> t_eventId k = ev \<and> t_attendeeEmail k = email \<and> t_attendeeName k = name \<and>
      t_status k = Issued) ks \<and>
    s' = s\<lparr>tickets := tickets s', next_id := next_id s'\<rparr>"
  using assms
proof (induction sps arbitrary: s)
  case Nil
  then show ?case by simp
next
  case (Cons sp sps)
  from Cons.prems obtain v s1 where 1: "issue_ticket now i ev email name sp s = Inr (v, s1)"
    and 2: "for_eachT (issue_ticket now i ev email name) sps s1 = Inr (u, s')"
    by (auto simp only: for_eachT_Cons_Inr)
  from 1 obtain k where k: "tickets s1 = tickets s @ [k]" "(t_ticketTypeId k, t_seatId k) = sp"
      "t_orderId k = i \<and> t_eventId k = ev \<and> t_attendeeEmail k = email \<and> t_attendeeName k = name \<and> t_status k = Issued"
    and s1: "s1 = s\<lparr>tickets := tickets s1, next_id := next_id s1\<rparr>"
    by (auto simp: issue_ticket_def bindT_Inr fresh_id_Inr insert_ticket_Inr)
  from Cons.IH [OF 2] obtain ks where ks: "tickets s' = tickets s1 @ ks" "map (\<lambda>k. (t_ticketTypeId k, t_seatId k)) ks = sps"
      "list_all (\<lambda>k. t_orderId k = i \<and> t_eventId k = ev \<and> t_attendeeEmail k = email \<and> t_attendeeName k = name \<and>
        t_status k = Issued) ks" and s': "s' = s1\<lparr>tickets := tickets s', next_id := next_id s'\<rparr>" by blast
  have "s' = s\<lparr>tickets := tickets s', next_id := next_id s'\<rparr>" by (subst s', subst s1) simp
  with k ks show ?case by (intro exI [of _ "k # ks"]) auto
qed

definition specs_delivered :: "order \<Rightarrow> db \<Rightarrow> ticket_spec list" where
  "specs_delivered r s = ga_specs (filter (is_ga_item s) (o_items r)) @ seat_specs (fulfil_seats (o_id r) s)"

lemma fulfil_delivers:
  assumes "fulfil_tx now r s = Inr (u, s')"
  shows "\<exists>ks es. tickets s' = tickets s @ ks \<and>
    map (\<lambda>k. (t_ticketTypeId k, t_seatId k)) ks = specs_delivered r s \<and>
    list_all (\<lambda>k. t_orderId k = o_id r \<and> t_eventId k = o_eventId r \<and> t_attendeeEmail k = o_buyerEmail r \<and>
      t_attendeeName k = o_buyerName r \<and> t_status k = Issued) ks \<and>
    holds s' = filter (\<lambda>h. h_orderId h \<noteq> Some (o_id r)) (holds s) \<and> orders s' = orders s \<and> seats s' = seats s \<and>
    outboxEvents s' = outboxEvents s @ es \<and> map ob_payload es = Ticket_issued (o_id r) # Order_updated (o_id r) Paid #
      (if held_seat_ids (o_id r) s = [] then [] else [Seats_sold (o_eventId r) (held_seat_ids (o_id r) s)])"
proof -
  let ?s1 = "s\<lparr>holds := delete_where (\<lambda>h. h_orderId h = Some (o_id r)) (holds s)\<rparr>"
  let ?sps = "ga_specs (filter (is_ga_item ?s1) (o_items r)) @ seat_specs (fulfil_seats (o_id r) s)"
  have sps: "?sps = specs_delivered r s" by (simp add: specs_delivered_def)
  from assms obtain u2 s2 u3 s3 where
    loop: "for_eachT (\<lambda>(tid, n). add_remaining tid (- n)) (tally (map s_ticketTypeId (fulfil_seats (o_id r) s))) ?s1
      = Inr (u2, s2)"
    and issue: "for_eachT (issue_ticket now (o_id r) (o_eventId r) (o_buyerEmail r) (o_buyerName r)) ?sps s2 = Inr (u3, s3)"
    and rest: "bindT (writeInTx now (Ticket_issued (o_id r))) (\<lambda>_.
        bindT (writeInTx now (Order_updated (o_id r) Paid)) (\<lambda>_.
        whenT (held_seat_ids (o_id r) s \<noteq> [])
          (writeInTx now (Seats_sold (o_eventId r) (held_seat_ids (o_id r) s))))) s3 = Inr (u, s')"
    unfolding fulfil_stages by (auto simp: bindT_Inr split: sum.splits)
  have frame: "s2 = ?s1\<lparr>ticketTypes := ticketTypes s2\<rparr>"
  proof -
    have "keepsT (\<lambda>t. \<exists>ts. t = ?s1\<lparr>ticketTypes := ts\<rparr>) (add_remaining tid n)" for tid n
      by (auto simp: keepsT_def add_remaining_Inr)
    then have k: "keepsT (\<lambda>t. \<exists>ts. t = ?s1\<lparr>ticketTypes := ts\<rparr>)
        (for_eachT (\<lambda>(tid, n). add_remaining tid (- n)) (tally (map s_ticketTypeId (fulfil_seats (o_id r) s))))"
      by (intro keepsT_for_each) (simp split: prod.split)
    have "\<exists>ts. s2 = ?s1\<lparr>ticketTypes := ts\<rparr>"
      by (rule keepsTD [OF k _ loop]) (rule exI [of _ "ticketTypes ?s1"], simp)
    then show ?thesis by auto
  qed
  from issued_rows [OF issue] obtain ks where ks: "tickets s3 = tickets s2 @ ks"
      "map (\<lambda>k. (t_ticketTypeId k, t_seatId k)) ks = ?sps"
      "list_all (\<lambda>k. t_orderId k = o_id r \<and> t_eventId k = o_eventId r \<and> t_attendeeEmail k = o_buyerEmail r \<and>
        t_attendeeName k = o_buyerName r \<and> t_status k = Issued) ks"
    and s3: "s3 = s2\<lparr>tickets := tickets s3, next_id := next_id s3\<rparr>" by blast
  from rest have s': "\<exists>es n. s' = s3\<lparr>next_id := n, outboxEvents := outboxEvents s3 @ es\<rparr> \<and>
      map ob_payload es = Ticket_issued (o_id r) # Order_updated (o_id r) Paid #
      (if held_seat_ids (o_id r) s = [] then [] else [Seats_sold (o_eventId r) (held_seat_ids (o_id r) s)])"
    by (cases "held_seat_ids (o_id r) s = []") (auto simp: bindT_Inr writeInTx_Inr whenT_Inr)
  then obtain es n where es: "s' = s3\<lparr>next_id := n, outboxEvents := outboxEvents s3 @ es\<rparr>"
    "map ob_payload es = Ticket_issued (o_id r) # Order_updated (o_id r) Paid #
      (if held_seat_ids (o_id r) s = [] then [] else [Seats_sold (o_eventId r) (held_seat_ids (o_id r) s)])" by (elim exE conjE) (rule that)
  have "tickets s2 = tickets s" "holds s2 = delete_where (\<lambda>h. h_orderId h = Some (o_id r)) (holds s)"
      "orders s2 = orders s" "seats s2 = seats s" "outboxEvents s2 = outboxEvents s"
    by (subst frame, simp)+
  moreover have "holds s3 = holds s2" "orders s3 = orders s2" "seats s3 = seats s2" "outboxEvents s3 = outboxEvents s2"
    by (subst s3, simp)+
  ultimately show ?thesis using ks es sps by (intro exI [of _ ks] exI [of _ es]) (simp add: delete_where_def)
qed

text \<open>
  C10: A payment delivers what was ordered. When a reported success pays an order, then the order is
  paid, its payment succeeded, and exactly these tickets are added: for every floor item as many as
  its quantity, and one for each seat held for the order, all issued, for the order's event and in
  the buyer's name; the order's holds are gone and no others; the outbox gets the confirmation mail,
  the status change and, for seats, the announcement of exactly the seats that were held.
\<close>

theorem payment_delivers:
  assumes "succeeded_tx now intent s = Inr (Paid_outcome, s')" and "distinct (map o_id (orders s))"
    and "distinct (map p_providerIntentId (payments s))"
  shows "\<exists>p r ks es. find_payment intent s = Some p \<and> p_status p = P_requires_action \<and>
    r \<in> set (orders s) \<and> o_id r = p_orderId p \<and> o_status r = Awaiting_payment \<and>
    orders s' = update_where (\<lambda>q. o_id q = p_orderId p) (\<lambda>q. q\<lparr>o_status := Paid\<rparr>) (orders s) \<and>
    tickets s' = tickets s @ ks \<and>
    map (\<lambda>k. (t_ticketTypeId k, t_seatId k)) ks = specs_delivered r s \<and>
    list_all (\<lambda>k. t_orderId k = o_id r \<and> t_eventId k = o_eventId r \<and> t_attendeeEmail k = o_buyerEmail r \<and>
      t_attendeeName k = o_buyerName r \<and> t_status k = Issued) ks \<and>
    holds s' = filter (\<lambda>h. h_orderId h \<noteq> Some (o_id r)) (holds s) \<and>
    outboxEvents s' = outboxEvents s @ es \<and> map ob_payload es = Ticket_issued (o_id r) # Order_updated (o_id r) Paid #
      (if held_seat_ids (o_id r) s = [] then [] else [Seats_sold (o_eventId r) (held_seat_ids (o_id r) s)])"
proof -
  from assms(1) obtain p q u where p: "find_payment intent s = Some p"
    and some: "count_where (open_payment intent) (payments s) \<noteq> 0"
    and claim: "count_where (claim_release (p_orderId p)) (orders s) \<noteq> 0"
    and q: "find_order (p_orderId p) (claim_paid (p_orderId p) (set_payment intent P_succeeded s)) = Some q"
    and run: "fulfil_tx now q (claim_paid (p_orderId p) (set_payment intent P_succeeded s)) = Inr (u, s')"
    by (auto simp: succeeded_tx_def tx_simps set_payment_def split: option.splits if_splits)
  let ?s2 = "claim_paid (p_orderId p) (set_payment intent P_succeeded s)"
  have unpaid: "p_status p = P_requires_action"
    using some find_SomeD [OF p [unfolded find_payment_def]] assms(3)
    by (auto simp: count_where_0 open_payment_def dest: distinct_map_key_eq)
  from claim obtain r where r: "r \<in> set (orders s)" "o_id r = p_orderId p" "o_status r = Awaiting_payment"
    by (auto simp: count_where_0 claim_release_def)
  have rows: "update_where (claim_release (p_orderId p)) f (orders s) = update_where (\<lambda>q. o_id q = p_orderId p) f (orders s)" for f
    unfolding update_where_def using r assms(2) by (intro map_cong) (auto simp: claim_release_def dest: distinct_map_key_eq)
  have q_eq: "q = r\<lparr>o_status := Paid\<rparr>"
  proof -
    have "find_order (p_orderId p) s = Some r" using find_key [OF assms(2) r(1)] r(2) by (simp add: find_order_def)
    then have "find_order (p_orderId p) ?s2 = Some (r\<lparr>o_status := Paid\<rparr>)"
      using r(3) by (simp add: find_order_def claim_paid_def set_payment_def find_update_where claim_release_def r(2))
    with q show ?thesis by simp
  qed
  have specs: "specs_delivered q ?s2 = specs_delivered r s"
  proof -
    have "is_ga_item ?s2 = is_ga_item s" by (simp add: fun_eq_iff is_ga_item_def find_ticket_type_def claim_paid_def set_payment_def)
    then show ?thesis
      by (simp add: q_eq specs_delivered_def fulfil_seats_def held_seat_ids_def claim_paid_def set_payment_def)
  qed
  have frames: "held_seat_ids i ?s2 = held_seat_ids i s" "tickets ?s2 = tickets s" "holds ?s2 = holds s"
      "outboxEvents ?s2 = outboxEvents s" "orders ?s2 = update_where (claim_release (p_orderId p)) (\<lambda>q. q\<lparr>o_status := Paid\<rparr>) (orders s)" for i
    by (simp_all add: held_seat_ids_def claim_paid_def set_payment_def)
  have cols: "o_id q = o_id r" "o_eventId q = o_eventId r" "o_buyerEmail q = o_buyerEmail r" "o_buyerName q = o_buyerName r"
    by (simp_all add: q_eq)
  from fulfil_delivers [OF run, unfolded specs frames rows cols] show ?thesis
    using p r unpaid by (elim exE conjE) (rule exI [of _ p], rule exI [of _ r], intro exI conjI, assumption+)
qed

lemma run_billed_ok: "distinct (map o_id (orders run_billed))" "distinct (map p_providerIntentId (payments run_billed))"
  by code_simp+

theorem payment_delivers_witness:
  "\<exists>p r ks es. find_payment ''pi_1'' run_billed = Some p \<and> p_status p = P_requires_action \<and>
    r \<in> set (orders run_billed) \<and> o_id r = p_orderId p \<and> o_status r = Awaiting_payment \<and>
    orders run_paid = update_where (\<lambda>q. o_id q = p_orderId p) (\<lambda>q. q\<lparr>o_status := Paid\<rparr>) (orders run_billed) \<and>
    tickets run_paid = tickets run_billed @ ks \<and>
    map (\<lambda>k. (t_ticketTypeId k, t_seatId k)) ks = specs_delivered r run_billed \<and>
    list_all (\<lambda>k. t_orderId k = o_id r \<and> t_eventId k = o_eventId r \<and> t_attendeeEmail k = o_buyerEmail r \<and>
      t_attendeeName k = o_buyerName r \<and> t_status k = Issued) ks \<and>
    holds run_paid = filter (\<lambda>h. h_orderId h \<noteq> Some (o_id r)) (holds run_billed) \<and>
    outboxEvents run_paid = outboxEvents run_billed @ es \<and>
    map ob_payload es = Ticket_issued (o_id r) # Order_updated (o_id r) Paid #
      (if held_seat_ids (o_id r) run_billed = [] then []
       else [Seats_sold (o_eventId r) (held_seat_ids (o_id r) run_billed)])"
  by (rule payment_delivers [OF run_steps(4) run_billed_ok])

end
