(* ===== verification/Mail.thy ===== *)
theory Mail
  imports Checkin
begin

text \<open>
  \<^verbatim>\<open>notifications/mail.service.ts\<close>: the bodies of the two e-mails. Handing a message to the SMTP
  server is outside the program (Outbox has its outcome as a parameter). Text is the UTF-8 bytes of
  the source's strings; the middle dot and the baht sign are written out as such.
\<close>

record confirmation_email =
  ce_to :: string
  ce_buyerName :: string
  ce_eventTitle :: string
  ce_eventVenue :: string
  ce_eventStartsAt :: millis
  ce_orderId :: string
  ce_guestToken :: string
  ce_ticketNames :: "string list"

record refund_email =
  re_to :: string
  re_buyerName :: string
  re_eventTitle :: string
  re_amountSatang :: satang
  re_orderId :: string
  re_guestToken :: string

definition squote :: char where "squote = CHR 0x27"

definition replace_char :: "char \<Rightarrow> string \<Rightarrow> string \<Rightarrow> string" where
  "replace_char c r s = concat (map (\<lambda>x. if x = c then r else [x]) s)"

definition escapeHtml :: "string \<Rightarrow> string" where
  "escapeHtml s = replace_char squote ''&#39;'' (replace_char dquote ''&quot;''
     (replace_char (CHR ''>'') ''&gt;'' (replace_char (CHR ''<'') ''&lt;'' (replace_char (CHR ''&'') ''&amp;'' s))))"

text \<open>\<^verbatim>\<open>Date.toUTCString\<close> and \<^verbatim>\<open>toLocaleString('en-US')\<close> with two decimals.\<close>

definition weekday :: "int \<Rightarrow> string" where
  "weekday days = [''Thu'', ''Fri'', ''Sat'', ''Sun'', ''Mon'', ''Tue'', ''Wed''] ! nat (days mod 7)"

definition month_name :: "int \<Rightarrow> string" where
  "month_name m = [''Jan'', ''Feb'', ''Mar'', ''Apr'', ''May'', ''Jun'', ''Jul'', ''Aug'', ''Sep'', ''Oct'',
     ''Nov'', ''Dec''] ! nat (m - 1)"

definition to_utc :: "millis \<Rightarrow> string" where
  "to_utc t = (let days = t div 86400000; (y, m, d) = civil days; r = t mod 86400000
     in weekday days @ '', '' @ pad 2 (nat d) @ '' '' @ month_name m @ '' '' @ pad 4 (nat y) @ '' '' @
        pad 2 (nat (r div 3600000)) @ '':'' @ pad 2 (nat (r div 60000 mod 60)) @ '':'' @
        pad 2 (nat (r div 1000 mod 60)) @ '' GMT'')"

fun group_digits :: "string \<Rightarrow> string" where
  "group_digits (a # b # c # d # ds) = a # b # c # CHR '','' # group_digits (d # ds)"
| "group_digits ds = ds"

definition thousands :: "nat \<Rightarrow> string" where
  "thousands n = rev (group_digits (rev (decimal n)))"

definition baht_sign :: string where
  "baht_sign = [CHR 0xE0, CHR 0xB8, CHR 0xBF]"

definition refund_amount :: "satang \<Rightarrow> string" where
  "refund_amount x = baht_sign @ (if x < 0 then ''-'' else []) @
     thousands (nat \<bar>x\<bar> div 100) @ ''.'' @ pad 2 (nat \<bar>x\<bar> mod 100)"

definition order_url :: "string \<Rightarrow> string \<Rightarrow> string \<Rightarrow> string" where
  "order_url origin orderId token = origin @ ''/orders/'' @ orderId @ ''?token='' @ token"

definition middle_dot :: string where
  "middle_dot = [CHR 0xC2, CHR 0xB7]"

definition ticket_list :: "string list \<Rightarrow> string" where
  "ticket_list names = concat (map (\<lambda>n. ''<li>'' @ escapeHtml n @ ''</li>'') names)"

definition quoted :: "string \<Rightarrow> string" where
  "quoted s = dquote # s @ [dquote]"

definition confirmation_html :: "string \<Rightarrow> confirmation_email \<Rightarrow> string" where
  "confirmation_html origin m = join_with [lf]
     [''<p>Hi '' @ escapeHtml (ce_buyerName m) @ '',</p>'',
      ''<p>You'' @ squote # ''re going to <strong>'' @ escapeHtml (ce_eventTitle m) @ ''</strong>!</p>'',
      ''<p>'' @ escapeHtml (ce_eventVenue m) @ '' '' @ middle_dot @ '' '' @ to_utc (ce_eventStartsAt m) @ ''</p>'',
      ''<ul>'' @ ticket_list (ce_ticketNames m) @ ''</ul>'',
      ''<p><a href='' @ quoted (order_url origin (ce_orderId m) (ce_guestToken m)) @ ''>View your tickets and QR codes</a></p>'',
      ''<p>Show the QR code at the door to check in.</p>'']"

definition refund_html :: "string \<Rightarrow> refund_email \<Rightarrow> string" where
  "refund_html origin m = join_with [lf]
     [''<p>Hi '' @ escapeHtml (re_buyerName m) @ '',</p>'',
      ''<p>We'' @ squote # ''ve refunded <strong>'' @ refund_amount (re_amountSatang m) @ ''</strong> for <strong>'' @
        escapeHtml (re_eventTitle m) @ ''</strong>.</p>'',
      ''<p>The refunded tickets are no longer valid for entry.</p>'',
      ''<p><a href='' @ quoted (order_url origin (re_orderId m) (re_guestToken m)) @ ''>View your order</a></p>'']"

text \<open>The message handed to the transport: recipient, subject and body.\<close>

definition sendOrderConfirmation :: "string \<Rightarrow> confirmation_email \<Rightarrow> string \<times> string \<times> string" where
  "sendOrderConfirmation origin m =
     (ce_to m, ''Your tickets for '' @ ce_eventTitle m, confirmation_html origin m)"

definition sendRefundNotice_mail :: "string \<Rightarrow> refund_email \<Rightarrow> string \<times> string \<times> string" where
  "sendRefundNotice_mail origin m = (re_to m, ''Your refund for '' @ re_eventTitle m, refund_html origin m)"

section \<open>Escaping\<close>

definition markup :: "char \<Rightarrow> bool" where
  "markup c \<longleftrightarrow> c \<in> {CHR ''<'', CHR ''>'', dquote, squote}"

text \<open>The five replacements in a row are one pass.\<close>

definition escape_char :: "char \<Rightarrow> string" where
  "escape_char c = (if c = CHR ''&'' then ''&amp;'' else if c = CHR ''<'' then ''&lt;''
     else if c = CHR ''>'' then ''&gt;'' else if c = dquote then ''&quot;''
     else if c = squote then ''&#39;'' else [c])"

lemma replace_char_append [simp]: "replace_char c r (s @ t) = replace_char c r s @ replace_char c r t"
  by (simp add: replace_char_def)

lemma replace_char_Nil [simp]: "replace_char c r [] = []"
  by (simp add: replace_char_def)

lemma replace_char_Cons: "replace_char c r (x # s) = (if x = c then r else [x]) @ replace_char c r s"
  by (simp add: replace_char_def)

lemma escapeHtml_one_pass: "escapeHtml s = concat (map escape_char s)"
proof (induction s)
  case Nil
  then show ?case by (simp add: escapeHtml_def)
next
  case (Cons x s)
  have "escapeHtml ([x] @ s) = escapeHtml [x] @ escapeHtml s"
    by (simp only: escapeHtml_def replace_char_append)
  moreover have "escapeHtml [x] = escape_char x"
    by (auto simp: escapeHtml_def replace_char_Cons escape_char_def squote_def dquote_def)
  ultimately show ?case using Cons by simp
qed

lemma escaped_plain: "c \<in> set (escapeHtml s) \<Longrightarrow> \<not> markup c"
  unfolding escapeHtml_one_pass
  by (auto simp: escape_char_def markup_def squote_def dquote_def split: if_splits)

text \<open>A browser's reading of the entities: what follows an ampersand up to the semicolon.\<close>

definition entity :: "string \<Rightarrow> string" where
  "entity e = (if e = ''amp'' then ''&'' else if e = ''lt'' then ''<'' else if e = ''gt'' then ''>''
     else if e = ''quot'' then [dquote] else if e = ''#39'' then [squote] else CHR ''&'' # e @ '';'')"

fun unescape :: "string option \<Rightarrow> string \<Rightarrow> string" where
  "unescape None [] = []"
| "unescape (Some e) [] = CHR ''&'' # e"
| "unescape None (c # s) = (if c = CHR ''&'' then unescape (Some []) s else c # unescape None s)"
| "unescape (Some e) (c # s) = (if c = CHR '';'' then entity e @ unescape None s else unescape (Some (e @ [c])) s)"

lemma unescape_char: "unescape None (escape_char c @ rest) = c # unescape None rest"
  by (simp add: escape_char_def entity_def)

lemma unescape_escape: "unescape None (escapeHtml s) = s"
  unfolding escapeHtml_one_pass by (induction s) (simp_all add: unescape_char)

lemma escaped_markup: "filter markup (escapeHtml s) = []"
  using escaped_plain by (auto simp: filter_empty_conv)

lemma ticket_list_markup:
  "filter markup (ticket_list names) = filter markup (ticket_list (map (\<lambda>_. []) names))"
proof (induction names)
  case (Cons n names)
  then show ?case
    by (simp add: ticket_list_def escaped_markup)
qed simp

lemma filter_join: "filter p (join_with sep ws) = concat (map (filter p) ws)" if "filter p sep = []"
  using that by (induction sep ws rule: join_with.induct) auto

section \<open>Properties\<close>

text \<open>
  C34: E-mails carry no foreign markup. Whatever buyers and organizers type, the tags, quotes and
  apostrophes of a confirmation or refund mail are, in number and order, those of the same mail with
  all their text empty, so a name, title, venue or ticket name can open no tag and close no
  attribute; and a reader that decodes entities sees every text exactly as it was typed.
\<close>

theorem mails_without_injection:
  "filter markup (confirmation_html origin m) = filter markup (confirmation_html origin
      (m\<lparr>ce_buyerName := [], ce_eventTitle := [], ce_eventVenue := [],
         ce_ticketNames := map (\<lambda>_. []) (ce_ticketNames m)\<rparr>)) \<and>
    filter markup (refund_html origin n) =
      filter markup (refund_html origin (n\<lparr>re_buyerName := [], re_eventTitle := []\<rparr>)) \<and>
    unescape None (escapeHtml typed_text) = typed_text"
proof (intro conjI)
  have sep: "filter markup [lf] = []" by (simp add: markup_def lf_def dquote_def squote_def)
  have blank: "escapeHtml [] = []" by (simp add: escapeHtml_def)
  show "filter markup (confirmation_html origin m) = filter markup (confirmation_html origin
      (m\<lparr>ce_buyerName := [], ce_eventTitle := [], ce_eventVenue := [],
         ce_ticketNames := map (\<lambda>_. []) (ce_ticketNames m)\<rparr>))"
    unfolding confirmation_html_def filter_join [OF sep]
    using ticket_list_markup [of "ce_ticketNames m"] by (simp add: escaped_markup blank)
  show "filter markup (refund_html origin n) =
      filter markup (refund_html origin (n\<lparr>re_buyerName := [], re_eventTitle := []\<rparr>))"
    unfolding refund_html_def filter_join [OF sep] by (simp add: escaped_markup blank)
  show "unescape None (escapeHtml typed_text) = typed_text" by (rule unescape_escape)
qed

end
