(* ===== verification/Draft.thy ===== *)
theory Draft
  imports Api Complex_Main
begin

text \<open>
  The seat-map editor of the web client: \<^verbatim>\<open>apps/web/src/lib/use-seat-map-draft.ts\<close> with the
  event handlers of \<^verbatim>\<open>section-inspector.tsx\<close>. Each handler runs on the state of the last render, so
  it is one function from state to state; \<open>drag_effect\<close> is the effect that records a finished drag.
  JavaScript numbers are rational here, since the number fields accept fractions.
\<close>

record draft_section =
  ds_id :: string
  ds_name :: string
  ds_tierName :: string
  ds_priceSatang :: int
  ds_rows :: rat
  ds_cols :: rat
  ds_x :: rat
  ds_y :: rat

definition CELL :: rat where "CELL = 18"
definition MAX_SECTION_ROWS :: rat where "MAX_SECTION_ROWS = 26"
definition MAX_SECTION_COLS :: rat where "MAX_SECTION_COLS = 30"

fun ARROW_DELTAS :: "string \<Rightarrow> (rat \<times> rat) option" where
  "ARROW_DELTAS key =
     (if key = ''ArrowLeft'' then Some (- 1, 0) else if key = ''ArrowRight'' then Some (1, 0)
      else if key = ''ArrowUp'' then Some (0, - 1) else if key = ''ArrowDown'' then Some (0, 1) else None)"

text \<open>\<^verbatim>\<open>nextSection\<close>, given the value of the module's counter before the call.\<close>

definition maxY :: "draft_section list \<Rightarrow> rat" where
  "maxY existing = fold (\<lambda>s m. max m (ds_y s + ds_rows s + 1)) existing 0"

definition section_id :: "nat \<Rightarrow> nat \<Rightarrow> string" where
  "section_id c i = ''s'' @ decimal c @ ''-'' @ decimal i"

definition nextSection :: "nat \<Rightarrow> draft_section list \<Rightarrow> draft_section" where
  "nextSection counter existing =
     (let index = length existing + 1 in
      \<lparr>ds_id = section_id (counter + 1) index, ds_name = ''Section '' @ decimal index,
       ds_tierName = ''Tier '' @ decimal index, ds_priceSatang = 0, ds_rows = 4, ds_cols = 8,
       ds_x = 0, ds_y = maxY existing\<rparr>)"

section \<open>The state of the hook\<close>

record drag =
  dg_id :: string
  dg_dx :: rat
  dg_dy :: rat

record draft =
  dr_counter :: nat
  dr_sections :: "draft_section list"
  dr_stack :: "draft_section list list"
  dr_index :: nat
  dr_selectedId :: "string option"
  dr_dragging :: bool
  dr_drag :: "drag option"
  dr_wasDragging :: bool

definition start_draft :: "nat \<Rightarrow> draft" where
  "start_draft counter =
     (let initial = [nextSection counter []] in
      \<lparr>dr_counter = counter + 1, dr_sections = initial, dr_stack = [initial], dr_index = 0,
       dr_selectedId = Some (ds_id (hd initial)), dr_dragging = False, dr_drag = None,
       dr_wasDragging = False\<rparr>)"

definition canUndo :: "draft \<Rightarrow> bool" where
  "canUndo d \<longleftrightarrow> dr_index d > 0"

definition canRedo :: "draft \<Rightarrow> bool" where
  "canRedo d \<longleftrightarrow> Suc (dr_index d) < length (dr_stack d)"

section \<open>Handlers\<close>

definition push_history :: "draft_section list \<Rightarrow> draft \<Rightarrow> draft" where
  "push_history next d =
     (let stack = take (dr_index d + 1) (dr_stack d) @ [next]
      in d\<lparr>dr_stack := stack, dr_index := length stack - 1\<rparr>)"

definition commit_draft :: "draft_section list \<Rightarrow> draft \<Rightarrow> draft" where
  "commit_draft next d = push_history next (d\<lparr>dr_sections := next\<rparr>)"

definition undo :: "draft \<Rightarrow> draft" where
  "undo d = (if \<not> canUndo d then d
     else let index = dr_index d - 1 in d\<lparr>dr_sections := dr_stack d ! index, dr_index := index\<rparr>)"

definition redo :: "draft \<Rightarrow> draft" where
  "redo d = (if \<not> canRedo d then d
     else let index = dr_index d + 1 in d\<lparr>dr_sections := dr_stack d ! index, dr_index := index\<rparr>)"

definition addSection :: "draft \<Rightarrow> draft" where
  "addSection d =
     (let created = nextSection (dr_counter d) (dr_sections d)
      in (commit_draft (dr_sections d @ [created]) (d\<lparr>dr_counter := dr_counter d + 1\<rparr>))
           \<lparr>dr_selectedId := Some (ds_id created)\<rparr>)"

definition deleteSection :: "string \<Rightarrow> draft \<Rightarrow> draft" where
  "deleteSection i d =
     (let next = filter (\<lambda>s. ds_id s \<noteq> i) (dr_sections d)
      in (if next \<noteq> [] then commit_draft next d
          else commit_draft [nextSection (dr_counter d) []] (d\<lparr>dr_counter := dr_counter d + 1\<rparr>))
            \<lparr>dr_selectedId := None\<rparr>)"

text \<open>\<^verbatim>\<open>Partial<Section>\<close> is the update it spreads over the section.\<close>

definition patchSelected :: "(draft_section \<Rightarrow> draft_section) \<Rightarrow> bool \<Rightarrow> draft \<Rightarrow> draft" where
  "patchSelected patch save d =
     (case dr_selectedId d of
        None \<Rightarrow> d
      | Some i \<Rightarrow>
          if i = [] then d
          else let next = update_where (\<lambda>s. ds_id s = i) patch (dr_sections d)
               in if save then commit_draft next d else d\<lparr>dr_sections := next\<rparr>)"

definition gridAt :: "(rat \<times> rat) option \<Rightarrow> rat \<Rightarrow> rat \<Rightarrow> rat \<times> rat" where
  "gridAt rect clientX clientY =
     (case rect of
        None \<Rightarrow> (0, 0)
      | Some (x0, y0) \<Rightarrow>
          (of_int \<lfloor>(clientX - x0) / CELL\<rfloor>, of_int \<lfloor>(clientY - y0) / CELL\<rfloor>))"

definition onSectionPointerDown :: "(rat \<times> rat) option \<Rightarrow> rat \<Rightarrow> rat \<Rightarrow> string \<Rightarrow> draft \<Rightarrow> draft" where
  "onSectionPointerDown rect clientX clientY i d =
     (case List.find (\<lambda>s. ds_id s = i) (dr_sections d) of
        None \<Rightarrow> d
      | Some s \<Rightarrow>
          let (gx, gy) = gridAt rect clientX clientY
          in d\<lparr>dr_drag := Some \<lparr>dg_id = i, dg_dx = gx - ds_x s, dg_dy = gy - ds_y s\<rparr>,
               dr_selectedId := Some i, dr_dragging := True\<rparr>)"

definition onSectionKeyDown :: "string \<Rightarrow> string \<Rightarrow> draft \<Rightarrow> draft" where
  "onSectionKeyDown key i d =
     (if key = ''Enter'' \<or> key = '' '' then d\<lparr>dr_selectedId := Some i\<rparr>
      else (case ARROW_DELTAS key of
        None \<Rightarrow> d
      | Some (dx, dy) \<Rightarrow>
          commit_draft (update_where (\<lambda>s. ds_id s = i)
              (\<lambda>s. s\<lparr>ds_x := max 0 (ds_x s + dx), ds_y := max 0 (ds_y s + dy)\<rparr>) (dr_sections d))
            (d\<lparr>dr_selectedId := Some i\<rparr>)))"

text \<open>The window listeners, attached while a drag goes on.\<close>

definition drag_move :: "(rat \<times> rat) option \<Rightarrow> rat \<Rightarrow> rat \<Rightarrow> draft \<Rightarrow> draft" where
  "drag_move rect clientX clientY d =
     (case dr_drag d of
        None \<Rightarrow> d
      | Some g \<Rightarrow>
          let (gx, gy) = gridAt rect clientX clientY
          in d\<lparr>dr_sections := update_where (\<lambda>s. ds_id s = dg_id g)
                 (\<lambda>s. s\<lparr>ds_x := max 0 (gx - dg_dx g), ds_y := max 0 (gy - dg_dy g)\<rparr>) (dr_sections d)\<rparr>)"

definition drag_up :: "draft \<Rightarrow> draft" where
  "drag_up d = d\<lparr>dr_drag := None, dr_dragging := False\<rparr>"

definition drag_effect :: "draft \<Rightarrow> draft" where
  "drag_effect d =
     (if dr_dragging d then d\<lparr>dr_wasDragging := True\<rparr>
      else if \<not> dr_wasDragging d then d
      else push_history (dr_sections d) (d\<lparr>dr_wasDragging := False\<rparr>))"

text \<open>The inspector: what is typed into its fields, a field left, the remove button.\<close>

datatype typed = Name_typed string | Tier_typed string | Price_typed rat | Rows_typed rat | Cols_typed rat

fun inspector_change :: "typed \<Rightarrow> draft \<Rightarrow> draft" where
  "inspector_change (Name_typed v) d = patchSelected (\<lambda>s. s\<lparr>ds_name := v\<rparr>) False d"
| "inspector_change (Tier_typed v) d = patchSelected (\<lambda>s. s\<lparr>ds_tierName := v\<rparr>) False d"
| "inspector_change (Price_typed v) d = patchSelected (\<lambda>s. s\<lparr>ds_priceSatang := round (v * 100)\<rparr>) True d"
| "inspector_change (Rows_typed v) d =
     patchSelected (\<lambda>s. s\<lparr>ds_rows := min MAX_SECTION_ROWS (max 1 v)\<rparr>) True d"
| "inspector_change (Cols_typed v) d =
     patchSelected (\<lambda>s. s\<lparr>ds_cols := min MAX_SECTION_COLS (max 1 v)\<rparr>) True d"

text \<open>
  Everything that can happen to the editor. A render calls \<^verbatim>\<open>nextSection([])\<close> again and drops its
  result, which still advances the counter.
\<close>

datatype editor_event =
    Rendered
  | Add_clicked
  | Undo_clicked
  | Redo_clicked
  | Typed typed
  | Field_left
  | Remove_clicked string
  | Selected string
  | Pointer_down rat rat string
  | Pointer_moved rat rat
  | Pointer_up
  | Key_down string string

fun handle_event :: "(rat \<times> rat) option \<Rightarrow> editor_event \<Rightarrow> draft \<Rightarrow> draft" where
  "handle_event rect Rendered d = d\<lparr>dr_counter := dr_counter d + 1\<rparr>"
| "handle_event rect Add_clicked d = addSection d"
| "handle_event rect Undo_clicked d = undo d"
| "handle_event rect Redo_clicked d = redo d"
| "handle_event rect (Typed t) d = inspector_change t d"
| "handle_event rect Field_left d = commit_draft (dr_sections d) d"
| "handle_event rect (Remove_clicked i) d = deleteSection i d"
| "handle_event rect (Selected i) d = d\<lparr>dr_selectedId := Some i\<rparr>"
| "handle_event rect (Pointer_down x y i) d = onSectionPointerDown rect x y i d"
| "handle_event rect (Pointer_moved x y) d = (if dr_dragging d then drag_move rect x y d else d)"
| "handle_event rect Pointer_up d = (if dr_dragging d then drag_up d else d)"
| "handle_event rect (Key_down key i) d = onSectionKeyDown key i d"

definition editor_step :: "(rat \<times> rat) option \<times> editor_event \<Rightarrow> draft \<Rightarrow> draft" where
  "editor_step e d = drag_effect (handle_event (fst e) (snd e) d)"

definition edit :: "nat \<Rightarrow> ((rat \<times> rat) option \<times> editor_event) list \<Rightarrow> draft" where
  "edit counter es = fold editor_step es (start_draft counter)"

section \<open>Publishing\<close>

datatype publish_refusal = Needs_name_and_tier | Names_not_distinct | Tiers_not_distinct

record section_body =
  sb_name :: string
  sb_tierName :: string
  sb_priceSatang :: int
  sb_rows :: rat
  sb_cols :: rat
  sb_x :: rat
  sb_y :: rat

definition body_of :: "draft_section \<Rightarrow> section_body" where
  "body_of s = \<lparr>sb_name = trim (ds_name s), sb_tierName = trim (ds_tierName s),
     sb_priceSatang = ds_priceSatang s, sb_rows = ds_rows s, sb_cols = ds_cols s, sb_x = ds_x s, sb_y = ds_y s\<rparr>"

definition publish_map :: "draft \<Rightarrow> publish_refusal + section_body list" where
  "publish_map d =
     (let names = map (\<lambda>s. trim (ds_name s)) (dr_sections d);
          tiers = map (\<lambda>s. trim (ds_tierName s)) (dr_sections d)
      in if (\<exists>n \<in> set names. n = []) \<or> (\<exists>t \<in> set tiers. t = []) then Inl Needs_name_and_tier
         else if length (js_set names) \<noteq> length names then Inl Names_not_distinct
         else if length (js_set tiers) \<noteq> length tiers then Inl Tiers_not_distinct
         else Inr (map body_of (dr_sections d)))"

section \<open>An editing history\<close>

text \<open>
  The contract of undo and redo, over any state that carries a history: what was recorded before,
  the record the cursor is on, and what redo can bring again.
\<close>

type_synonym 'l zipper = "'l list \<times> 'l \<times> 'l list"

fun z_commit :: "'l \<Rightarrow> 'l zipper \<Rightarrow> 'l zipper" where
  "z_commit l (ps, c, fs) = (c # ps, l, [])"

fun z_undo :: "'l zipper \<Rightarrow> 'l zipper" where
  "z_undo ([], c, fs) = ([], c, fs)"
| "z_undo (p # ps, c, fs) = (ps, p, c # fs)"

fun z_redo :: "'l zipper \<Rightarrow> 'l zipper" where
  "z_redo (ps, c, []) = (ps, c, [])"
| "z_redo (ps, c, f # fs) = (c # ps, f, fs)"

locale edit_history =
  fixes ok :: "'s \<Rightarrow> bool" and hist :: "'s \<Rightarrow> 'l zipper" and shown :: "'s \<Rightarrow> 'l"
    and commit_l :: "'l \<Rightarrow> 's \<Rightarrow> 's" and undo_l :: "'s \<Rightarrow> 's" and redo_l :: "'s \<Rightarrow> 's"
  assumes commit_ok: "ok s \<Longrightarrow> ok (commit_l l s)" and undo_ok: "ok s \<Longrightarrow> ok (undo_l s)" and redo_ok: "ok s \<Longrightarrow> ok (redo_l s)"
    and commit_hist: "ok s \<Longrightarrow> hist (commit_l l s) = z_commit l (hist s)"
    and undo_hist: "ok s \<Longrightarrow> hist (undo_l s) = z_undo (hist s)"
    and redo_hist: "ok s \<Longrightarrow> hist (redo_l s) = z_redo (hist s)"
    and commit_shown: "ok s \<Longrightarrow> shown (commit_l l s) = l"
    and undo_shown: "ok s \<Longrightarrow> hist s = (p # ps, c, fs) \<Longrightarrow> shown (undo_l s) = p"
    and redo_shown: "ok s \<Longrightarrow> hist s = (ps, c, f # fs) \<Longrightarrow> shown (redo_l s) = f"
begin

lemma commits: "ok s \<Longrightarrow> hist s = (ps, c, fs) \<Longrightarrow> ls \<noteq> [] \<Longrightarrow>
    ok (fold commit_l ls s) \<and> hist (fold commit_l ls s) = (tl (rev ls) @ c # ps, last ls, []) \<and>
    shown (fold commit_l ls s) = last ls"
proof (induction ls arbitrary: s ps c fs)
  case Nil
  then show ?case by simp
next
  case (Cons l ls)
  have 1: "ok (commit_l l s)" "hist (commit_l l s) = (c # ps, l, [])" "shown (commit_l l s) = l"
    using Cons.prems by (simp_all add: commit_ok commit_hist commit_shown)
  show ?case
  proof (cases "ls = []")
    case True
    with 1 show ?thesis by simp
  next
    case False
    from Cons.IH [OF 1(1,2) False] False show ?thesis by (cases "rev ls") auto
  qed
qed

lemma undos: "ok s \<Longrightarrow> hist s = (ps @ qs, c, fs) \<Longrightarrow>
    ok ((undo_l ^^ length ps) s) \<and>
    hist ((undo_l ^^ length ps) s) = (qs, last (c # ps), rev (butlast (c # ps)) @ fs) \<and>
    (ps \<noteq> [] \<longrightarrow> shown ((undo_l ^^ length ps) s) = last ps)"
proof (induction ps arbitrary: s c fs)
  case Nil
  then show ?case by simp
next
  case (Cons p ps)
  have 1: "ok (undo_l s)" "hist (undo_l s) = (ps @ qs, p, c # fs)" "shown (undo_l s) = p"
    using Cons.prems by (simp_all add: undo_ok undo_hist undo_shown [where ps = "ps @ qs" and c = c and fs = fs])
  from Cons.IH [OF 1(1,2)] 1(3) show ?case by (simp add: funpow_swap1 del: funpow.simps(2)) (auto simp: funpow_swap1)
qed

lemma redos: "ok s \<Longrightarrow> hist s = (ps, c, gs @ fs) \<Longrightarrow>
    ok ((redo_l ^^ length gs) s) \<and> (gs \<noteq> [] \<longrightarrow> shown ((redo_l ^^ length gs) s) = last gs)"
proof (induction gs arbitrary: s ps c)
  case Nil
  then show ?case by simp
next
  case (Cons g gs)
  have 1: "ok (redo_l s)" "hist (redo_l s) = (c # ps, g, gs @ fs)" "shown (redo_l s) = g"
    using Cons.prems by (simp_all add: redo_ok redo_hist redo_shown [where ps = ps and c = c and fs = "gs @ fs"])
  from Cons.IH [OF 1(1,2)] 1(3) show ?case by (auto simp: funpow_swap1)
qed

lemma walk:
  assumes "ok s" and "hist s = (ps, c, fs)" and "0 < k" and "k \<le> length ls"
  shows "shown ((undo_l ^^ k) (fold commit_l ls s)) = (c # ls) ! (length ls - k)"
    and "shown ((redo_l ^^ k) ((undo_l ^^ k) (fold commit_l ls s))) = last ls"
proof -
  have ls: "ls \<noteq> []" using assms(3,4) by auto
  let ?returned = "rev (c # butlast ls)"
  define P where "P = take k ?returned"
  note done1 = commits [OF assms(1,2) ls]
  have "rev (butlast ls) = tl (rev ls)" by (metis butlast_rev rev_rev_ident)
  then have "tl (rev ls) @ c # ps = ?returned @ ps" by simp
  then have split: "tl (rev ls) @ c # ps = P @ (drop k ?returned @ ps)"
    unfolding P_def by (metis append.assoc append_take_drop_id)
  have len: "length P = k" using assms(4) ls by (simp add: P_def)
  have ne: "P \<noteq> []" using len assms(3) by (metis less_irrefl list.size(3))
  from done1 split have h: "hist (fold commit_l ls s) = (P @ (drop k ?returned @ ps), last ls, [])" and o: "ok (fold commit_l ls s)"
    by simp_all
  note undone = undos [OF o h, unfolded len]
  have "last P = P ! (k - 1)" by (simp only: last_conv_nth [OF ne] len)
  also have "\<dots> = ?returned ! (k - 1)" unfolding P_def using assms(3) by (intro nth_take) simp
  also have "\<dots> = (c # butlast ls) ! (length ls - k)"
    using assms(3,4) ls by (subst rev_nth) auto
  also have "\<dots> = (c # ls) ! (length ls - k)"
    using assms(3,4) by (cases "length ls - k") (auto simp: nth_butlast)
  finally show "shown ((undo_l ^^ k) (fold commit_l ls s)) = (c # ls) ! (length ls - k)" using undone ne by simp
  let ?gs = "rev (butlast (last ls # P))"
  have "length ?gs = k" using len ne assms(3) by simp
  moreover have "?gs \<noteq> []" "last ?gs = last ls" using ne by (simp_all add: last_rev)
  ultimately show "shown ((redo_l ^^ k) ((undo_l ^^ k) (fold commit_l ls s))) = last ls"
    using redos [of "(undo_l ^^ k) (fold commit_l ls s)" _ _ ?gs "[]"] undone by auto
qed

end

section \<open>What every layout satisfies\<close>

definition section_in_range :: "draft_section \<Rightarrow> bool" where
  "section_in_range s \<longleftrightarrow> 1 \<le> ds_rows s \<and> ds_rows s \<le> 26 \<and> 1 \<le> ds_cols s \<and> ds_cols s \<le> 30 \<and>
     0 \<le> ds_x s \<and> 0 \<le> ds_y s"

definition layout_ok :: "draft_section list \<Rightarrow> bool" where
  "layout_ok ls \<longleftrightarrow> ls \<noteq> [] \<and> distinct (map ds_id ls) \<and> list_all section_in_range ls"

text \<open>Ids are drawn from the counter, so a new one is in no layout.\<close>

definition drawn :: "nat \<Rightarrow> draft_section list \<Rightarrow> bool" where
  "drawn c ls \<longleftrightarrow> (\<forall>s \<in> set ls. \<exists>c' i. c' \<le> c \<and> ds_id s = section_id c' i)"

definition draft_ok :: "draft \<Rightarrow> bool" where
  "draft_ok d \<longleftrightarrow> dr_index d < length (dr_stack d) \<and>
     (\<forall>ls \<in> set (dr_sections d # dr_stack d). layout_ok ls \<and> drawn (dr_counter d) ls)"

lemma decimal_inj: "decimal m = decimal n \<Longrightarrow> m = n"
  by (metis digits_value_decimal of_nat_eq_iff option.inject)

lemma decimal_no_hyphen: "CHR ''-'' \<notin> set (decimal n)"
  using decimal_digits [of n] by (auto simp: list_all_iff decimal_digit_def)

lemma section_id_inj: "section_id c i = section_id c' i' \<Longrightarrow> c = c'"
proof -
  assume "section_id c i = section_id c' i'"
  then have "split_on (CHR ''-'') (decimal c @ CHR ''-'' # decimal i) = split_on (CHR ''-'') (decimal c' @ CHR ''-'' # decimal i')"
    by (simp add: section_id_def)
  then show ?thesis by (simp add: split_on_sep decimal_no_hyphen decimal_inj)
qed

lemma drawn_mono: "drawn c ls \<Longrightarrow> c \<le> c' \<Longrightarrow> drawn c' ls"
  unfolding drawn_def by (meson order_trans)

lemma fresh_section: "drawn c ls \<Longrightarrow> ds_id (nextSection c ks) \<notin> ds_id ` set ls"
  by (fastforce simp: drawn_def nextSection_def Let_def dest: section_id_inj)

lemma maxY_nonneg: "0 \<le> maxY ls"
proof -
  have "m \<le> fold (\<lambda>s m. max m (ds_y s + ds_rows s + 1)) ls m" for m
    by (induction ls arbitrary: m) (auto intro: order_trans [OF max.cobounded1])
  then show ?thesis by (simp add: maxY_def)
qed

lemma nextSection_ok: "section_in_range (nextSection c ls)" "drawn (Suc c) [nextSection c ls]"
  using maxY_nonneg [of ls] by (auto simp: section_in_range_def nextSection_def Let_def drawn_def)

lemma layout_append: "layout_ok ls \<Longrightarrow> drawn c ls \<Longrightarrow>
    layout_ok (ls @ [nextSection c ks]) \<and> drawn (Suc c) (ls @ [nextSection c ks])"
  using nextSection_ok [of c ks] fresh_section [of c ls ks] drawn_mono [of c ls "Suc c"]
  by (auto simp: layout_ok_def drawn_def)

lemma layout_single: "layout_ok [nextSection c []] \<and> drawn (Suc c) [nextSection c []]"
  using nextSection_ok [of c "[]"] by (simp add: layout_ok_def)

lemma layout_filter: "layout_ok ls \<Longrightarrow> filter p ls \<noteq> [] \<Longrightarrow> layout_ok (filter p ls)"
  by (auto simp: layout_ok_def list_all_iff distinct_map_filter)

lemma drawn_filter: "drawn c ls \<Longrightarrow> drawn c (filter p ls)"
  by (auto simp: drawn_def)

lemma layout_update:
  assumes "layout_ok ls" and "drawn c ls" and "\<And>s. ds_id (f s) = ds_id s" and "\<And>s. section_in_range s \<Longrightarrow> section_in_range (f s)"
  shows "layout_ok (update_where p f ls) \<and> drawn c (update_where p f ls)"
proof -
  have "update_where p f ls \<noteq> []" using assms(1) by (cases ls) (auto simp: layout_ok_def)
  moreover have "map ds_id (update_where p f ls) = map ds_id ls" by (simp add: assms(3))
  moreover have "list_all section_in_range (update_where p f ls)"
    using assms(1,4) by (auto simp: layout_ok_def list_all_iff row_simps)
  moreover have "drawn c (update_where p f ls)"
    using assms(2,3) by (auto simp: drawn_def row_simps)
  ultimately show ?thesis using assms(1) by (simp add: layout_ok_def)
qed

lemma layout_moved:
  assumes "layout_ok ls" and "drawn c ls"
  shows "layout_ok (update_where p (\<lambda>s. s\<lparr>ds_x := max 0 (f s), ds_y := max 0 (g s)\<rparr>) ls)"
    and "drawn c (update_where p (\<lambda>s. s\<lparr>ds_x := max 0 (f s), ds_y := max 0 (g s)\<rparr>) ls)"
  using layout_update [OF assms, of "\<lambda>s. s\<lparr>ds_x := max 0 (f s), ds_y := max 0 (g s)\<rparr>" p]
  by (auto simp: section_in_range_def)

lemma push_ok: "draft_ok d \<Longrightarrow> layout_ok ls \<and> drawn (dr_counter d) ls \<Longrightarrow> draft_ok (push_history ls d)"
  by (auto simp: draft_ok_def push_history_def Let_def dest: in_set_takeD)

lemma commit_draft_ok: "draft_ok d \<Longrightarrow> layout_ok ls \<and> drawn (dr_counter d) ls \<Longrightarrow> draft_ok (commit_draft ls d)"
  unfolding commit_draft_def by (rule push_ok) (auto simp: draft_ok_def)

lemma counter_ok: "draft_ok d \<Longrightarrow> draft_ok (d\<lparr>dr_counter := Suc (dr_counter d)\<rparr>)"
  unfolding draft_ok_def by (auto intro: drawn_mono)

lemma shown_ok: "draft_ok d \<Longrightarrow> layout_ok (dr_sections d) \<and> drawn (dr_counter d) (dr_sections d)"
  by (simp add: draft_ok_def)

lemma draft_frame [simp]:
  "draft_ok (d\<lparr>dr_selectedId := x\<rparr>) = draft_ok d" "draft_ok (d\<lparr>dr_drag := g\<rparr>) = draft_ok d"
  "draft_ok (d\<lparr>dr_dragging := b\<rparr>) = draft_ok d" "draft_ok (d\<lparr>dr_wasDragging := b\<rparr>) = draft_ok d"
  by (simp_all add: draft_ok_def)

lemma show_ok: "draft_ok d \<Longrightarrow> layout_ok ls \<and> drawn (dr_counter d) ls \<Longrightarrow> draft_ok (d\<lparr>dr_sections := ls\<rparr>)"
  by (simp add: draft_ok_def)

lemma undo_redo_ok: "draft_ok d \<Longrightarrow> draft_ok (undo d)" "draft_ok d \<Longrightarrow> draft_ok (redo d)"
  by (auto simp: draft_ok_def undo_def redo_def canUndo_def canRedo_def Let_def)

lemma add_ok: "draft_ok d \<Longrightarrow> draft_ok (addSection d)"
  using commit_draft_ok [OF counter_ok, of d "dr_sections d @ [nextSection (dr_counter d) (dr_sections d)]"]
    layout_append [of "dr_sections d" "dr_counter d" "dr_sections d"] shown_ok [of d]
  by (simp add: addSection_def Let_def)

lemma delete_ok: "draft_ok d \<Longrightarrow> draft_ok (deleteSection i d)"
  using commit_draft_ok [OF counter_ok, of d "[nextSection (dr_counter d) []]"] layout_single [of "dr_counter d"]
    commit_draft_ok [of d "filter (\<lambda>s. ds_id s \<noteq> i) (dr_sections d)"] shown_ok [of d]
    layout_filter [of "dr_sections d" "\<lambda>s. ds_id s \<noteq> i"] drawn_filter [of "dr_counter d" "dr_sections d" "\<lambda>s. ds_id s \<noteq> i"]
  by (simp add: deleteSection_def Let_def)

lemma patch_ok:
  assumes "draft_ok d" and "\<And>s. ds_id (f s) = ds_id s" and "\<And>s. section_in_range s \<Longrightarrow> section_in_range (f s)"
  shows "draft_ok (patchSelected f save d)"
  using layout_update [OF _ _ assms(2,3)] shown_ok [OF assms(1)] assms(1)
  by (auto simp: patchSelected_def Let_def intro: commit_draft_ok show_ok split: option.split)

lemma change_ok: "draft_ok d \<Longrightarrow> draft_ok (inspector_change t d)"
  by (cases t) (auto simp: section_in_range_def MAX_SECTION_ROWS_def MAX_SECTION_COLS_def intro!: patch_ok)

lemma key_ok: "draft_ok d \<Longrightarrow> draft_ok (onSectionKeyDown key i d)"
  using shown_ok [of d]
  by (auto simp: onSectionKeyDown_def simp del: ARROW_DELTAS.simps
      intro!: commit_draft_ok layout_moved split: option.split)

lemma move_ok: "draft_ok d \<Longrightarrow> draft_ok (drag_move rect x y d)"
  using shown_ok [of d]
  by (auto simp: drag_move_def intro!: show_ok layout_moved split: option.split prod.split)

lemma editor_step_ok: "draft_ok d \<Longrightarrow> draft_ok (editor_step e d)"
proof -
  assume d: "draft_ok d"
  have "draft_ok (handle_event (fst e) (snd e) d)"
    using d shown_ok [OF d]
    by (cases "snd e") (auto simp: counter_ok add_ok undo_redo_ok change_ok commit_draft_ok delete_ok key_ok move_ok
        onSectionPointerDown_def drag_up_def split: option.split prod.split)
  then show ?thesis
    by (auto simp: editor_step_def drag_effect_def intro!: push_ok dest: shown_ok)
qed

lemma edit_ok: "draft_ok (edit c es)"
proof -
  have "draft_ok (start_draft c)"
    using layout_single [of c] by (simp add: draft_ok_def start_draft_def Let_def)
  then have "draft_ok (fold editor_step es (start_draft c))"
    by (induction es arbitrary: c rule: rev_induct) (auto intro: editor_step_ok)
  then show ?thesis by (simp add: edit_def)
qed

section \<open>The hook is an editing history\<close>

definition draft_hist :: "draft \<Rightarrow> draft_section list zipper" where
  "draft_hist d = (rev (take (dr_index d) (dr_stack d)), dr_stack d ! dr_index d, drop (Suc (dr_index d)) (dr_stack d))"

text \<open>Layouts that may be recorded keep the invariant of the editor.\<close>

definition recordable :: "draft \<Rightarrow> bool" where
  "recordable d \<longleftrightarrow> dr_index d < length (dr_stack d)"

lemma hist_undo:
  assumes "recordable d"
  shows "draft_hist (undo d) = z_undo (draft_hist d)"
proof (cases "dr_index d")
  case 0
  then show ?thesis by (simp add: undo_def canUndo_def draft_hist_def)
next
  case (Suc j)
  with assms have "j < length (dr_stack d)" by (simp add: recordable_def)
  with assms Suc show ?thesis
    by (simp add: undo_def canUndo_def draft_hist_def recordable_def take_Suc_conv_app_nth Cons_nth_drop_Suc)
qed

lemma hist_redo:
  assumes "recordable d"
  shows "draft_hist (redo d) = z_redo (draft_hist d)"
proof (cases "canRedo d")
  case False
  then show ?thesis by (simp add: redo_def canRedo_def draft_hist_def)
next
  case True
  then have "Suc (dr_index d) < length (dr_stack d)" by (simp add: canRedo_def)
  then have "drop (Suc (dr_index d)) (dr_stack d) = dr_stack d ! Suc (dr_index d) # drop (Suc (Suc (dr_index d))) (dr_stack d)"
    by (rule Cons_nth_drop_Suc [symmetric])
  with True assms show ?thesis
    by (simp add: redo_def draft_hist_def recordable_def take_Suc_conv_app_nth)
qed

interpretation draft: edit_history recordable draft_hist dr_sections commit_draft undo redo
proof unfold_locales
  fix d l ps c fs p f
  show "recordable d \<Longrightarrow> recordable (commit_draft l d)"
    by (simp add: recordable_def commit_draft_def push_history_def Let_def)
  show "recordable d \<Longrightarrow> recordable (undo d)" "recordable d \<Longrightarrow> recordable (redo d)"
    by (auto simp: recordable_def undo_def redo_def canRedo_def Let_def)
  show "recordable d \<Longrightarrow> draft_hist (commit_draft l d) = z_commit l (draft_hist d)"
    by (simp add: recordable_def commit_draft_def push_history_def Let_def draft_hist_def take_Suc_conv_app_nth nth_append)
  show "recordable d \<Longrightarrow> draft_hist (undo d) = z_undo (draft_hist d)" by (rule hist_undo)
  show "recordable d \<Longrightarrow> draft_hist (redo d) = z_redo (draft_hist d)" by (rule hist_redo)
  show "recordable d \<Longrightarrow> dr_sections (commit_draft l d) = l"
    by (simp add: commit_draft_def push_history_def Let_def)
  show "recordable d \<Longrightarrow> draft_hist d = (p # ps, c, fs) \<Longrightarrow> dr_sections (undo d) = p"
    by (cases "dr_index d") (auto simp: undo_def canUndo_def draft_hist_def recordable_def take_Suc_conv_app_nth)
  show "recordable d \<Longrightarrow> draft_hist d = (ps, c, f # fs) \<Longrightarrow> dr_sections (redo d) = f"
    by (auto simp: redo_def canRedo_def draft_hist_def Let_def Cons_nth_drop_Suc [symmetric]
        dest: arg_cong [of _ _ hd] simp: hd_drop_conv_nth)
qed

lemma edit_recordable: "recordable (edit c es)"
  using edit_ok by (simp add: draft_ok_def recordable_def)

section \<open>What the server makes of a published draft\<close>

text \<open>The validation pipe takes only whole numbers (\<^verbatim>\<open>IsInt\<close>).\<close>

definition whole :: "rat \<Rightarrow> bool" where
  "whole q \<longleftrightarrow> of_int \<lfloor>q\<rfloor> = q"

definition whole_body :: "section_body \<Rightarrow> bool" where
  "whole_body b \<longleftrightarrow> whole (sb_rows b) \<and> whole (sb_cols b) \<and> whole (sb_x b) \<and> whole (sb_y b)"

definition dto_of_body :: "section_body \<Rightarrow> section_dto" where
  "dto_of_body b = \<lparr>sd_name = sb_name b, sd_rows = nat \<lfloor>sb_rows b\<rfloor>, sd_cols = nat \<lfloor>sb_cols b\<rfloor>,
     sd_tierName = sb_tierName b, sd_priceSatang = sb_priceSatang b,
     sd_x = Some \<lfloor>sb_x b\<rfloor>, sd_y = Some \<lfloor>sb_y b\<rfloor>\<rparr>"

text \<open>The limits of the server that the editor does not enforce.\<close>

definition server_limits :: "draft_section \<Rightarrow> bool" where
  "server_limits s \<longleftrightarrow> whole_body (body_of s) \<and> length (trim (ds_name s)) \<le> 20 \<and> length (trim (ds_tierName s)) \<le> 80 \<and>
     0 \<le> ds_priceSatang s \<and> ds_priceSatang s \<le> 100000000 \<and> ds_x s \<le> 80 \<and> ds_y s \<le> 200"

definition has_manager :: "db \<Rightarrow> id \<Rightarrow> id \<Rightarrow> bool" where
  "has_manager s ev u \<longleftrightarrow> (case effective_role s ev u of None \<Rightarrow> False | Some r \<Rightarrow> Manager \<le> r)"

lemma trim_trim [simp]: "trim (trim s) = trim s"
proof -
  define a where "a = dropWhile is_space s"
  define r where "r = dropWhile is_space (rev a)"
  have "\<exists>z. a = rev r @ z"
    unfolding r_def by (metis rev_append rev_rev_ident takeWhile_dropWhile_id)
  then obtain z where z: "a = rev r @ z" by blast
  have "dropWhile is_space (rev r) = rev r"
  proof (cases "rev r")
    case (Cons c cs)
    with z have "a = c # (cs @ z)" by simp
    moreover have "dropWhile is_space a = a" by (simp add: a_def)
    ultimately have "\<not> is_space c" by (metis dropWhile_eq_Cons_conv list.inject)
    with Cons show ?thesis by simp
  qed simp
  moreover have "dropWhile is_space r = r" by (simp add: r_def)
  ultimately show ?thesis unfolding trim_def a_def [symmetric] r_def [symmetric] by simp
qed

lemma js_set_length: "length (js_set xs) = length xs \<Longrightarrow> distinct xs"
  by (metis card_distinct distinct_card distinct_js_set set_js_set)

lemma published_body:
  assumes "publish_map d = Inr bodies"
  shows "bodies = map body_of (dr_sections d)" and "distinct (map (\<lambda>s. trim (ds_name s)) (dr_sections d))"
    and "distinct (map (\<lambda>s. trim (ds_tierName s)) (dr_sections d))"
    and "\<forall>s \<in> set (dr_sections d). trim (ds_name s) \<noteq> [] \<and> trim (ds_tierName s) \<noteq> []"
  using assms js_set_length [of "map (\<lambda>s. trim (ds_name s)) (dr_sections d)"]
    js_set_length [of "map (\<lambda>s. trim (ds_tierName s)) (dr_sections d)"]
  by (auto simp: publish_map_def Let_def image_iff split: if_splits)

lemma dto_valid:
  assumes "section_in_range s" and "server_limits s" and "trim (ds_name s) \<noteq> []" and "trim (ds_tierName s) \<noteq> []"
  shows "valid_section (dto_of_body (body_of s))"
proof -
  have "1 \<le> \<lfloor>ds_rows s\<rfloor>" "\<lfloor>ds_rows s\<rfloor> \<le> 26" "1 \<le> \<lfloor>ds_cols s\<rfloor>" "\<lfloor>ds_cols s\<rfloor> \<le> 30" "0 \<le> \<lfloor>ds_x s\<rfloor>" "0 \<le> \<lfloor>ds_y s\<rfloor>"
    "\<lfloor>ds_x s\<rfloor> \<le> 80" "\<lfloor>ds_y s\<rfloor> \<le> 200"
    using assms(1,2) by (simp_all add: section_in_range_def server_limits_def le_floor_iff floor_le_iff)
  moreover have "1 \<le> length (trim (ds_name s))" "1 \<le> length (trim (ds_tierName s))"
    using assms(3,4) by (simp_all add: Suc_le_eq)
  ultimately show ?thesis
    using assms(2) by (simp add: valid_section_def dto_of_body_def body_of_def server_limits_def nat_le_iff le_nat_iff)
qed

lemma placed_draft:
  "map meta_of (place_sections amax c (map (\<lambda>s. dto_of_body (body_of s)) ls)) =
     map (\<lambda>s. \<lparr>sm_name = trim (ds_name s), sm_yStart = \<lfloor>ds_y s\<rfloor>, sm_rows = int (nat \<lfloor>ds_rows s\<rfloor>),
       sm_cols = int (nat \<lfloor>ds_cols s\<rfloor>), sm_xOffset = \<lfloor>ds_x s\<rfloor>\<rparr>) ls"
  by (induction ls arbitrary: c)
    (auto simp: meta_of_def dto_of_body_def body_of_def section_x_def section_y_def)

section \<open>Properties\<close>

text \<open>
  C39: Whatever the organizer does in the editor, the canvas and every layout undo or redo can bring
  back stay well formed: there is always a section, no two sections share an id, rows are between 1
  and 26, columns between 1 and 30, and no section lies left of or above the grid.
\<close>

theorem layouts_well_formed:
  "list_all layout_ok (dr_sections (edit c es) # dr_stack (edit c es)) \<and>
     dr_index (edit c es) < length (dr_stack (edit c es))"
  using edit_ok by (auto simp: draft_ok_def list_all_iff)

text \<open>
  C33: Undo and redo walk the recorded layouts. After any session, and any layouts recorded one after
  the other from there, undoing the last \<open>k\<close> of them shows exactly the layout recorded before them,
  and redoing as often shows the last one again: the array with a cursor implements a history.
\<close>

theorem undo_redo_walk:
  assumes "d = edit c es" and "0 < k" and "k \<le> length ls"
  shows "dr_sections ((undo ^^ k) (fold commit_draft ls d)) = (dr_stack d ! dr_index d # ls) ! (length ls - k) \<and>
    dr_sections ((redo ^^ k) ((undo ^^ k) (fold commit_draft ls d))) = last ls"
  using draft.walk [OF edit_recordable [of c es, folded assms(1)] _ assms(2,3)]
  by (simp add: draft_hist_def)

definition demo_session :: "((rat \<times> rat) option \<times> editor_event) list" where
  "demo_session = [(None, Add_clicked), (Some (0, 0), Pointer_down 5 5 ''s1-1''), (Some (0, 0), Pointer_moved 200 20),
     (None, Pointer_up), (None, Typed (Name_typed ''Stalls'')), (None, Field_left), (None, Typed (Price_typed (19 / 2)))]"

theorem undo_redo_walk_witness:
  "dr_sections ((undo ^^ 2) (fold commit_draft [[], [nextSection 7 []]] (edit 0 demo_session))) =
     dr_stack (edit 0 demo_session) ! dr_index (edit 0 demo_session)"
  using undo_redo_walk [OF refl, of 2 "[[], [nextSection 7 []]]" 0 demo_session] by simp

text \<open>
  The default names are not always free: after a section was removed, the next one added is called like
  one that is still there, and publishing is refused until it is renamed.
\<close>

lemma default_names_repeat:
  "publish_map (edit 0 [(None, Add_clicked), (None, Remove_clicked ''s1-1''), (None, Add_clicked)]) =
     Inl Names_not_distinct"
  by code_simp

text \<open>
  C40: A published draft is saved as drawn. When the editor lets a session be published, the draft keeps
  the server's limits on lengths, prices and extent, and the organizer manages an event without a map,
  the request succeeds: the saved map has exactly the drafted sections, with their trimmed names, at
  their places and with their rows and columns, and one seat was created for each place drawn.
\<close>

theorem draft_saved_as_drawn:
  assumes "publish_map (edit c es) = Inr bodies" and "ls = dr_sections (edit c es)"
    and "list_all server_limits ls" and "length ls \<le> 12"
    and "rq_user rq = Some u" and "has_manager (w_db w) ev u"
    and "list_all (\<lambda>m. map_eventId m \<noteq> ev \<and> map_id m < next_id (w_db w)) (seatMaps (w_db w))"
    and "list_all (\<lambda>st. s_seatMapId st < next_id (w_db w)) (seats (w_db w))"
  shows "\<exists>m w'. api env rq (Map_routes ev (Map_create (map dto_of_body bodies))) w =
      (Inr (New_map_body (m, sum_list (map (\<lambda>s. nat \<lfloor>ds_rows s\<rfloor> * nat \<lfloor>ds_cols s\<rfloor>) ls))), w') \<and>
    map_option mm_sections (map_meta m) = Some (map (\<lambda>s. \<lparr>sm_name = trim (ds_name s), sm_yStart = \<lfloor>ds_y s\<rfloor>,
      sm_rows = \<lfloor>ds_rows s\<rfloor>, sm_cols = \<lfloor>ds_cols s\<rfloor>, sm_xOffset = \<lfloor>ds_x s\<rfloor>\<rparr>) ls) \<and>
    seatMaps (w_db w') = seatMaps (w_db w) @ [m]"
proof -
  note pub = published_body [OF assms(1), folded assms(2)]
  let ?ds = "map (\<lambda>s. dto_of_body (body_of s)) ls"
  have ds: "map dto_of_body bodies = ?ds" by (simp add: pub(1) comp_def)
  have layout: "layout_ok ls" using edit_ok [of c es] assms(2) by (simp add: draft_ok_def)
  then have ranges: "\<forall>s \<in> set ls. section_in_range s" and "ls \<noteq> []" by (auto simp: layout_ok_def list_all_iff)
  with assms(3,4) pub(4) have valid: "valid_map_dto ?ds"
    by (auto simp: valid_map_dto_def list_all_iff Suc_le_eq intro: dto_valid)
  have names: "distinct (map (\<lambda>d. trim (sd_name d)) ?ds)" "distinct (map (\<lambda>d. trim (sd_tierName d)) ?ds)"
    using pub(2,3) by (simp_all add: comp_def dto_of_body_def body_of_def)
  obtain x where role: "requireEventRole ev u Manager (w_db w) = Inr x"
    using assms(6) event_gate.passes_iff [of ev u Manager "w_db w"]
    by (auto simp: has_manager_def split: option.splits)
  from create_map_saves [OF valid names role assms(7,8) refl, of "db_now (env_clock env)"] obtain m tts new w' where
    m: "create_map (db_now (env_clock env)) ev u ?ds w = (Inr (m, seats_total ?ds), w')"
      "map_meta m = Some (map_meta_of (place_sections (autoMaxCols ?ds) 0 ?ds))"
    and saved: "w' = w\<lparr>w_db := (w_db w)\<lparr>next_id := next_id (w_db w'), seatMaps := seatMaps (w_db w) @ [m],
      ticketTypes := ticketTypes (w_db w) @ tts, seats := seats (w_db w) @ new\<rparr>\<rparr>" by blast
  have maps: "seatMaps (w_db w') = seatMaps (w_db w) @ [m]" by (subst saved) simp
  have rc: "int (nat \<lfloor>ds_rows s\<rfloor>) = \<lfloor>ds_rows s\<rfloor>" "int (nat \<lfloor>ds_cols s\<rfloor>) = \<lfloor>ds_cols s\<rfloor>" if "s \<in> set ls" for s
    using ranges that by (fastforce simp: section_in_range_def)+
  have "mm_sections (map_meta_of (place_sections (autoMaxCols ?ds) 0 ?ds)) =
      map (\<lambda>s. \<lparr>sm_name = trim (ds_name s), sm_yStart = \<lfloor>ds_y s\<rfloor>, sm_rows = \<lfloor>ds_rows s\<rfloor>,
        sm_cols = \<lfloor>ds_cols s\<rfloor>, sm_xOffset = \<lfloor>ds_x s\<rfloor>\<rparr>) ls"
    unfolding map_meta_of_def section_meta.select_convs map_meta.select_convs placed_draft
    by (intro map_cong refl) (simp only: rc)
  moreover have "seats_total ?ds = sum_list (map (\<lambda>s. nat \<lfloor>ds_rows s\<rfloor> * nat \<lfloor>ds_cols s\<rfloor>) ls)"
    by (simp add: seats_total_def comp_def dto_of_body_def body_of_def)
  moreover have "api env rq (Map_routes ev (Map_create (map dto_of_body bodies))) w = (Inr (New_map_body (m, seats_total ?ds)), w')"
    using assms(5) valid m(1)
    by (simp add: ds jwtAuthGuard_def someR_def validationPipe_def guardR_def answerR_def bindR_def returnR_def)
  ultimately show ?thesis using m(2) maps by auto
qed

definition editor_request :: "id \<Rightarrow> request" where
  "editor_request u = \<lparr>rq_user = Some u, rq_holdKey = None, rq_idempotencyKey = None, rq_admission = None, rq_cookie = None\<rparr>"

text \<open>The session above, published to the demo event, whose owner is user 2.\<close>

definition demo_bodies :: "section_body list" where
  "demo_bodies = projr (publish_map (edit 0 demo_session))"

lemma demo_published: "publish_map (edit 0 demo_session) = Inr demo_bodies"
  by code_simp

lemma demo_limits: "list_all server_limits (dr_sections (edit 0 demo_session))"
  "length (dr_sections (edit 0 demo_session)) = 2"
  "sum_list (map (\<lambda>s. nat \<lfloor>ds_rows s\<rfloor> * nat \<lfloor>ds_cols s\<rfloor>) (dr_sections (edit 0 demo_session))) = 64"
  by code_simp+

theorem draft_saved_as_drawn_witness:
  "\<forall>env. \<exists>m w'. api env (editor_request 2) (Map_routes 1 (Map_create (map dto_of_body demo_bodies))) (demo_world demo_db) =
      (Inr (New_map_body (m, 64)), w') \<and> length (seatMaps (w_db w')) = 1"
proof (rule allI)
  fix env
  have "has_manager (w_db (demo_world demo_db)) 1 2" by code_simp
  moreover have "rq_user (editor_request 2) = Some 2" by (simp add: editor_request_def)
  ultimately show "\<exists>m w'. api env (editor_request 2) (Map_routes 1 (Map_create (map dto_of_body demo_bodies)))
      (demo_world demo_db) = (Inr (New_map_body (m, 64)), w') \<and> length (seatMaps (w_db w')) = 1"
    using draft_saved_as_drawn [OF demo_published refl demo_limits(1), of "editor_request 2" 2 "demo_world demo_db" 1 env]
      demo_limits(2,3)
    by (auto simp: demo_defs)
qed

end
