(* ===== verification/Seat_Picker.thy ===== *)
theory Seat_Picker
  imports Api
begin

text \<open>
  The seat picker of the web client: \<^verbatim>\<open>apps/web/src/lib/use-seat-holds.ts\<close> and the form around it,
  \<^verbatim>\<open>app/events/[slug]/seat-picker.tsx\<close>. The seat map it shows is loaded once and then kept up to
  date by the socket messages and by what it expects of its own taps. \<^verbatim>\<open>SeatInfo\<close> is the row
  \<open>seat_view\<close> of the API; each \<^verbatim>\<open>setMap\<close> updater is a function on the loaded map. An \<^verbatim>\<open>await\<close> splits a
  handler in two: what runs before the request, and what runs on its answer.
\<close>

datatype picker_toast =
    Holds_expired_toast
  | Held_by_someone_else string
  | Server_message error string
  | Seats_are_yours

type_synonym map_data = "seat_map \<times> ticket_type list \<times> seat_view list"

record seat_picker =
  pk_map :: "map_data option"
  pk_failed :: bool
  pk_reloadKey :: nat
  pk_earliestRef :: "millis option"
  pk_toasts :: "picker_toast list"

definition start_picker :: seat_picker where
  "start_picker = \<lparr>pk_map = None, pk_failed = False, pk_reloadKey = 0, pk_earliestRef = None, pk_toasts = []\<rparr>"

definition picker_rows :: "seat_picker \<Rightarrow> seat_view list" where
  "picker_rows p = (case pk_map p of None \<Rightarrow> [] | Some (m, tts, vs) \<Rightarrow> vs)"

text \<open>\<^verbatim>\<open>setMap((current) => current ? {...current, seats: current.seats.map(f)} : current)\<close>.\<close>

definition map_rows :: "(seat_view \<Rightarrow> seat_view) \<Rightarrow> seat_picker \<Rightarrow> seat_picker" where
  "map_rows f p = p\<lparr>pk_map := map_option (\<lambda>(m, tts, vs). (m, tts, map f vs)) (pk_map p)\<rparr>"

definition refresh_picker :: "seat_picker \<Rightarrow> seat_picker" where
  "refresh_picker p = p\<lparr>pk_reloadKey := pk_reloadKey p + 1\<rparr>"

definition toast :: "picker_toast \<Rightarrow> seat_picker \<Rightarrow> seat_picker" where
  "toast x p = p\<lparr>pk_toasts := pk_toasts p @ [x]\<rparr>"

section \<open>Loading and messages\<close>

text \<open>The answer of the request that was sent when the reload key was \<open>k\<close>; a newer key cancelled it.\<close>

definition map_loaded :: "nat \<Rightarrow> error + response \<Rightarrow> seat_picker \<Rightarrow> seat_picker" where
  "map_loaded k ans p =
     (if k \<noteq> pk_reloadKey p then p
      else case ans of
        Inr (Map_body data) \<Rightarrow> p\<lparr>pk_map := Some data\<rparr>
      | _ \<Rightarrow> p\<lparr>pk_failed := True\<rparr>)"

definition seat_message :: "seat_batch \<Rightarrow> seat_view \<Rightarrow> seat_view" where
  "seat_message b v =
     (let i = s_id (v_seat v) in
      if i \<in> set (b_sold b) then v\<lparr>v_status := Sold, v_mine := False\<rparr>
      else if i \<in> set (b_released b) then v\<lparr>v_status := Available, v_mine := False, v_expiresAt := None\<rparr>
      else if i \<in> set (b_held b) \<and> \<not> v_mine v then v\<lparr>v_status := Held\<rparr>
      else v)"

definition on_seats_message :: "seat_batch \<Rightarrow> seat_picker \<Rightarrow> seat_picker" where
  "on_seats_message b = map_rows (seat_message b)"

definition mySeats :: "seat_picker \<Rightarrow> seat_view list" where
  "mySeats p = filter v_mine (picker_rows p)"

definition earliestExpiry :: "seat_picker \<Rightarrow> millis option" where
  "earliestExpiry p = fold (\<lambda>v earliest. case v_expiresAt v of
       None \<Rightarrow> earliest
     | Some e \<Rightarrow> (case earliest of None \<Rightarrow> Some e | Some m \<Rightarrow> Some (min m e))) (mySeats p) None"

text \<open>The effect that copies a changed expiry into the ref, and the interval's tick.\<close>

definition expiry_effect :: "seat_picker \<Rightarrow> seat_picker \<Rightarrow> seat_picker" where
  "expiry_effect before p =
     (if earliestExpiry p \<noteq> earliestExpiry before then p\<lparr>pk_earliestRef := earliestExpiry p\<rparr> else p)"

definition expiry_tick :: "millis \<Rightarrow> seat_picker \<Rightarrow> seat_picker" where
  "expiry_tick now p =
     (if mySeats p = [] then p
      else case pk_earliestRef p of
        None \<Rightarrow> p
      | Some e \<Rightarrow>
          if e \<le> now then refresh_picker (toast Holds_expired_toast (p\<lparr>pk_earliestRef := None\<rparr>)) else p)"

section \<open>Taps\<close>

definition applySeat :: "id \<Rightarrow> (seat_view \<Rightarrow> seat_view) \<Rightarrow> seat_picker \<Rightarrow> seat_picker" where
  "applySeat i patch = map_rows (\<lambda>v. if s_id (v_seat v) = i then patch v else v)"

datatype hold_call = Release_call seat | Acquire_call seat

definition toggle_start :: "seat_view \<Rightarrow> seat_picker \<Rightarrow> seat_picker \<times> hold_call option" where
  "toggle_start v p =
     (let st = v_seat v in
      if v_status v = Sold then (p, None)
      else if v_mine v then
        (applySeat (s_id st) (\<lambda>u. u\<lparr>v_status := Available, v_mine := False, v_expiresAt := None\<rparr>) p,
         Some (Release_call st))
      else if v_status v = Held then (toast (Held_by_someone_else (seat_label st)) p, None)
      else (applySeat (s_id st) (\<lambda>u. u\<lparr>v_status := Held, v_mine := True\<rparr>) p, Some (Acquire_call st)))"

fun hold_call_route :: "id \<Rightarrow> hold_call \<Rightarrow> route" where
  "hold_call_route ev (Release_call st) = Hold_routes ev (Hold_release (s_id st))"
| "hold_call_route ev (Acquire_call st) = Hold_routes ev (Hold_acquire (s_id st))"

definition status_409 :: "error \<Rightarrow> bool" where
  "status_409 e = (case e of Conflict _ \<Rightarrow> True | _ \<Rightarrow> False)"

fun toggle_finish :: "hold_call \<Rightarrow> error + response \<Rightarrow> seat_picker \<Rightarrow> seat_picker" where
  "toggle_finish (Release_call st) ans p = (case ans of Inr _ \<Rightarrow> p | Inl _ \<Rightarrow> refresh_picker p)"
| "toggle_finish (Acquire_call st) ans p = (case ans of
     Inr (Hold_body (i, expiresAt)) \<Rightarrow>
       applySeat (s_id st) (\<lambda>u. u\<lparr>v_status := Held, v_mine := True, v_expiresAt := Some expiresAt\<rparr>) p
   | Inl e \<Rightarrow>
       toast (Server_message e (''Could not hold '' @ seat_label st))
         (applySeat (s_id st) (\<lambda>u. u\<lparr>v_status := (if status_409 e then Held else Available), v_mine := False\<rparr>) p)
   | _ \<Rightarrow> p)"

text \<open>\<^verbatim>\<open>header: { "x-hold-key": holdKey }\<close>; the middleware adds the session and the admission token.\<close>

definition with_hold_key :: "string \<Rightarrow> request \<Rightarrow> request" where
  "with_hold_key key rq = rq\<lparr>rq_holdKey := Some key\<rparr>"

text \<open>\<^verbatim>\<open>onSeatToggle\<close>: a drag of the map or a running purchase swallows the tap.\<close>

definition onSeatToggle :: "bool \<Rightarrow> bool \<Rightarrow> seat_view \<Rightarrow> seat_picker \<Rightarrow> seat_picker \<times> hold_call option" where
  "onSeatToggle suppressClick claiming v p =
     (if suppressClick \<or> claiming then (p, None) else toggle_start v p)"

section \<open>The purchase\<close>

record claim_form =
  cl_buyerName :: string
  cl_buyerEmail :: string
  cl_claiming :: bool
  cl_idempotencyKey :: string

datatype next_page = Stay | Checkout string | Order_page id id

definition claim_start :: "(string \<times> string) option \<Rightarrow> string \<Rightarrow> request \<Rightarrow> claim_form \<Rightarrow> seat_picker \<Rightarrow>
    (claim_form \<times> create_order_dto \<times> request) option" where
  "claim_start user key rq f p =
     (if mySeats p = [] then None
      else Some (f\<lparr>cl_claiming := True\<rparr>,
        \<lparr>d_items = None, d_seatIds = Some (map (\<lambda>v. s_id (v_seat v)) (mySeats p)),
         d_buyerEmail = (case user of None \<Rightarrow> cl_buyerEmail f | Some (email, displayName) \<Rightarrow> email),
         d_buyerName = (case user of None \<Rightarrow> cl_buyerName f | Some (email, displayName) \<Rightarrow> displayName)\<rparr>,
        (with_hold_key key rq)\<lparr>rq_idempotencyKey := Some (cl_idempotencyKey f)\<rparr>))"

text \<open>
  The answer with the order and the checkout address of its payment, if any; \<open>fresh\<close> is the next
  random key. A lost answer leaves only the \<^verbatim>\<open>finally\<close> block.
\<close>

definition claim_finish :: "string \<Rightarrow> (error + order \<times> string option) option \<Rightarrow>
    claim_form \<times> seat_picker \<Rightarrow> (claim_form \<times> seat_picker) \<times> next_page" where
  "claim_finish fresh ans fp =
     (let (f, p) = fp; f' = f\<lparr>cl_claiming := False\<rparr> in
      case ans of
        None \<Rightarrow> ((f', p), Stay)
      | Some (Inl e) \<Rightarrow>
          let p' = toast (Server_message e ''Could not claim these seats'') p
          in ((f'\<lparr>cl_idempotencyKey := fresh\<rparr>, if status_409 e then refresh_picker p' else p'), Stay)
      | Some (Inr (r, url)) \<Rightarrow>
          if o_status r = Awaiting_payment \<and> truthy url then ((f', p), Checkout (the url))
          else ((f', toast Seats_are_yours p), Order_page (o_id r) (o_guestToken r)))"

definition formatCountdown :: "millis \<Rightarrow> string" where
  "formatCountdown msLeft =
     (let totalSeconds = max 0 (msLeft div 1000)
      in decimal (nat (totalSeconds div 60)) @ '':'' @ pad 2 (nat (totalSeconds mod 60)))"

section \<open>The map, the server and the other buyers\<close>

text \<open>
  A run on one event, with the requests of this client's taps on their way: a tap on a seat runs up
  to its \<^verbatim>\<open>await\<close> and sends its request, the server handles a request, its answer reaches the
  client and the rest of \<^verbatim>\<open>toggleSeat\<close> runs. Between these, in any order: other taps, requests for
  holds of other clients for whatever events, and the server's 250 ms timer, whose messages about
  the event reach this client's socket.
\<close>

record flight =
  fl_call :: hold_call
  fl_request :: request
  fl_answer :: "(error + response) option"

datatype floor_event =
    Tapped request id
  | Handled surroundings nat
  | Answered nat
  | Other surroundings request id hold_route
  | Timer_fires

definition receive :: "id \<Rightarrow> message \<Rightarrow> seat_picker \<Rightarrow> seat_picker" where
  "receive ev m p = (case m of Seats_message e b \<Rightarrow> if e = ev then on_seats_message b p else p | _ \<Rightarrow> p)"

fun floor_step :: "id \<Rightarrow> string \<Rightarrow> floor_event \<Rightarrow> world \<times> seat_picker \<times> flight list \<Rightarrow>
    world \<times> seat_picker \<times> flight list" where
  "floor_step ev key (Tapped rq i) (w, p, fs) =
     (case List.find (\<lambda>v. s_id (v_seat v) = i) (picker_rows p) of
        None \<Rightarrow> (w, p, fs)
      | Some v \<Rightarrow> (case onSeatToggle False False v p of
          (p', None) \<Rightarrow> (w, p', fs)
        | (p', Some c) \<Rightarrow> (w, p', fs @ [\<lparr>fl_call = c, fl_request = with_hold_key key rq, fl_answer = None\<rparr>])))"
| "floor_step ev key (Handled env k) (w, p, fs) =
     (if k < length fs \<and> fl_answer (fs ! k) = None then
        (let (ans, w') = api env (fl_request (fs ! k)) (hold_call_route ev (fl_call (fs ! k))) w
         in (w', p, fs[k := (fs ! k)\<lparr>fl_answer := Some ans\<rparr>]))
      else (w, p, fs))"
| "floor_step ev key (Answered k) (w, p, fs) =
     (if k < length fs then
        (case fl_answer (fs ! k) of
           None \<Rightarrow> (w, p, fs)
         | Some ans \<Rightarrow> (w, toggle_finish (fl_call (fs ! k)) ans p, without k fs))
      else (w, p, fs))"
| "floor_step ev key (Other env rq e r) (w, p, fs) = (snd (api env rq (Hold_routes e r) w), p, fs)"
| "floor_step ev key Timer_fires (w, p, fs) =
     (flush w, fold (receive ev) (drop (length (w_emitted w)) (w_emitted (flush w))) p, fs)"

end
