(* ===== verification/Hold_Effects.thy ===== *)
theory Hold_Effects
  imports Seat_Picker
begin

text \<open>
  What a request for a hold does to the live holds, to the pending batch of seat changes and to the
  rest of the database, over a stretch of time \<open>t0\<close> to \<open>T\<close> in which no hold lapses: the lemmas the
  live seat map rests on.
\<close>

section \<open>Live holds as a map\<close>

lemma option_eqI: "(\<And>a. x = Some a \<longleftrightarrow> y = Some a) \<Longrightarrow> x = y"
  by (metis not_Some_eq)

lemma live_holds_append:
  "live_holds T ev (s\<lparr>holds := hs @ [h]\<rparr>) =
     (if h_eventId h = ev \<and> T < h_expiresAt h
      then (live_holds T ev (s\<lparr>holds := hs\<rparr>))(h_seatId h \<mapsto> h) else live_holds T ev (s\<lparr>holds := hs\<rparr>))"
  by (simp add: live_holds_def)

lemma live_holds_delete:
  assumes "\<And>h. h \<in> set (holds s) \<Longrightarrow> p h \<Longrightarrow> h_eventId h = ev \<Longrightarrow> h_expiresAt h \<le> T"
  shows "live_holds T ev (s\<lparr>holds := delete_where p (holds s)\<rparr>) = live_holds T ev s"
proof -
  have "filter (\<lambda>h. h_eventId h = ev \<and> h_expiresAt h > T) (delete_where p (holds s)) =
      filter (\<lambda>h. h_eventId h = ev \<and> h_expiresAt h > T) (holds s)"
    using assms unfolding delete_where_def filter_filter by (intro filter_cong) force+
  then show ?thesis by (simp add: live_holds_def)
qed

lemma distinct_seat_ids:
  "distinct (map hold_key hs) \<Longrightarrow> distinct (map h_seatId (filter (\<lambda>h. h_eventId h = ev \<and> q h) hs))"
  by (auto simp: distinct_map inj_on_def hold_key_def)

lemma live_holds_iff:
  assumes "holds_unique s"
  shows "live_holds T ev s x = Some h \<longleftrightarrow>
    h \<in> set (holds s) \<and> hold_key h = (ev, x) \<and> T < h_expiresAt h"
proof -
  have "distinct (map fst (rev (map (\<lambda>h. (h_seatId h, h))
      (filter (\<lambda>h. h_eventId h = ev \<and> h_expiresAt h > T) (holds s)))))"
    using distinct_seat_ids [of "holds s"] assms by (simp add: holds_unique_iff rev_map [symmetric] comp_def)
  then show ?thesis
    unfolding live_holds_def by (subst map_of_eq_Some_iff) (auto simp: hold_key_def)
qed

lemma live_holds_None:
  assumes "holds_unique s"
  shows "live_holds T ev s x = None \<longleftrightarrow> (\<forall>h \<in> set (holds s). hold_key h = (ev, x) \<longrightarrow> h_expiresAt h \<le> T)"
  using live_holds_iff [OF assms, of T ev x] by (cases "live_holds T ev s x") (auto simp: not_less, force)

lemma live_holds_deleted:
  assumes "holds_unique s"
  shows "live_holds T ev (s\<lparr>holds := delete_where p (holds s)\<rparr>) x =
    (case live_holds T ev s x of None \<Rightarrow> None | Some h \<Rightarrow> if p h then None else Some h)"
proof -
  have "holds_unique (s\<lparr>holds := delete_where p (holds s)\<rparr>)"
    using assms by (simp add: holds_unique_def holds_unique_delete)
  note live = live_holds_iff [OF this] live_holds_iff [OF assms]
  have "live_holds T ev (s\<lparr>holds := delete_where p (holds s)\<rparr>) x = Some h \<longleftrightarrow>
      live_holds T ev s x = Some h \<and> \<not> p h" for h
    unfolding live by (auto simp: row_simps)
  then show ?thesis by (intro option_eqI) (auto split: option.split)
qed

section \<open>A window in which no hold lapses\<close>

definition calm :: "millis \<Rightarrow> millis \<Rightarrow> id \<Rightarrow> string \<Rightarrow> db \<Rightarrow> bool" where
  "calm t0 T ev key s \<longleftrightarrow> hold_inv s \<and> distinct (map h_id (holds s)) \<and>
     (\<forall>h \<in> set (holds s). h_id h < next_id s \<and> (h_expiresAt h \<le> t0 \<or> T < h_expiresAt h) \<and>
        (h_eventId h = ev \<and> h_holderKey h = key \<and> T < h_expiresAt h \<longrightarrow> h_orderId h = None))"

definition in_window :: "millis \<Rightarrow> millis \<Rightarrow> surroundings \<Rightarrow> bool" where
  "in_window t0 T env \<longleftrightarrow> t0 \<le> app_now (env_clock env) \<and> app_now (env_clock env) \<le> T \<and>
     t0 \<le> db_now (env_clock env) \<and> db_now (env_clock env) \<le> T \<and> T < t0 + holdTtlMs (env_holdTtl env)"

lemma calm_delete: "calm t0 T ev key s \<Longrightarrow> calm t0 T ev key (s\<lparr>holds := delete_where p (holds s)\<rparr>)"
  using delete_holds_inv [of s p] holds_unique_delete [of h_id "holds s" p]
  by (auto simp: calm_def row_simps)

lemma calm_next: "calm t0 T ev key s \<Longrightarrow> calm t0 T ev key (s\<lparr>next_id := Suc (next_id s)\<rparr>)"
  by (auto simp: calm_def hold_inv_def holds_unique_def holds_free_def less_Suc_eq)

lemma calm_drop: "calm t0 T ev key s \<Longrightarrow>
    calm t0 T ev key (drop_expired d ev' x (s\<lparr>next_id := Suc (next_id s)\<rparr>))"
  unfolding drop_expired_def by (intro calm_delete calm_next)

lemma live_holds_next [simp]: "live_holds T ev (s\<lparr>next_id := n\<rparr>) = live_holds T ev s"
  by (simp add: live_holds_def)

lemma live_holds_drop:
  "d \<le> T \<Longrightarrow> live_holds T ev (drop_expired d ev' x (s\<lparr>next_id := n\<rparr>)) = live_holds T ev s"
  unfolding drop_expired_def by (subst live_holds_delete) auto

lemma calm_append:
  assumes "calm t0 T ev key s" and "find_hold (h_eventId h) (h_seatId h) s = None" and "\<not> seat_sold (h_seatId h) s"
    and "\<forall>x \<in> set (holds s). h_id x < h_id h" and "h_id h < next_id s" and "T < h_expiresAt h" and "h_orderId h = None"
  shows "calm t0 T ev key (s\<lparr>holds := holds s @ [h]\<rparr>)"
  using assms by (force simp: calm_def hold_inv_def holds_unique_iff holds_free_def find_hold_None hold_key_def)

lemma refresh_tx_eq:
  assumes "calm t0 T ev key s" and "h \<in> set (holds s)"
  shows "refresh_tx (h_id h) e s = Inr (h\<lparr>h_expiresAt := e\<rparr>,
    s\<lparr>holds := update_where (\<lambda>x. x = h) (\<lambda>x. x\<lparr>h_expiresAt := e\<rparr>) (holds s)\<rparr>)"
proof -
  have same: "h_id x = h_id h \<longleftrightarrow> x = h" if "x \<in> set (holds s)" for x
    using assms that distinct_map_key_eq by (fastforce simp: calm_def)
  then have "update_where (\<lambda>x. h_id x = h_id h) (\<lambda>x. x\<lparr>h_expiresAt := e\<rparr>) (holds s) =
      update_where (\<lambda>x. x = h) (\<lambda>x. x\<lparr>h_expiresAt := e\<rparr>) (holds s)"
    by (auto simp: update_where_def)
  moreover have "List.find (\<lambda>x. h_id x = h_id h) (update_where (\<lambda>x. x = h) (\<lambda>x. x\<lparr>h_expiresAt := e\<rparr>) (holds s)) =
      Some (h\<lparr>h_expiresAt := e\<rparr>)"
    using find_key [of h_id "holds s" h] assms
    by (subst find_update_where) (auto simp: calm_def same)
  ultimately show ?thesis by (simp add: refresh_tx_def)
qed

lemma calm_refresh:
  assumes "calm t0 T ev key s" and "T < e" and "T < h_expiresAt h"
  shows "calm t0 T ev key (s\<lparr>holds := update_where (\<lambda>x. x = h) (\<lambda>x. x\<lparr>h_expiresAt := e\<rparr>) (holds s)\<rparr>)"
  using assms by (auto simp: calm_def hold_inv_def holds_unique_def holds_free_def row_simps comp_def)

lemma live_holds_refresh:
  assumes "holds_unique s" and "h \<in> set (holds s)" and "T < e" and "T < h_expiresAt h"
  shows "live_holds T ev (s\<lparr>holds := update_where (\<lambda>x. x = h) (\<lambda>x. x\<lparr>h_expiresAt := e\<rparr>) (holds s)\<rparr>) =
    (if h_eventId h = ev then (live_holds T ev s)(h_seatId h \<mapsto> h\<lparr>h_expiresAt := e\<rparr>) else live_holds T ev s)"
    (is "live_holds T ev ?s = ?r")
proof
  fix x
  have u: "holds_unique ?s" using assms(1) by (simp add: holds_unique_def row_simps comp_def)
  have "h' = h" if "h' \<in> set (holds s)" "hold_key h' = hold_key h" for h'
    using assms(1,2) that distinct_map_key_eq by (fastforce simp: holds_unique_iff)
  then show "live_holds T ev ?s x = ?r x"
    using assms live_holds_iff [OF assms(1), of T ev x]
    by (intro option_eqI) (auto simp: live_holds_iff [OF u] row_simps hold_key_def)
qed

section \<open>What a request for a hold does\<close>

lemma acquire_cases:
  fixes clk ttl ev x k w
  defines "s \<equiv> w_db w" and "s1 \<equiv> drop_expired (db_now clk) ev x (w_db w\<lparr>next_id := Suc (next_id (w_db w))\<rparr>)"
  assumes "calm t0 T ev' key s" and "t0 \<le> db_now clk" and "db_now clk \<le> T" and "T < app_now clk + ttl"
  obtains
    (won) "find_hold ev x s1 = None" "\<not> seat_sold x s"
      "acquire clk ttl ev x k w = (Inr (x, app_now clk + ttl),
        seatsChanged ev (held_change [x]) (w\<lparr>w_db := s1\<lparr>holds := holds s1 @
          [\<lparr>h_id = next_id s, h_eventId = ev, h_seatId = x, h_holderKey = k, h_orderId = None,
            h_expiresAt = app_now clk + ttl, h_createdAt = db_now clk\<rparr>]\<rparr>\<rparr>))"
  | (refreshed) h where "h \<in> set (holds s)" "hold_key h = (ev, x)" "T < h_expiresAt h" "h_holderKey h = k"
      "acquire clk ttl ev x k w = (Inr (x, app_now clk + ttl), w\<lparr>w_db := s1\<lparr>holds :=
        update_where (\<lambda>y. y = h) (\<lambda>y. y\<lparr>h_expiresAt := app_now clk + ttl\<rparr>) (holds s1)\<rparr>\<rparr>)"
  | (refused) e w' where "acquire clk ttl ev x k w = (Inl e, w')" "w' = w \<or> w' = w\<lparr>w_db := s1\<rparr>"
      "status_409 e \<Longrightarrow> seat_sold x s \<or>
         (\<exists>h \<in> set (holds s). hold_key h = (ev, x) \<and> T < h_expiresAt h \<and> h_holderKey h \<noteq> k)"
proof -
  have calm1: "calm t0 T ev' key s1"
    using calm_drop [OF assms(3)] by (simp add: s1_def s_def)
  have kept: "h \<in> set (holds s) \<and> T < h_expiresAt h" if "h \<in> set (holds s1)" "hold_key h = (ev, x)" for h
    using assms(3,4) that by (auto simp: s1_def s_def drop_expired_def row_simps hold_key_def calm_def)
  let ?n = "if seat_sold x s \<or> find_hold ev x s1 \<noteq> None then 0 else (1::nat)"
  show thesis
  proof (cases "seat_on_sale ev x s = None \<or> \<not> count_where (active_hold (app_now clk) ev k) (holds s) < MAX_HELD_PER_KEY")
    case True
    then have "acquire clk ttl ev x k w = (Inl (if seat_on_sale ev x s = None then Not_found Seat_not_found
        else Bad_request (At_most_held MAX_HELD_PER_KEY)), w)"
      by (auto simp: acquire_def req_defs queryR_def s_def)
    then show thesis by (rule refused) (auto simp: status_409_def split: if_splits)
  next
    case False
    note go = False
    show thesis
    proof (cases "seat_sold x s \<or> find_hold ev x s1 \<noteq> None")
      case False
      let ?h = "\<lparr>h_id = next_id s, h_eventId = ev, h_seatId = x, h_holderKey = k, h_orderId = None,
            h_expiresAt = app_now clk + ttl, h_createdAt = db_now clk\<rparr>"
      have "acquire_tx clk ev x k (app_now clk + ttl) (w_db w) = Inr (1, s1\<lparr>holds := holds s1 @ [?h]\<rparr>)"
        using False by (simp add: acquire_tx_Inr Let_def s_def s1_def)
      with False go show thesis
        by (intro won) (auto simp: acquire_def Let_def req_defs queryR_def commit_def s_def)
    next
      case True
      then have tx: "acquire_tx clk ev x k (app_now clk + ttl) (w_db w) = Inr (0, s1)"
        by (simp add: acquire_tx_Inr Let_def s_def s1_def)
      show thesis
      proof (cases "find_hold ev x s1")
        case None
        with True go tx show thesis
          by (intro refused [of "Conflict Seat_sold" "w\<lparr>w_db := s1\<rparr>"])
            (auto simp: acquire_def Let_def req_defs queryR_def commit_def s_def)
      next
        case (Some h)
        then have h: "h \<in> set (holds s1)" "hold_key h = (ev, x)" using find_hold_SomeD by auto
        show thesis
        proof (cases "h_holderKey h = k")
          case True
          with Some go tx h kept [OF h] show thesis
            by (intro refreshed [of h])
              (auto simp: acquire_def Let_def req_defs queryR_def commit_def s_def refresh_tx_eq [OF calm1 h(1)])
        next
          case False
          with Some go tx kept [OF h] h show thesis
            by (intro refused [of "Conflict Seat_held" "w\<lparr>w_db := s1\<rparr>"])
              (auto simp: acquire_def Let_def req_defs queryR_def commit_def s_def)
        qed
      qed
    qed
  qed
qed

section \<open>What it leaves alone\<close>

definition event_seats :: "id \<Rightarrow> db \<Rightarrow> (seat_map \<times> ticket_type list \<times> seat list) option" where
  "event_seats ev s = (case List.find (\<lambda>m. map_eventId m = ev) (seatMaps s) of None \<Rightarrow> None
     | Some m \<Rightarrow> Some (m, filter (\<lambda>tt. tt_eventId tt = ev \<and> tt_kind tt = Seated) (ticketTypes s),
         sort_key s_y (sort_key s_x (filter (\<lambda>st. s_seatMapId st = map_id m) (seats s)))))"

definition sales_known :: "id \<Rightarrow> db \<Rightarrow> bool" where
  "sales_known ev s \<longleftrightarrow> distinct (map s_id (seats s)) \<and>
     (\<forall>st \<in> set (seats s). seat_sold (s_id st) s \<longleftrightarrow> s_id st \<in> set (sold_seats ev s))"

lemma sold_seats_sold: "x \<in> set (sold_seats ev s) \<Longrightarrow> seat_sold x s"
  by (auto simp: sold_seats_def seat_sold_def set_map_filter_iff)

lemma floor_frame [simp]:
  "sold_seats ev (s\<lparr>holds := hs\<rparr>) = sold_seats ev s" "sold_seats ev (s\<lparr>next_id := n\<rparr>) = sold_seats ev s"
  "sales_known ev (s\<lparr>holds := hs\<rparr>) = sales_known ev s" "sales_known ev (s\<lparr>next_id := n\<rparr>) = sales_known ev s"
  "event_seats ev (s\<lparr>holds := hs\<rparr>) = event_seats ev s" "event_seats ev (s\<lparr>next_id := n\<rparr>) = event_seats ev s"
  by (simp_all add: sold_seats_def sales_known_def event_seats_def split: option.split)

lemma floor_drop [simp]:
  "sold_seats ev (drop_expired d e x s) = sold_seats ev s" "sales_known ev (drop_expired d e x s) = sales_known ev s"
  "event_seats ev (drop_expired d e x s) = event_seats ev s" "next_id (drop_expired d e x s) = next_id s"
  "seat_sold y (drop_expired d e x s) = seat_sold y s"
  by (simp_all add: drop_expired_def)

lemma world_frame [simp]:
  "pending_batch ev (w\<lparr>w_db := s\<rparr>) = pending_batch ev w" "rt_ok (w\<lparr>w_db := s\<rparr>) = rt_ok w"
  by (simp_all add: pending_batch_def rt_ok_def)

text \<open>What no request for a hold touches.\<close>

definition same_floor :: "millis \<Rightarrow> millis \<Rightarrow> id \<Rightarrow> string \<Rightarrow> world \<Rightarrow> world \<Rightarrow> bool" where
  "same_floor t0 T ev key w w' \<longleftrightarrow> w_server w' = w_server w \<and> rt_ok w' \<and> calm t0 T ev key (w_db w') \<and>
     sales_known ev (w_db w') = sales_known ev (w_db w) \<and> event_seats ev (w_db w') = event_seats ev (w_db w) \<and>
     sold_seats ev (w_db w') = sold_seats ev (w_db w) \<and>
     (b_sold (pending_batch ev w) = [] \<longrightarrow> b_sold (pending_batch ev w') = [])"

section \<open>The effect of each request\<close>

lemma acquire_effect:
  fixes T ttl e x k w env
  defines "clk \<equiv> env_clock env" and "L \<equiv> \<lambda>e v. live_holds T e (w_db v)"
  assumes calm: "calm t0 T ev key (w_db w)" and rt: "rt_ok w" and win: "in_window t0 T env"
    and ttl: "ttl = holdTtlMs (env_holdTtl env)"
  obtains
    (won) h w' where "acquire clk ttl e x k w = (Inr (x, h_expiresAt h), w')" "same_floor t0 T ev key w w'"
      "h_holderKey h = k" "L e w x = None" "\<not> seat_sold x (w_db w)"
      "\<And>e'. L e' w' = (if e' = e then (L e' w)(x \<mapsto> h) else L e' w)"
      "\<And>e'. pending_batch e' w' = (if e' = e then mark_held x (pending_batch e' w) else pending_batch e' w)"
  | (refreshed) h h' w' where "acquire clk ttl e x k w = (Inr (x, h_expiresAt h'), w')" "same_floor t0 T ev key w w'"
      "h_holderKey h = k" "h_holderKey h' = k" "L e w x = Some h"
      "\<And>e'. L e' w' = (if e' = e then (L e' w)(x \<mapsto> h') else L e' w)"
      "\<And>e'. pending_batch e' w' = pending_batch e' w"
  | (refused) r w' where "acquire clk ttl e x k w = (Inl r, w')" "same_floor t0 T ev key w w'"
      "status_409 r \<Longrightarrow> seat_sold x (w_db w) \<or> L e w x \<noteq> None"
      "\<And>e'. L e' w' = L e' w" "\<And>e'. pending_batch e' w' = pending_batch e' w"
proof -
  let ?s = "w_db w" and ?until = "app_now clk + ttl"
  let ?s1 = "drop_expired (db_now clk) e x (?s\<lparr>next_id := Suc (next_id ?s)\<rparr>)"
  have calm1: "calm t0 T ev key ?s1" using calm by (rule calm_drop)
  have t: "t0 \<le> db_now clk" "db_now clk \<le> T" "T < ?until" using win ttl by (auto simp: in_window_def clk_def)
  have L1: "live_holds T e' ?s1 = live_holds T e' ?s" for e' using t(2) by (rule live_holds_drop)
  have uniq: "holds_unique ?s" "holds_unique ?s1" using calm calm1 by (auto simp: calm_def hold_inv_def)
  have floor: "same_floor t0 T ev key w (w\<lparr>w_db := s'\<rparr>)"
    if "calm t0 T ev key s'" "s' = ?s1\<lparr>holds := holds s'\<rparr>" for s'
    using that(1) rt by (subst that(2), subst (asm) that(2)) (simp add: same_floor_def)
  show thesis
  proof (rule acquire_cases [OF calm t, of e x k])
    let ?h = "\<lparr>h_id = next_id ?s, h_eventId = e, h_seatId = x, h_holderKey = k, h_orderId = None,
        h_expiresAt = ?until, h_createdAt = db_now clk\<rparr>"
    let ?w = "w\<lparr>w_db := ?s1\<lparr>holds := holds ?s1 @ [?h]\<rparr>\<rparr>"
    assume free: "find_hold e x ?s1 = None" "\<not> seat_sold x ?s"
      and a: "acquire clk ttl e x k w = (Inr (x, ?until), seatsChanged e (held_change [x]) ?w)"
    have "\<forall>y \<in> set (holds ?s1). h_id y < next_id ?s"
      using calm by (auto simp: calm_def drop_expired_def row_simps)
    then have "calm t0 T ev key (w_db ?w)" using calm_append [OF calm1, of ?h] free t(3) by simp
    from floor [OF this] have "same_floor t0 T ev key w (seatsChanged e (held_change [x]) ?w)"
      using rt_ok_seatsChanged [of ?w e "held_change [x]"] rt
      by (auto simp: same_floor_def pending_batch_seatsChanged apply_change_def held_change_def mark_held_def set_del_def)
    moreover have "L e w x = None"
      unfolding L_def L1 [symmetric] live_holds_None [OF uniq(2)] using free(1)
      by (metis find_hold_None image_eqI)
    ultimately show thesis
      using free t(3) a L1
      by (intro won [of ?h]) (auto simp: L_def live_holds_append pending_batch_seatsChanged apply_change_def held_change_def)
  next
    fix h assume h: "h \<in> set (holds ?s)" "hold_key h = (e, x)" "T < h_expiresAt h" "h_holderKey h = k"
      and a: "acquire clk ttl e x k w = (Inr (x, ?until), w\<lparr>w_db := ?s1\<lparr>holds :=
        update_where (\<lambda>y. y = h) (\<lambda>y. y\<lparr>h_expiresAt := ?until\<rparr>) (holds ?s1)\<rparr>\<rparr>)"
    have h1: "h \<in> set (holds ?s1)" using h t by (auto simp: drop_expired_def row_simps)
    have "L e w x = Some h" using h live_holds_iff [OF uniq(1)] by (auto simp: L_def)
    with a h L1 floor [OF calm_refresh [OF calm1 t(3) h(3)]] show thesis
      by (intro refreshed [of "h\<lparr>h_expiresAt := ?until\<rparr>" "w\<lparr>w_db := ?s1\<lparr>holds :=
          update_where (\<lambda>y. y = h) (\<lambda>y. y\<lparr>h_expiresAt := ?until\<rparr>) (holds ?s1)\<rparr>\<rparr>" h])
        (auto simp: L_def live_holds_refresh [OF uniq(2) h1 t(3) h(3)] hold_key_def)
  next
    fix r w' assume a: "acquire clk ttl e x k w = (Inl r, w')" "w' = w \<or> w' = w\<lparr>w_db := ?s1\<rparr>"
      and c: "status_409 r \<Longrightarrow> seat_sold x ?s \<or>
         (\<exists>h \<in> set (holds ?s). hold_key h = (e, x) \<and> T < h_expiresAt h \<and> h_holderKey h \<noteq> k)"
    have "same_floor t0 T ev key w w'" using a(2) calm rt floor [OF calm1] by (auto simp: same_floor_def)
    with a L1 c show thesis
      by (intro refused [of r w']) (auto simp: L_def live_holds_None [OF uniq(1)] not_le)
  qed
qed

lemma release_effect:
  assumes calm: "calm t0 T ev key (w_db w)" and rt: "rt_ok w"
  obtains
    (nothing_held) "release e x k w = (Inr (), w)"
      "\<And>h. live_holds T e (w_db w) x = Some h \<Longrightarrow> h_holderKey h \<noteq> k \<or> h_orderId h \<noteq> None"
  | (released) w' where "release e x k w = (Inr (), w')" "same_floor t0 T ev key w w'" "\<not> seat_sold x (w_db w)"
      "\<And>h. live_holds T e (w_db w) x = Some h \<Longrightarrow> h_holderKey h = k"
      "\<And>e'. live_holds T e' (w_db w') = (if e' = e then (live_holds T e' (w_db w))(x := None) else live_holds T e' (w_db w))"
      "\<And>e'. pending_batch e' w' = (if e' = e then mark_released x (pending_batch e' w) else pending_batch e' w)"
proof -
  let ?s = "w_db w"
  let ?p = "\<lambda>h. h_eventId h = e \<and> h_seatId h = x \<and> h_holderKey h = k \<and> h_orderId h = None"
  let ?s' = "?s\<lparr>holds := delete_where ?p (holds ?s)\<rparr>"
  have uniq: "holds_unique ?s" "holds_unique ?s'"
    using calm calm_delete [OF calm, of ?p] by (auto simp: calm_def hold_inv_def)
  note live = live_holds_iff [OF uniq(1)] live_holds_iff [OF uniq(2)]
  show thesis
  proof (cases "0 < count_where ?p (holds ?s)")
    case False
    then have "\<not> ?p h" if "h \<in> set (holds ?s)" for h using that by (auto simp: row_simps)
    moreover from False have "release e x k w = (Inr (), w)"
      by (auto simp: release_def req_defs commit_def Let_def row_simps delete_where_id)
    ultimately show thesis using live by (intro nothing_held) (auto simp: hold_key_def)
  next
    case True
    then obtain h where h: "h \<in> set (holds ?s)" "?p h" by (auto simp: row_simps)
    have only: "g = h" if "g \<in> set (holds ?s)" "hold_key g = (e, x)" for g
      using uniq(1) h that distinct_map_key_eq [of hold_key] by (fastforce simp: holds_unique_iff hold_key_def)
    let ?w' = "seatsChanged e (released_change [x]) (w\<lparr>w_db := ?s'\<rparr>)"
    have "live_holds T e' ?s' y = (if e' = e then (live_holds T e' ?s)(x := None) else live_holds T e' ?s) y" for e' y
    proof (cases "e' = e \<and> y = x")
      case True
      then have "?p g" if "live_holds T e' ?s y = Some g" for g
        using live(1) [of T e' y g] only [of g] h(2) that by auto
      with True show ?thesis by (auto simp: live_holds_deleted [OF uniq(1)] split: option.split)
    next
      case False
      then have "\<not> ?p g" if "live_holds T e' ?s y = Some g" for g
        using live(1) [of T e' y g] that by (auto simp: hold_key_def)
      with False show ?thesis by (auto simp: live_holds_deleted [OF uniq(1)] split: option.split)
    qed
    then have "live_holds T e' ?s' = (if e' = e then (live_holds T e' ?s)(x := None) else live_holds T e' ?s)" for e'
      by (intro ext)
    moreover have "same_floor t0 T ev key w ?w'"
      using rt rt_ok_seatsChanged [of "w\<lparr>w_db := ?s'\<rparr>"] calm_delete [OF calm, of ?p]
      by (auto simp: same_floor_def pending_batch_seatsChanged apply_change_def released_change_def
          mark_released_def set_del_def)
    moreover have "release e x k w = (Inr (), ?w')"
      using True by (simp add: release_def req_defs commit_def Let_def)
    moreover have "\<not> seat_sold x ?s" using h calm by (auto simp: calm_def hold_inv_def holds_free_def)
    moreover have "h_holderKey g = k" if "live_holds T e ?s x = Some g" for g
      using live(1) [of T e x g] that only h(2) by auto
    ultimately show thesis
      by (intro released) (auto simp: pending_batch_seatsChanged apply_change_def released_change_def)
  qed
qed

end
