(* ===== verification/Live_Map.thy ===== *)
theory Live_Map
  imports Hold_Effects Service
begin

text \<open>
  The seat picker and the server, run together: whatever this client taps and other clients take or
  release, once the pending changes are flushed the map on the screen is the one the server would
  send. The invariant \<open>synced\<close> says that the rows shown, with the batch still pending applied to
  them, are the server's rows.
\<close>

section \<open>Rows of the client against rows of the server\<close>














section \<open>The client in step with the server\<close>



section \<open>The steps of a run\<close>


lemma map_rows_id [simp]: "map_rows (\<lambda>v. v) p = p"
  by (cases p) (auto simp: map_rows_def option.map_id)


lemma applySeat_id [simp]: "applySeat x (\<lambda>v. v) p = p"
  by (simp add: applySeat_def)










lemma pk_map_frame [simp]:
  "pk_map (toast t p) = pk_map p" "pk_map (refresh_picker p) = pk_map p"
  by (simp_all add: toast_def refresh_picker_def)




section \<open>Requests through the API\<close>







text \<open>
  The server handles a request to take a seat: a client that had answered its own tap with the map as
  it is now, and had the answer at once, would be in step. \<open>taken\<close> is what the answer makes of a row.
\<close>

fun taken :: "error + response \<Rightarrow> seat_view \<Rightarrow> seat_view" where
  "taken (Inl e) v = v\<lparr>v_status := (if status_409 e then Held else Available), v_mine := False\<rparr>"
| "taken (Inr (Hold_body (i, x))) v = v\<lparr>v_status := Held, v_mine := True, v_expiresAt := Some x\<rparr>"
| "taken (Inr _) v = v"

lemma taken_seat [simp]: "v_seat (taken ans v) = v_seat v"
  by (cases "(ans, v)" rule: taken.cases) auto




section \<open>Flushes and the first load\<close>


lemma seat_message_empty [simp]: "seat_message empty_batch v = v"
  by (simp add: seat_message_def empty_batch_def Let_def)

lemma empty_batch_lists [simp]: "b_held empty_batch = []" "b_released empty_batch = []" "b_sold empty_batch = []"
  by (simp_all add: empty_batch_def)

lemma on_empty_message [simp]: "on_seats_message empty_batch p = p"
proof -
  have "seat_message empty_batch = (\<lambda>v. v)" by (rule ext) simp
  then show ?thesis by (simp add: on_seats_message_def)
qed








section \<open>Requests on their way\<close>






section \<open>The rows shown against the rows settled\<close>

















section \<open>Each step keeps the match\<close>





text \<open>The timer fires, and its messages reach both.\<close>

lemma seat_message_seat [simp]: "v_seat (seat_message b v) = v_seat v"
  by (simp add: seat_message_def Let_def)



section \<open>Runs\<close>







section \<open>Properties\<close>


text \<open>
  Two seats, two buyers. The first buyer taps both while the second has just taken seat 11: one request
  is granted, the other refused, a flush comes before the answers and these arrive in the other
  order. Then seat 10 is given back, the second buyer fails to get it in time and gives seat 11 back,
  and the first one takes seat 10 again.
\<close>

definition floor_world :: world where
  "floor_world = demo_world (demo_db\<lparr>events := [demo_event\<lparr>ev_dropMode := False\<rparr>],
     seatMaps := [\<lparr>map_id = 4, map_eventId = 1, map_template = ''grid'', map_meta = None\<rparr>]\<rparr>)"

definition other_request_of :: "string \<Rightarrow> request" where
  "other_request_of k = (day_request None)\<lparr>rq_holdKey := Some k\<rparr>"


definition floor_data :: map_data where
  "floor_data = (case fst (api (day_env 1000) (with_hold_key ''buyer-one'' (day_request None)) (Map_routes 1 Map_get) floor_world) of
     Inr (Map_body loaded) \<Rightarrow> loaded | _ \<Rightarrow> (\<lparr>map_id = 0, map_eventId = 0, map_template = [], map_meta = None\<rparr>, [], []))"

definition floor_start :: "world \<times> seat_picker \<times> flight list" where
  "floor_start = (floor_world, map_loaded 0 (Inr (Map_body floor_data)) start_picker, [])"






text \<open>
  The condition on flushes is needed: a tap is refused since another buyer holds the seat, the seat is
  released, and the flush that says so arrives before the answer. The answer then sets the seat back
  to held, and nothing corrects it: the client shows a seat as held that is free.
\<close>

definition overtaken_day :: "floor_event list" where
  "overtaken_day = [Other (day_env 1000) (other_request_of ''buyer-two'') 1 (Hold_acquire 11), Tapped (day_request None) 11,
     Handled (day_env 1500) 0, Other (day_env 2000) (other_request_of ''buyer-two'') 1 (Hold_release 11), Timer_fires, Answered 0]"

lemma overtaken_tap_stays_wrong:
  "(case fold (floor_step 1 ''buyer-one'') (overtaken_day @ [Timer_fires]) floor_start of (w, p, fs) \<Rightarrow>
     fs = [] \<and> map (\<lambda>v. (s_id (v_seat v), v_status v)) (picker_rows p) = [(10, Available), (11, Held)] \<and>
     (case getForEvent 5000 1 (Some ''buyer-one'') (w_db w) of Inl e \<Rightarrow> False
      | Inr (m, tts, vs) \<Rightarrow> map (\<lambda>v. (s_id (v_seat v), v_status v)) vs = [(10, Available), (11, Available)]))"
  by code_simp

end
