(* ===== verification/Scanner.thy ===== *)
theory Scanner
  imports Service
begin

text \<open>
  The door scanner of the web client: \<^verbatim>\<open>apps/web/src/lib/use-door-scanner.ts\<close> with
  \<^verbatim>\<open>lib/api/checkin.ts\<close>, and a night at the door: several devices scanning against one API. A QR
  token is an identifier of the model; \<open>qr_of\<close> says which one a scanned text stands for.
  \<^verbatim>\<open>submitToken\<close> is split at its \<^verbatim>\<open>await\<close>.
\<close>

datatype scan_tone = Tone_ok | Tone_warn | Tone_err

record feed_entry =
  fe_id :: nat
  fe_time :: string
  fe_tone :: scan_tone
  fe_title :: string
  fe_detail :: string

datatype scan_result = Scan_answer scan_tone string checkin_result | Scan_rejected error

record scanner =
  sc_admittedHere :: nat
  sc_scanning :: bool
  sc_result :: "scan_result option"
  sc_feed :: "feed_entry list"
  sc_busy :: bool
  sc_lastScan :: "(string \<times> millis) option"
  sc_feedId :: nat

definition FEED_LIMIT :: nat where "FEED_LIMIT = 25"
definition REPEAT_SCAN_WINDOW_MS :: millis where "REPEAT_SCAN_WINDOW_MS = 2500"

definition start_scanner :: scanner where
  "start_scanner = \<lparr>sc_admittedHere = 0, sc_scanning = False, sc_result = None, sc_feed = [],
     sc_busy = False, sc_lastScan = None, sc_feedId = 0\<rparr>"

text \<open>\<^verbatim>\<open>Intl.DateTimeFormat\<close> with two digits each, 24 hours, in Bangkok: seven hours ahead, no summer time.\<close>

definition timeNow :: "millis \<Rightarrow> string" where
  "timeNow now = (let r = (now div 1000 + 7 * 3600) mod 86400 in
     pad 2 (nat (r div 3600)) @ '':'' @ pad 2 (nat (r div 60 mod 60)) @ '':'' @ pad 2 (nat (r mod 60)))"

definition pushEntry :: "millis \<Rightarrow> scan_tone \<Rightarrow> string \<Rightarrow> string \<Rightarrow> scanner \<Rightarrow> scanner" where
  "pushEntry now tone title detail s =
     (let i = sc_feedId s + 1 in
      s\<lparr>sc_feedId := i, sc_feed := take FEED_LIMIT
        (\<lparr>fe_id = i, fe_time = timeNow now, fe_tone = tone, fe_title = title, fe_detail = detail\<rparr> # sc_feed s)\<rparr>)"

definition submit_start :: "string \<Rightarrow> millis \<Rightarrow> scanner \<Rightarrow> scanner \<times> string option" where
  "submit_start raw now s =
     (let v = trim raw in
      if v = [] \<or> sc_busy s then (s, None)
      else if (case sc_lastScan s of None \<Rightarrow> False | Some (tok, seen) \<Rightarrow> tok = v \<and> now - seen < REPEAT_SCAN_WINDOW_MS)
        then (s, None)
      else (s\<lparr>sc_lastScan := Some (v, now), sc_busy := True, sc_scanning := True\<rparr>, Some v))"

text \<open>\<^verbatim>\<open>checkInTicket\<close>: \<^verbatim>\<open>{ ok: true, result }\<close> or \<^verbatim>\<open>{ ok: false, message }\<close>, the message being the server's.\<close>

definition checkInTicket :: "error + response \<Rightarrow> error + checkin_result" where
  "checkInTicket ans = (case ans of Inr (Scan_body r) \<Rightarrow> Inr r | Inl e \<Rightarrow> Inl e | _ \<Rightarrow> Inl (Not_found Ticket_not_found))"

definition submit_finish :: "(error \<Rightarrow> string) \<Rightarrow> millis \<Rightarrow> error + checkin_result \<Rightarrow> scanner \<Rightarrow> scanner" where
  "submit_finish message now res s =
     (let s' = (case res of
        Inr r \<Rightarrow>
          let admitted = c_outcome r = Outcome_checked_in;
              tone = (if admitted then Tone_ok else Tone_warn);
              label = (case c_seat r of Some st \<Rightarrow> st | None \<Rightarrow> c_ticketType r);
              counted = (if admitted then s\<lparr>sc_admittedHere := sc_admittedHere s + 1\<rparr> else s)
          in pushEntry now tone (c_attendeeName r)
               (label @ '' '' @ [CHR 0xB7] @ '' '' @ (if admitted then ''admitted'' else ''already in''))
               (counted\<lparr>sc_result := Some (Scan_answer tone (if admitted then ''Admitted'' else ''Already checked in'') r)\<rparr>)
      | Inl e \<Rightarrow> pushEntry now Tone_err ''Rejected'' (message e) (s\<lparr>sc_result := Some (Scan_rejected e)\<rparr>))
      in s'\<lparr>sc_scanning := False, sc_busy := False\<rparr>)"

section \<open>A night at the door\<close>

text \<open>
  A scan on one device, by the device's clock when it is sent and when the answer is there, with the
  request's surroundings; the answer may be lost on its way.
\<close>

datatype door_event = Scan nat millis millis surroundings request string bool

fun answer_lost :: "door_event \<Rightarrow> bool" where
  "answer_lost (Scan d sent_at seen_at env rq raw lost) = lost"

fun door_step :: "(string \<Rightarrow> id) \<Rightarrow> (error \<Rightarrow> string) \<Rightarrow> id \<Rightarrow> door_event \<Rightarrow> world \<times> scanner list \<Rightarrow>
    world \<times> scanner list" where
  "door_step qr_of message ev (Scan d sent_at seen_at env rq raw lost) (w, ds) =
     (if d < length ds then
        let (s, sent) = submit_start raw sent_at (ds ! d) in
        case sent of
          None \<Rightarrow> (w, ds[d := s])
        | Some v \<Rightarrow>
            let (ans, w') = api env rq (Checkin_routes ev (Checkin_scan (qr_of v))) w
            in (w', ds[d := if lost then s else submit_finish message seen_at (checkInTicket ans) s])
      else (w, ds))"

definition checked_in :: "db \<Rightarrow> nat" where
  "checked_in s = count_where (\<lambda>t. t_status t = Checked_in) (tickets s)"

definition admitted_total :: "scanner list \<Rightarrow> nat" where
  "admitted_total ds = sum_list (map sc_admittedHere ds)"

lemma admitted_update: "d < length ds \<Longrightarrow>
    admitted_total (ds[d := s]) + sc_admittedHere (ds ! d) = admitted_total ds + sc_admittedHere s"
  unfolding admitted_total_def by (induction ds arbitrary: d) (auto simp: less_Suc_eq_0_disj)

definition newly_admitted :: "error + checkin_result \<Rightarrow> nat" where
  "newly_admitted res = (case res of Inr r \<Rightarrow> if c_outcome r = Outcome_checked_in then 1 else 0 | Inl _ \<Rightarrow> 0)"

lemma finish_admitted [simp]:
  "sc_admittedHere (submit_finish message now res s) = sc_admittedHere s + newly_admitted res"
  by (auto simp: submit_finish_def pushEntry_def newly_admitted_def Let_def split: sum.split)

lemma start_admitted: "submit_start raw now s = (s', sent) \<Longrightarrow> sc_admittedHere s' = sc_admittedHere s"
  by (auto simp: submit_start_def Let_def split: if_splits)

lemma count_admitted:
  assumes "distinct (map t_id ts)" and "t \<in> set ts" and "t_status t = Issued"
  shows "count_where (\<lambda>t. t_status t = Checked_in) (update_where (admissible (t_id t)) (admit now) ts) =
    Suc (count_where (\<lambda>t. t_status t = Checked_in) ts)"
  using assms
proof (induction ts)
  case (Cons a ts)
  show ?case
  proof (cases "t = a")
    case True
    have "\<not> admissible (t_id a) r" if "r \<in> set ts" for r
    proof -
      have "t_id r \<in> set (map t_id ts)" using that by simp
      moreover have "t_id a \<notin> set (map t_id ts)" using Cons.prems(1) by simp
      ultimately show ?thesis by (metis admissible_def)
    qed
    then have "update_where (admissible (t_id a)) (admit now) ts = ts" by (rule update_where_id)
    moreover have "admissible (t_id a) a" "t_status (admit now a) = Checked_in"
      using True Cons.prems(3) by (simp_all add: admissible_def admit_def)
    ultimately show ?thesis using True Cons.prems(3) by simp
  next
    case False
    with Cons.prems have t: "t \<in> set ts" and "\<not> admissible (t_id t) a" by (auto simp: admissible_def)
    with Cons.IH [OF _ t] Cons.prems show ?thesis by simp
  qed
qed simp

lemma scan_counts:
  assumes "distinct (map t_id (tickets (w_db w)))"
    and "checkIn now ev u qr w = (res, w')"
  shows "distinct (map t_id (tickets (w_db w'))) \<and> checked_in (w_db w') = checked_in (w_db w) + newly_admitted res"
proof (cases "requireEventRole ev u Staff (w_db w)")
  case (Inl e)
  with assms show ?thesis by (auto simp: checkIn_def handler_defs newly_admitted_def)
next
  case role: (Inr r)
  show ?thesis
  proof (cases "lookup_qr ev qr (w_db w)")
    case (Inl e)
    with role assms show ?thesis by (auto simp: checkIn_def handler_defs newly_admitted_def)
  next
    case (Inr t)
    then have "t \<in> set (tickets (w_db w))" by (auto simp: lookup_qr_Inr dest: find_SomeD)
    with assms checkIn_eq [OF role Inr assms(1), of now] count_admitted [OF assms(1), of t now] show ?thesis
      by (auto simp: checked_in_def newly_admitted_def checkin_view_def admit_def split: if_splits)
  qed
qed

lemma door_request:
  assumes "distinct (map t_id (tickets (w_db w)))"
    and "api env rq (Checkin_routes ev (Checkin_scan qr)) w = (ans, w')"
  shows "distinct (map t_id (tickets (w_db w'))) \<and>
    checked_in (w_db w') = checked_in (w_db w) + newly_admitted (checkInTicket ans)"
proof (cases "rq_user rq")
  case None
  with assms show ?thesis
    by (auto simp: jwtAuthGuard_def req_defs newly_admitted_def checkInTicket_def)
next
  case (Some u)
  obtain res w1 where c: "checkIn (app_now (env_clock env)) ev u qr w = (res, w1)" by fastforce
  with assms(2) Some have "w' = w1" "checkInTicket ans = res"
    by (auto simp: jwtAuthGuard_def req_defs answerR_def checkInTicket_def split: sum.splits)
  with scan_counts [OF assms(1) c] show ?thesis by simp
qed

lemma door_step_counts:
  assumes "distinct (map t_id (tickets (w_db w)))" and "door_step qr_of message ev e (w, ds) = (w', ds')"
  shows "distinct (map t_id (tickets (w_db w')))"
    and "admitted_total ds' + checked_in (w_db w) \<le> admitted_total ds + checked_in (w_db w')"
    and "\<not> answer_lost e \<Longrightarrow> admitted_total ds' + checked_in (w_db w) = admitted_total ds + checked_in (w_db w')"
proof -
  obtain d sent_at seen_at env rq raw lost where e: "e = Scan d sent_at seen_at env rq raw lost" by (cases e)
  have *: "distinct (map t_id (tickets (w_db w'))) \<and>
      admitted_total ds' + checked_in (w_db w) \<le> admitted_total ds + checked_in (w_db w') \<and>
      (\<not> lost \<longrightarrow> admitted_total ds' + checked_in (w_db w) = admitted_total ds + checked_in (w_db w'))"
  proof (cases "d < length ds")
    case False
    with assms e show ?thesis by auto
  next
    case True
    obtain s sent where start: "submit_start raw sent_at (ds ! d) = (s, sent)" by fastforce
    note same = start_admitted [OF start] and upd = admitted_update [OF True]
    show ?thesis
    proof (cases sent)
      case None
      with assms e True start same upd [of s] show ?thesis by auto
    next
      case (Some v)
      obtain ans w1 where a: "api env rq (Checkin_routes ev (Checkin_scan (qr_of v))) w = (ans, w1)" by fastforce
      let ?s' = "submit_finish message seen_at (checkInTicket ans) s"
      have "w' = w1" "ds' = ds[d := if lost then s else ?s']"
        using assms(2) e True start Some a by (auto simp del: api.simps)
      with door_request [OF assms(1) a] same upd [of s] upd [of ?s'] show ?thesis by auto
    qed
  qed
  then show "distinct (map t_id (tickets (w_db w')))"
    "admitted_total ds' + checked_in (w_db w) \<le> admitted_total ds + checked_in (w_db w')"
    "\<not> answer_lost e \<Longrightarrow> admitted_total ds' + checked_in (w_db w) = admitted_total ds + checked_in (w_db w')"
    by (simp_all add: e)
qed

lemma door_run_counts:
  assumes "distinct (map t_id (tickets (w_db w)))" and "fold (door_step qr_of message ev) es (w, ds) = (w', ds')"
  shows "admitted_total ds' + checked_in (w_db w) \<le> admitted_total ds + checked_in (w_db w') \<and>
    (list_all (\<lambda>e. \<not> answer_lost e) es \<longrightarrow>
      admitted_total ds' + checked_in (w_db w) = admitted_total ds + checked_in (w_db w'))"
  using assms
proof (induction es arbitrary: w ds)
  case (Cons e es)
  obtain w1 ds1 where s: "door_step qr_of message ev e (w, ds) = (w1, ds1)" by fastforce
  with Cons.prems(2) have "fold (door_step qr_of message ev) es (w1, ds1) = (w', ds')" by simp
  from Cons.IH [OF door_step_counts(1) [OF Cons.prems(1) s] this] door_step_counts(2,3) [OF Cons.prems(1) s]
  show ?case by auto
qed simp

text \<open>A lost answer is the end of a scanner: \<^verbatim>\<open>busyRef\<close> stays set, and every later scan is ignored.\<close>

lemma lost_answer_blocks:
  assumes "submit_start raw now s = (s', Some v)"
  shows "submit_start raw2 now2 s' = (s', None)"
  using assms by (auto simp: submit_start_def Let_def split: if_splits)

section \<open>Properties\<close>

text \<open>
  C22: The counters at the door agree with the tickets. Whatever several devices scan, in any order,
  and whoever holds them, the admissions counted on all of them together are never more than the
  tickets that became checked in, and exactly as many when no answer was lost: a ticket scanned on
  two devices is counted once, a refused one nowhere.
\<close>

theorem door_counts_agree:
  assumes "distinct (map t_id (tickets (w_db w)))"
    and "fold (door_step qr_of message ev) es (w, replicate n start_scanner) = (w', ds)"
  shows "admitted_total ds + checked_in (w_db w) \<le> checked_in (w_db w') \<and>
    (list_all (\<lambda>e. \<not> answer_lost e) es \<longrightarrow> admitted_total ds + checked_in (w_db w) = checked_in (w_db w'))"
  using door_run_counts [OF assms]
  by (simp add: admitted_total_def start_scanner_def sum_list_replicate)

text \<open>Two devices: a ticket admitted on one, refused as already in on the other, a second one admitted there.\<close>

definition door_night :: "door_event list" where
  "door_night = [Scan 0 0 50 (day_env 1000) (day_request (Some 2)) '' 31 '' False,
     Scan 1 100 150 (day_env 1100) (day_request (Some 7)) ''31'' False,
     Scan 1 200 250 (day_env 1200) (day_request (Some 7)) ''31'' False,
     Scan 1 300 350 (day_env 1300) (day_request (Some 7)) ''33'' False,
     Scan 0 400 450 (day_env 1400) (day_request None) ''33'' False]"

definition door_qr :: "string \<Rightarrow> id" where
  "door_qr x = (if x = ''31'' then 31 else 33)"

definition door_run :: "world \<times> scanner list" where
  "door_run = fold (door_step door_qr (\<lambda>_. ''no'') 1) door_night
     (demo_world paid_db, replicate 2 start_scanner)"

theorem door_counts_agree_witness:
  "admitted_total (snd door_run) + checked_in paid_db = checked_in (w_db (fst door_run)) \<and>
    map sc_admittedHere (snd door_run) = [1, 1] \<and> checked_in (w_db (fst door_run)) = 2"
proof (intro conjI)
  have "distinct (map t_id (tickets (w_db (demo_world paid_db))))" "list_all (\<lambda>e. \<not> answer_lost e) door_night"
    by code_simp+
  with door_counts_agree [OF this(1), of door_qr "\<lambda>_. ''no''" 1 door_night 2 "fst door_run" "snd door_run"]
  show "admitted_total (snd door_run) + checked_in paid_db = checked_in (w_db (fst door_run))"
    by (simp add: door_run_def demo_world_def)
  show "map sc_admittedHere (snd door_run) = [1, 1]" "checked_in (w_db (fst door_run)) = 2" by code_simp+
qed

end
