(* ===== verification/Client_Session.thy ===== *)
theory Client_Session
  imports Service
begin

text \<open>
  The web client's session: \<^verbatim>\<open>apps/web/src/lib/api/client.ts\<close>, \<^verbatim>\<open>lib/api/graphql.ts\<close>,
  \<^verbatim>\<open>lib/api/admission.ts\<close> and \<^verbatim>\<open>components/auth-provider.tsx\<close>. Many callers may ask for a refresh at
  once; \<open>refreshInFlight\<close> makes them share one request, which matters because the API takes a second
  use of one refresh token for theft. The network is a list of requests on their way, each with the
  cookie it carries; the browser stores the new cookie when the answer arrives.
\<close>

section \<open>Requests\<close>

datatype caller = On_mount | On_interval | On_retry nat | On_graphql nat

type_synonym client_session = "public_user \<times> auth_tokens"

record fetch =
  ft_cookie :: "string option"
  ft_waiters :: "caller list"
  ft_answer :: "(error + client_session) option"

record browser =
  br_accessToken :: "string option"
  br_cookie :: "string option"
  br_refreshInFlight :: bool
  br_network :: "fetch list"
  br_user :: "public_user option"
  br_loading :: bool
  br_results :: "(caller \<times> client_session option) list"

definition start_browser :: "string option \<Rightarrow> browser" where
  "start_browser cookie = \<lparr>br_accessToken = None, br_cookie = cookie, br_refreshInFlight = False,
     br_network = [], br_user = None, br_loading = True, br_results = []\<rparr>"

definition wait_for_last :: "caller \<Rightarrow> fetch list \<Rightarrow> fetch list" where
  "wait_for_last c fs = (case rev fs of [] \<Rightarrow> [] | f # gs \<Rightarrow> rev gs @ [f\<lparr>ft_waiters := ft_waiters f @ [c]\<rparr>])"

definition refreshSession :: "caller \<Rightarrow> browser \<Rightarrow> browser" where
  "refreshSession c b =
     (if br_refreshInFlight b then b\<lparr>br_network := wait_for_last c (br_network b)\<rparr>
      else b\<lparr>br_refreshInFlight := True, br_network := br_network b @
        [\<lparr>ft_cookie = br_cookie b, ft_waiters = [c], ft_answer = None\<rparr>]\<rparr>)"

text \<open>\<^verbatim>\<open>applySession\<close>, and what the callers do with what they are given.\<close>

definition applySession :: "client_session option \<Rightarrow> browser \<Rightarrow> browser" where
  "applySession s b = b\<lparr>br_accessToken := map_option (\<lambda>(u, tk). at_accessToken tk) s, br_user := map_option fst s\<rparr>"

fun resume :: "client_session option \<Rightarrow> caller \<Rightarrow> browser \<Rightarrow> browser" where
  "resume s On_mount b = (applySession s b)\<lparr>br_loading := False\<rparr>"
| "resume s On_interval b = (if s = None then b else applySession s b)"
| "resume s (On_retry n) b = b"
| "resume s (On_graphql n) b = b"

text \<open>The \<^verbatim>\<open>then\<close>, \<^verbatim>\<open>catch\<close> and \<^verbatim>\<open>finally\<close> of the fetch; no answer at all is a failed fetch.\<close>

definition settle :: "fetch \<Rightarrow> browser \<Rightarrow> browser" where
  "settle f b =
     (let b1 = (case ft_answer f of
        None \<Rightarrow> b
      | Some (Inl e) \<Rightarrow> b\<lparr>br_accessToken := None\<rparr>
      | Some (Inr (u, tk)) \<Rightarrow> b\<lparr>br_accessToken := Some (at_accessToken tk), br_cookie := Some (at_refreshToken tk)\<rparr>);
          s = (case ft_answer f of Some (Inr s) \<Rightarrow> Some s | _ \<Rightarrow> None)
      in fold (resume s) (ft_waiters f)
           (b1\<lparr>br_refreshInFlight := False, br_results := br_results b @ map (\<lambda>c. (c, s)) (ft_waiters f)\<rparr>))"

section \<open>The middleware\<close>

record http_request =
  hr_method :: string
  hr_path :: string
  hr_bearer :: "string option"
  hr_admission :: "string option"
  hr_holdKey :: "string option"

definition auth_onRequest :: "string option \<Rightarrow> http_request \<Rightarrow> http_request" where
  "auth_onRequest token rq = (if truthy token then rq\<lparr>hr_bearer := token\<rparr> else rq)"

text \<open>Whether an answer makes the middleware refresh the session and ask again.\<close>

definition retries :: "bool \<Rightarrow> nat \<Rightarrow> http_request \<Rightarrow> bool" where
  "retries isServer status rq \<longleftrightarrow> \<not> (isServer \<or> status \<noteq> 401 \<or> hr_method rq \<noteq> ''GET'' \<or>
     take 10 (hr_path rq) = ''/api/auth/'')"

definition retried_request :: "client_session \<Rightarrow> http_request \<Rightarrow> http_request" where
  "retried_request s rq = \<lparr>hr_method = ''GET'', hr_path = hr_path rq, hr_bearer = Some (at_accessToken (snd s)),
     hr_admission = None, hr_holdKey = None\<rparr>"

text \<open>\<^verbatim>\<open>/^\/api\/events\/([^/]+)\/(seat-map|holds|orders)/\<close>.\<close>

definition begins :: "string \<Rightarrow> string \<Rightarrow> bool" where
  "begins p s \<longleftrightarrow> take (length p) s = p"

definition admission_match :: "string \<Rightarrow> string option" where
  "admission_match path =
     (case split_on (CHR ''/'') path of
        a # b # c # ev # seg # rest \<Rightarrow>
          if a = [] \<and> b = ''api'' \<and> c = ''events'' \<and> ev \<noteq> [] \<and>
             (begins ''seat-map'' seg \<or> begins ''holds'' seg \<or> begins ''orders'' seg) then Some ev else None
      | _ \<Rightarrow> None)"

definition admission_onRequest :: "bool \<Rightarrow> (string \<Rightarrow> string option) \<Rightarrow> http_request \<Rightarrow> http_request" where
  "admission_onRequest isServer stored rq =
     (if isServer then rq
      else case admission_match (hr_path rq) of
        None \<Rightarrow> rq
      | Some ev \<Rightarrow> if truthy (stored ev) then rq\<lparr>hr_admission := stored ev\<rparr> else rq)"

datatype error_body = No_message | One_message string | Messages "string list"

fun apiErrorMessage :: "error_body \<Rightarrow> string \<Rightarrow> string" where
  "apiErrorMessage No_message fallback = fallback"
| "apiErrorMessage (One_message m) fallback = m"
| "apiErrorMessage (Messages ms) fallback = (case ms of [] \<Rightarrow> fallback | m # _ \<Rightarrow> m)"

text \<open>\<^verbatim>\<open>isAdmissionValid\<close>: the claims of the second part, read without the signature.\<close>

definition isAdmissionValid :: "(string \<Rightarrow> admission_claims option) \<Rightarrow> millis \<Rightarrow> string option \<Rightarrow> bool" where
  "isAdmissionValid claims_of now token \<longleftrightarrow> truthy token \<and>
     (case split_on (CHR ''.'') (the token) of
        [header, payload, signature] \<Rightarrow>
          (case claims_of payload of
             None \<Rightarrow> False
           | Some c \<Rightarrow> (case ac_exp c of None \<Rightarrow> False | Some x \<Rightarrow> x \<noteq> 0 \<and> now < 1000 * x))
      | _ \<Rightarrow> False)"

text \<open>What the guard admits, the client does not throw away.\<close>

lemma admitted_is_valid:
  "verifyAdmissionToken hmac claims_of secret token ev now \<Longrightarrow> token \<noteq> [] \<Longrightarrow>
     isAdmissionValid claims_of now (Some token)"
  by (auto simp: verifyAdmissionToken_def isAdmissionValid_def truthy_def split: list.splits option.splits if_splits)

section \<open>GraphQL\<close>

record graphql_error =
  ge_message :: string
  ge_code :: "string option"

record 'a graphql_response =
  gr_data :: "'a option"
  gr_errors :: "graphql_error list"

definition isUnauthenticated :: "graphql_error list \<Rightarrow> bool" where
  "isUnauthenticated es \<longleftrightarrow> list_ex (\<lambda>e. ge_code e = Some ''UNAUTHENTICATED'' \<or> ge_message e = ''Unauthorized'') es"

definition contains_text :: "string \<Rightarrow> string \<Rightarrow> bool" where
  "contains_text p s \<longleftrightarrow> list_ex (\<lambda>i. begins p (drop i s)) [0..<Suc (length s)]"

definition isForbiddenError :: "graphql_error list \<Rightarrow> bool" where
  "isForbiddenError es \<longleftrightarrow>
     list_ex (\<lambda>e. ge_code e = Some ''FORBIDDEN'' \<or> contains_text ''does not allow'' (to_lower (ge_message e))) es"

definition isNotFoundError :: "graphql_error list \<Rightarrow> bool" where
  "isNotFoundError es \<longleftrightarrow>
     list_ex (\<lambda>e. ge_code e = Some ''NOT_FOUND'' \<or> contains_text ''not found'' (to_lower (ge_message e))) es"

text \<open>\<open>send\<close> answers the query for an access token; \<open>refreshed\<close> is what \<open>refreshSession\<close> gives.\<close>

definition gqlRequest :: "(string option \<Rightarrow> 'a graphql_response) \<Rightarrow> string option \<Rightarrow> client_session option \<Rightarrow>
    graphql_error list + 'a" where
  "gqlRequest send token refreshed =
     (let first = send token;
          body = (if isUnauthenticated (gr_errors first) then
                    (case refreshed of None \<Rightarrow> first | Some s \<Rightarrow> send (Some (at_accessToken (snd s)))) else first)
      in if gr_errors body \<noteq> [] then Inl (gr_errors body)
         else case gr_data body of None \<Rightarrow> Inl [\<lparr>ge_message = ''No data returned'', ge_code = None\<rparr>] | Some d \<Rightarrow> Inr d)"

section \<open>The browser and the API\<close>

datatype session_event =
    Refresh_called caller
  | Refresh_handled nat surroundings
  | Refresh_arrived nat
  | Refresh_lost nat

definition carries :: "string option \<Rightarrow> request" where
  "carries cookie = \<lparr>rq_user = None, rq_holdKey = None, rq_idempotencyKey = None, rq_admission = None, rq_cookie = cookie\<rparr>"

definition handle_fetch :: "surroundings \<Rightarrow> fetch \<Rightarrow> world \<Rightarrow> fetch \<times> world" where
  "handle_fetch env f w =
     (case api env (carries (ft_cookie f)) (Auth_routes Auth_refresh) w of
        (Inr (Session_body s), w') \<Rightarrow> (f\<lparr>ft_answer := Some (Inr s)\<rparr>, w')
      | (Inr _, w') \<Rightarrow> (f, w')
      | (Inl e, w') \<Rightarrow> (f\<lparr>ft_answer := Some (Inl e)\<rparr>, w'))"

fun session_step :: "session_event \<Rightarrow> browser \<times> world \<Rightarrow> browser \<times> world" where
  "session_step (Refresh_called c) (b, w) = (refreshSession c b, w)"
| "session_step (Refresh_handled k env) (b, w) =
     (if k < length (br_network b) \<and> ft_answer (br_network b ! k) = None then
        (let (f, w') = handle_fetch env (br_network b ! k) w in (b\<lparr>br_network := (br_network b)[k := f]\<rparr>, w'))
      else (b, w))"
| "session_step (Refresh_arrived k) (b, w) =
     (if k < length (br_network b) \<and> ft_answer (br_network b ! k) \<noteq> None then
        (settle (br_network b ! k) (b\<lparr>br_network := without k (br_network b)\<rparr>), w)
      else (b, w))"
| "session_step (Refresh_lost k) (b, w) =
     (if k < length (br_network b) then
        (settle ((br_network b ! k)\<lparr>ft_answer := None\<rparr>) (b\<lparr>br_network := without k (br_network b)\<rparr>), w)
      else (b, w))"

section \<open>A cookie that works\<close>

definition live_token :: "crypto \<Rightarrow> millis \<Rightarrow> string \<Rightarrow> db \<Rightarrow> bool" where
  "live_token cy T c s \<longleftrightarrow> c \<noteq> [] \<and> (case find_token (sha cy c) s of
     None \<Rightarrow> False
   | Some r \<Rightarrow> rt_revokedAt r = None \<and> T \<le> rt_expiresAt r \<and> find_user (rt_userId r) s \<noteq> None)"

definition token_hashes :: "db \<Rightarrow> string list" where
  "token_hashes s = map rt_tokenHash (refreshTokens s)"

lemma rotate_live:
  assumes live: "live_token cy T c (w_db w)" and now: "now \<le> T" "T \<le> now + refreshTtlMs cy"
    and fresh: "token \<noteq> []" "sha cy token \<notin> set (token_hashes (w_db w))"
  obtains u tk w' where "rotateRefreshToken cy now token c w = (Inr (u, tk), w')" and "at_refreshToken tk = token"
    and "live_token cy T token (w_db w')" and "token_hashes (w_db w') = token_hashes (w_db w) @ [sha cy token]"
proof -
  let ?s = "w_db w"
  obtain r u where r: "find_token (sha cy c) ?s = Some r" "rt_revokedAt r = None" "T \<le> rt_expiresAt r"
    and u: "find_user (rt_userId r) ?s = Some u"
    using live by (auto simp: live_token_def split: option.splits)
  have id: "u_id u = rt_userId r" using u by (auto simp: find_user_def dest: find_SomeD)
  let ?rows = "update_where (\<lambda>q. rt_id q = rt_id r) (\<lambda>q. q\<lparr>rt_revokedAt := Some now\<rparr>) (refreshTokens ?s) @
    [\<lparr>rt_id = next_id ?s, rt_userId = u_id u, rt_tokenHash = sha cy token,
      rt_expiresAt = now + refreshTtlMs cy, rt_revokedAt = None\<rparr>]"
  let ?s' = "?s\<lparr>next_id := Suc (next_id ?s), refreshTokens := ?rows\<rparr>"
  have hashes: "token_hashes ?s' = token_hashes ?s @ [sha cy token]" by (simp add: token_hashes_def)
  have run: "fst (rotateRefreshToken cy now token c w) = Inr (toPublicUser u,
        \<lparr>at_accessToken = sign_jwt cy (u_id u) (u_email u), at_refreshToken = token,
         at_refreshExpiresAt = now + refreshTtlMs cy\<rparr>) \<and>
      w_db (snd (rotateRefreshToken cy now token c w)) = ?s'"
    using r u now fresh
    by (auto simp: rotateRefreshToken_def rotate_finish_def session_def issueTokens_def handler_defs Let_def
        revoke_where_def writeT_def insert_refresh_token_def bindT_def fresh_id_def token_hashes_def row_simps image_image)
  have "List.find (\<lambda>q. rt_tokenHash q = sha cy token) (refreshTokens ?s) = None"
    using fresh(2) by (force simp: find_None_iff token_hashes_def)
  then have "find_token (sha cy token) ?s' = Some \<lparr>rt_id = next_id ?s, rt_userId = u_id u,
      rt_tokenHash = sha cy token, rt_expiresAt = now + refreshTtlMs cy, rt_revokedAt = None\<rparr>"
    by (simp add: find_token_def find_append find_update_where)
  then have "live_token cy T token ?s'"
    using u id now fresh(1) by (simp add: live_token_def find_user_def)
  with run hashes show thesis
    by (intro that [OF prod_eqI]) auto
qed

section \<open>One request at a time\<close>

fun handled_by :: "session_event \<Rightarrow> surroundings list" where
  "handled_by (Refresh_handled k env) = [env]"
| "handled_by _ = []"

fun refresh_ok :: "crypto \<Rightarrow> millis \<Rightarrow> millis \<Rightarrow> session_event \<Rightarrow> bool" where
  "refresh_ok cy t0 T (Refresh_handled k env) = (env_crypto env = cy \<and> env_random env \<noteq> [] \<and>
     t0 \<le> app_now (env_clock env) \<and> app_now (env_clock env) \<le> T \<and> T \<le> t0 + refreshTtlMs cy)"
| "refresh_ok cy t0 T (Refresh_lost k) = False"
| "refresh_ok cy t0 T _ = True"

definition new_hashes :: "crypto \<Rightarrow> session_event list \<Rightarrow> string list" where
  "new_hashes cy es = map (\<lambda>env. sha cy (env_random env)) (concat (map handled_by es))"

text \<open>
  What holds between any two events: at most one request is on its way; it carries the cookie, or its
  answer brings the next one; and that token works.
\<close>

definition one_at_a_time :: "crypto \<Rightarrow> millis \<Rightarrow> browser \<Rightarrow> world \<Rightarrow> bool" where
  "one_at_a_time cy T b w \<longleftrightarrow> list_all (\<lambda>(x, s). s \<noteq> None) (br_results b) \<and>
     (\<exists>c. live_token cy T c (w_db w) \<and>
       (br_network b = [] \<and> \<not> br_refreshInFlight b \<and> br_cookie b = Some c \<or>
        (\<exists>f. br_network b = [f] \<and> br_refreshInFlight b \<and>
          (ft_answer f = None \<and> ft_cookie f = Some c \<or>
           (\<exists>u tk. ft_answer f = Some (Inr (u, tk)) \<and> at_refreshToken tk = c)))))"

lemma resume_frame [simp]:
  "br_cookie (resume s c b) = br_cookie b" "br_network (resume s c b) = br_network b"
  "br_refreshInFlight (resume s c b) = br_refreshInFlight b" "br_results (resume s c b) = br_results b"
  by (cases c; simp add: applySession_def)+

lemma resume_all_frame [simp]:
  "br_cookie (fold (resume s) cs b) = br_cookie b" "br_network (fold (resume s) cs b) = br_network b"
  "br_refreshInFlight (fold (resume s) cs b) = br_refreshInFlight b" "br_results (fold (resume s) cs b) = br_results b"
  by (induction cs arbitrary: b) auto

lemma called_one: "one_at_a_time cy T b w \<Longrightarrow> one_at_a_time cy T (refreshSession x b) w"
  by (fastforce simp: one_at_a_time_def refreshSession_def wait_for_last_def)

lemma arrived_one:
  assumes "one_at_a_time cy T b w" and "k < length (br_network b)" and "ft_answer (br_network b ! k) \<noteq> None"
  shows "one_at_a_time cy T (settle (br_network b ! k) (b\<lparr>br_network := without k (br_network b)\<rparr>)) w"
  using assms by (auto simp: one_at_a_time_def settle_def without_def Let_def list_all_iff)

lemma handle_fetch_eq:
  assumes "ft_cookie f = Some c" and "c \<noteq> []"
    and "rotateRefreshToken (env_crypto env) (app_now (env_clock env)) (env_random env) c w = (Inr s, w')"
  shows "handle_fetch env f w = (f\<lparr>ft_answer := Some (Inr s)\<rparr>, w')"
  using assms by (simp add: handle_fetch_def carries_def answerR_def req_defs refresh_request_def)

lemma handled_one:
  assumes one: "one_at_a_time cy T b w" and ok: "refresh_ok cy t0 T (Refresh_handled k env)"
    and fresh: "sha cy (env_random env) \<notin> set (token_hashes (w_db w))"
    and s: "session_step (Refresh_handled k env) (b, w) = (b', w')"
  shows "one_at_a_time cy T b' w' \<and> set (token_hashes (w_db w')) \<subseteq> insert (sha cy (env_random env)) (set (token_hashes (w_db w)))"
proof (cases "k < length (br_network b) \<and> ft_answer (br_network b ! k) = None")
  case False
  with one s show ?thesis by auto
next
  case True
  with one obtain c f where live: "live_token cy T c (w_db w)" and net: "br_network b = [f]" "k = 0"
    and f: "ft_answer f = None" "ft_cookie f = Some c" and fl: "br_refreshInFlight b"
    by (auto simp: one_at_a_time_def)
  have now: "app_now (env_clock env) \<le> T" "T \<le> app_now (env_clock env) + refreshTtlMs cy" "env_random env \<noteq> []"
    and cy: "env_crypto env = cy" using ok by auto
  obtain u tk w1 where rot: "rotateRefreshToken cy (app_now (env_clock env)) (env_random env) c w = (Inr (u, tk), w1)"
    and tk: "at_refreshToken tk = env_random env" "live_token cy T (env_random env) (w_db w1)"
      "token_hashes (w_db w1) = token_hashes (w_db w) @ [sha cy (env_random env)]"
    by (rule rotate_live [OF live now(1,2,3) fresh])
  have "c \<noteq> []" using live by (simp add: live_token_def)
  note handle_fetch_eq [OF f(2) this, of env w "(u, tk)" w1, unfolded cy, OF rot]
  with s True net have "b' = b\<lparr>br_network := [f\<lparr>ft_answer := Some (Inr (u, tk))\<rparr>]\<rparr>" "w' = w1" by auto
  with one tk fl show ?thesis by (auto simp: one_at_a_time_def)
qed

lemma run_one:
  assumes "one_at_a_time cy T b w" and "list_all (refresh_ok cy t0 T) es" and "distinct (new_hashes cy es)"
    and "set (new_hashes cy es) \<inter> set (token_hashes (w_db w)) = {}" and "fold session_step es (b, w) = (b', w')"
  shows "one_at_a_time cy T b' w'"
  using assms
proof (induction es arbitrary: b w)
  case (Cons e es)
  obtain b1 w1 where s: "session_step e (b, w) = (b1, w1)" by fastforce
  have "one_at_a_time cy T b1 w1 \<and> set (new_hashes cy es) \<inter> set (token_hashes (w_db w1)) = {}"
  proof (cases e)
    case (Refresh_called x)
    with Cons.prems s called_one show ?thesis by (auto simp: new_hashes_def)
  next
    case (Refresh_handled k env)
    then have "new_hashes cy (e # es) = sha cy (env_random env) # new_hashes cy es" by (simp add: new_hashes_def)
    with handled_one [OF Cons.prems(1), of t0 k env b1 w1] Cons.prems(2-4) s Refresh_handled show ?thesis
      by (simp del: session_step.simps refresh_ok.simps) blast
  next
    case (Refresh_arrived k)
    with Cons.prems s arrived_one show ?thesis by (auto simp: new_hashes_def split: if_splits)
  next
    case (Refresh_lost k)
    with Cons.prems(2) show ?thesis by simp
  qed
  moreover have "distinct (new_hashes cy es)" using Cons.prems(3) by (simp add: new_hashes_def)
  ultimately show ?case using Cons.IH [of b1 w1] Cons.prems(2,5) s by simp
qed simp

text \<open>
  Why it matters that an answer arrives: after a rotation whose answer was lost the browser still has
  the old cookie, and the next refresh is taken for a theft.
\<close>

lemma lost_answer_logs_out:
  assumes "rotateRefreshToken cy now token c w = (Inr s, w1)"
  shows "\<exists>w2. rotateRefreshToken cy now2 token2 c w1 = (Inl (Unauthorized Reuse_detected), w2) \<and>
    list_all (\<lambda>q. rt_userId q \<noteq> pu_id (fst s) \<or> rt_revokedAt q \<noteq> None) (refreshTokens (w_db w2))"
  using rotate_again [OF assms, of now2 token2] by (fastforce simp: list_all_iff)

section \<open>Properties\<close>

text \<open>
  C24: The client never trips the API's theft detection by itself. From a browser whose cookie works,
  however many callers ask for a refresh, however their calls, the API's handling and the arrival of
  answers interleave, there is never more than one refresh request on its way; every caller that was
  answered has got a session; and when none is on its way the cookie in the browser works. (Answers
  arrive, random tokens are fresh, and the time looked at is at most the life of a token.)
\<close>

theorem one_refresh_at_a_time:
  assumes "live_token cy T c (w_db w)" and "list_all (refresh_ok cy t0 T) es" and "distinct (new_hashes cy es)"
    and "set (new_hashes cy es) \<inter> set (token_hashes (w_db w)) = {}"
    and "(b', w') = fold session_step es (start_browser (Some c), w)"
  shows "length (br_network b') \<le> 1 \<and> list_all (\<lambda>(x, s). s \<noteq> None) (br_results b') \<and>
    (br_network b' \<noteq> [] \<or> (\<exists>c'. br_cookie b' = Some c' \<and> live_token cy T c' (w_db w')))"
proof -
  have "one_at_a_time cy T (start_browser (Some c)) w"
    using assms(1) by (auto simp: one_at_a_time_def start_browser_def)
  from run_one [OF this assms(2-4) assms(5) [symmetric]] show ?thesis by (auto simp: one_at_a_time_def)
qed

text \<open>Three callers at once, then a fourth: two rotations.\<close>

definition token_env :: "millis \<Rightarrow> string \<Rightarrow> surroundings" where
  "token_env now t = (day_env now)\<lparr>env_random := t\<rparr>"

definition busy_session :: "session_event list" where
  "busy_session = [Refresh_called On_mount, Refresh_called (On_graphql 1), Refresh_handled 0 (token_env 1000 ''two''),
     Refresh_called (On_retry 2), Refresh_arrived 0, Refresh_called On_interval,
     Refresh_handled 0 (token_env 2000 ''three''), Refresh_arrived 0]"

definition busy_run :: "browser \<times> world" where
  "busy_run = fold session_step busy_session (start_browser (Some ''one''), demo_world demo_token_db)"

lemma busy_run_eq: "(fst busy_run, snd busy_run) =
    fold session_step busy_session (start_browser (Some ''one''), demo_world demo_token_db)"
  by (simp add: busy_run_def)

lemma busy_facts:
  "live_token demo_crypto 9000 ''one'' (w_db (demo_world demo_token_db))"
  "distinct (new_hashes demo_crypto busy_session)"
  "set (new_hashes demo_crypto busy_session) \<inter> set (token_hashes (w_db (demo_world demo_token_db))) = {}"
  "br_network (fst busy_run) = [] \<and> br_cookie (fst busy_run) = Some ''three'' \<and>
    map fst (br_results (fst busy_run)) = [On_mount, On_graphql 1, On_retry 2, On_interval]"
  by code_simp+

lemma busy_ok: "list_all (refresh_ok demo_crypto 1000 9000) busy_session"
  by (simp add: busy_session_def token_env_def day_env_def refreshTtlMs_def DEFAULT_REFRESH_TTL_DAYS_def
      demo_crypto_def)

theorem one_refresh_at_a_time_witness:
  "length (br_network (fst busy_run)) \<le> 1 \<and> list_all (\<lambda>(x, s). s \<noteq> None) (br_results (fst busy_run)) \<and>
    br_cookie (fst busy_run) = Some ''three'' \<and> live_token demo_crypto 9000 ''three'' (w_db (snd busy_run)) \<and>
    map fst (br_results (fst busy_run)) = [On_mount, On_graphql 1, On_retry 2, On_interval]"
  using one_refresh_at_a_time [OF busy_facts(1) busy_ok busy_facts(2,3) busy_run_eq] busy_facts(4) by simp

end
