(* ===== verification/Console.thy ===== *)
theory Console
  imports Client_Session Seat_Picker
begin

text \<open>
  The organizer's console in the web client: \<^verbatim>\<open>lib/use-console-gate.ts\<close>, the loading state every
  console page sits behind; \<^verbatim>\<open>lib/use-event-console.ts\<close>, publishing and quantities; the orders page
  with its two-click refunds, \<^verbatim>\<open>app/organizer/events/[id]/orders/page.tsx\<close>; and
  \<^verbatim>\<open>app/organizer/events/[id]/team-panel.tsx\<close>. Handlers are split at their \<^verbatim>\<open>await\<close>s; an answer of
  \<open>None\<close> is a request that failed on the network.
\<close>

section \<open>The gate of a console page\<close>

datatype gate_state = Gate_loading | Gate_ready | Gate_forbidden | Gate_missing | Gate_error

datatype load_error = Graphql_errors "graphql_error list" | Other_error

record 'a console_gate =
  cg_state :: gate_state
  cg_data :: "'a option"
  cg_reloadKey :: nat

definition start_gate :: "'a console_gate" where
  "start_gate = \<lparr>cg_state = Gate_loading, cg_data = None, cg_reloadKey = 0\<rparr>"

definition gate_reload :: "'a console_gate \<Rightarrow> 'a console_gate" where
  "gate_reload g = g\<lparr>cg_state := Gate_loading, cg_reloadKey := cg_reloadKey g + 1\<rparr>"

text \<open>What the effect does once the session is known: redirect to the login, or load.\<close>

datatype gate_effect = Gate_waits | Gate_redirects string | Gate_loads nat

definition gate_effect :: "string \<Rightarrow> bool \<Rightarrow> public_user option \<Rightarrow> 'a console_gate \<Rightarrow> gate_effect" where
  "gate_effect next_page auth_loading user g =
     (if auth_loading then Gate_waits
      else if user = None then Gate_redirects next_page
      else Gate_loads (cg_reloadKey g))"

definition load_forbidden :: "load_error \<Rightarrow> bool" where
  "load_forbidden e = (case e of Graphql_errors es \<Rightarrow> isForbiddenError es | Other_error \<Rightarrow> False)"

definition load_missing :: "load_error \<Rightarrow> bool" where
  "load_missing e = (case e of Graphql_errors es \<Rightarrow> isNotFoundError es | Other_error \<Rightarrow> False)"

text \<open>
  The outcome of the load started under reload key \<open>k\<close>; the second component says that the page is
  asked whether it sends the user elsewhere, whose answer \<open>gate_asked\<close> takes.
\<close>

definition gate_loaded :: "nat \<Rightarrow> bool \<Rightarrow> load_error + 'a \<Rightarrow> 'a console_gate \<Rightarrow> 'a console_gate \<times> bool" where
  "gate_loaded k has_onForbidden res g =
     (if k \<noteq> cg_reloadKey g then (g, False)
      else case res of
        Inr d \<Rightarrow> (g\<lparr>cg_data := Some d, cg_state := Gate_ready\<rparr>, False)
      | Inl e \<Rightarrow>
          if load_forbidden e then (if has_onForbidden then (g, True) else (g\<lparr>cg_state := Gate_forbidden\<rparr>, False))
          else (g\<lparr>cg_state := (if load_missing e then Gate_missing else Gate_error)\<rparr>, False))"

definition gate_asked :: "nat \<Rightarrow> bool \<Rightarrow> 'a console_gate \<Rightarrow> 'a console_gate" where
  "gate_asked k redirected g =
     (if redirected \<or> k \<noteq> cg_reloadKey g then g else g\<lparr>cg_state := Gate_forbidden\<rparr>)"

text \<open>Data is only ever shown for a load that succeeded, and a stale answer changes nothing.\<close>

definition gate_ok :: "'a console_gate \<Rightarrow> bool" where
  "gate_ok g \<longleftrightarrow> (cg_state g = Gate_ready \<longrightarrow> cg_data g \<noteq> None)"

lemma gate_keeps_ok:
  "gate_ok start_gate" "gate_ok g \<Longrightarrow> gate_ok (gate_reload g)"
  "gate_ok g \<Longrightarrow> gate_ok (fst (gate_loaded k f res g))" "gate_ok g \<Longrightarrow> gate_ok (gate_asked k b g)"
  by (auto simp: gate_ok_def start_gate_def gate_reload_def gate_loaded_def gate_asked_def split: sum.splits)

lemma stale_answer_ignored: "k \<noteq> cg_reloadKey g \<Longrightarrow> gate_loaded k f res g = (g, False) \<and> gate_asked k b g = g"
  by (simp add: gate_loaded_def gate_asked_def)

section \<open>The event console\<close>

type_synonym console_data = "event_dashboard \<times> map_data option"

record event_console =
  ek_gate :: "console_data console_gate"
  ek_busy :: bool
  ek_exporting :: bool
  ek_quantityEdits :: "(id \<times> int) list"
  ek_toasts :: "string list"

definition console_toast :: "string \<Rightarrow> event_console \<Rightarrow> event_console" where
  "console_toast m c = c\<lparr>ek_toasts := ek_toasts c @ [m]\<rparr>"

text \<open>\<^verbatim>\<open>load\<close>: the dashboard, and for a seated event the map; a refused map is no map.\<close>

definition needs_map :: "event_dashboard \<Rightarrow> bool" where
  "needs_map dash = ec_seated (ed_card dash)"

definition console_load :: "event_dashboard \<Rightarrow> (error + response) \<Rightarrow> console_data" where
  "console_load dash ans =
     (dash, if needs_map dash then (case ans of Inr (Map_body m) \<Rightarrow> Some m | _ \<Rightarrow> None) else None)"

text \<open>Staff members are sent to the door instead of the console they may not see.\<close>

definition sendStaffToTheDoor :: "(error + response) option \<Rightarrow> bool" where
  "sendStaffToTheDoor ans = (case ans of Some (Inr (Summary_body (e, sold, inside, role))) \<Rightarrow> role = Staff | _ \<Rightarrow> False)"

definition quantities :: "event_console \<Rightarrow> (id \<times> int) list" where
  "quantities c =
     (case cg_data (ek_gate c) of
        None \<Rightarrow> []
      | Some (dash, m) \<Rightarrow> map (\<lambda>tt. (tt_id tt, case map_of (ek_quantityEdits c) (tt_id tt) of
           Some n \<Rightarrow> n | None \<Rightarrow> tt_quantity tt)) (map ts_type (ed_tiers dash)))"

definition setQuantity :: "id \<Rightarrow> int \<Rightarrow> event_console \<Rightarrow> event_console" where
  "setQuantity i n c = c\<lparr>ek_quantityEdits := AList.update i n (ek_quantityEdits c)\<rparr>"

definition publish_start :: "event_console \<Rightarrow> event_console" where
  "publish_start c = c\<lparr>ek_busy := True\<rparr>"

definition publish_finish :: "(error \<Rightarrow> string) \<Rightarrow> (error + response) option \<Rightarrow> event_console \<Rightarrow> event_console" where
  "publish_finish message ans c =
     (case ans of
        None \<Rightarrow> console_toast ''Could not publish'' c
      | Some (Inl e) \<Rightarrow> console_toast (message e) c
      | Some (Inr _) \<Rightarrow> (console_toast ''Event published'' c)\<lparr>ek_gate := gate_reload (ek_gate c)\<rparr>)\<lparr>ek_busy := False\<rparr>"

definition saveQuantity_start :: "id \<Rightarrow> id \<Rightarrow> event_console \<Rightarrow> event_console \<times> route option" where
  "saveQuantity_start ev i c =
     (case map_of (quantities c) i of
        Some n \<Rightarrow> if n < 1 then (console_toast ''Quantity must be at least 1'' c, None)
          else (c, Some (Event_routes (Type_update ev i \<lparr>ut_name = None, ut_quantity = Some n, ut_maxPerOrder = None\<rparr>)))
      | None \<Rightarrow> (console_toast ''Quantity must be at least 1'' c, None))"

definition saveQuantity_finish :: "(error \<Rightarrow> string) \<Rightarrow> error + response \<Rightarrow> event_console \<Rightarrow> event_console" where
  "saveQuantity_finish message ans c =
     (case ans of
        Inl e \<Rightarrow> console_toast (message e) c
      | Inr _ \<Rightarrow> (console_toast ''Quantity updated'' c)\<lparr>ek_gate := gate_reload (ek_gate c)\<rparr>)"

definition exportCsv_finish :: "bool \<Rightarrow> event_console \<Rightarrow> event_console" where
  "exportCsv_finish ok c = (if ok then c else console_toast ''Could not export attendees'' c)\<lparr>ek_exporting := False\<rparr>"

text \<open>What is typed into a quantity field is what is sent.\<close>

lemma saved_as_typed:
  assumes "cg_data (ek_gate c) = Some (dash, m)" and "i \<in> tt_id ` ts_type ` set (ed_tiers dash)" and "1 \<le> n"
  shows "snd (saveQuantity_start ev i (setQuantity i n c)) =
    Some (Event_routes (Type_update ev i \<lparr>ut_name = None, ut_quantity = Some n, ut_maxPerOrder = None\<rparr>))"
proof -
  have at: "map_of (map (\<lambda>t. (tt_id t, f t)) ts) i = Some n"
    if "i \<in> tt_id ` set ts" "\<And>t. tt_id t = i \<Longrightarrow> f t = n" for ts and f :: "ticket_type \<Rightarrow> int"
    using that(1) by (induction ts) (auto simp: that(2))
  have "map_of (quantities (setQuantity i n c)) i = Some n"
    using assms(1,2) by (simp add: quantities_def setQuantity_def update_conv' at del: map_map)
  with assms(3) show ?thesis by (simp add: saveQuantity_start_def)
qed

section \<open>The team panel\<close>

record team_panel =
  tp_members :: "member_view list option"
  tp_email :: string
  tp_role :: member_role
  tp_busy :: bool
  tp_armedRemoveId :: "id option"

text \<open>\<^verbatim>\<open>fetchTeam\<close>: an answer without data is an empty team.\<close>

definition team_fetched :: "error + response \<Rightarrow> team_panel \<Rightarrow> team_panel" where
  "team_fetched ans p = p\<lparr>tp_members := Some (case ans of Inr (Members_body ms) \<Rightarrow> ms | _ \<Rightarrow> [])\<rparr>"

definition add_start :: "team_panel \<Rightarrow> team_panel \<times> team_route option" where
  "add_start p = (let trimmed = trim (tp_email p) in
     if trimmed = [] then (p, None) else (p\<lparr>tp_busy := True\<rparr>, Some (Team_add trimmed (tp_role p))))"

text \<open>The second component: whether the team is fetched again.\<close>

definition add_finish :: "(error + response) option \<Rightarrow> team_panel \<Rightarrow> team_panel \<times> bool" where
  "add_finish ans p =
     (case ans of
        Some (Inr _) \<Rightarrow> (p\<lparr>tp_email := [], tp_busy := False\<rparr>, True)
      | _ \<Rightarrow> (p\<lparr>tp_busy := False\<rparr>, False))"

definition changed_finish :: "error + response \<Rightarrow> bool" where
  "changed_finish ans = (case ans of Inr _ \<Rightarrow> True | Inl _ \<Rightarrow> False)"

definition remove_click :: "member_view \<Rightarrow> team_panel \<Rightarrow> team_panel \<times> team_route option" where
  "remove_click m p =
     (if tp_armedRemoveId p \<noteq> Some (mv_id m) then (p\<lparr>tp_armedRemoveId := Some (mv_id m)\<rparr>, None)
      else (p\<lparr>tp_armedRemoveId := None\<rparr>, Some (Team_delete (mv_id m))))"

lemma remove_needs_two_clicks:
  "snd (remove_click m p) = Some r \<Longrightarrow> tp_armedRemoveId p = Some (mv_id m) \<and> r = Team_delete (mv_id m)"
  by (auto simp: remove_click_def split: if_splits)

end
