(* ===== verification/Refund_Desk.thy ===== *)
theory Refund_Desk
  imports Console Refusals Ledger "HOL-Library.Multiset"
begin

text \<open>
  The refund desk of the web client, \<^verbatim>\<open>app/organizer/events/[id]/orders/page.tsx\<close>: tickets are ticked,
  a first click on an order's button arms it and shows the amount, a second one sends the refund. The
  rows on the page are those of \<open>eventOrders\<close>; \<open>refund_as_confirmed\<close> joins the page with the API.
\<close>

record refund_desk =
  rd_orders :: "order_row list"
  rd_selected :: "id \<Rightarrow> bool"
  rd_armedOrderId :: "id option"
  rd_busyOrderId :: "id option"
  rd_reloads :: nat
  rd_failures :: nat

definition start_desk :: refund_desk where
  "start_desk = \<lparr>rd_orders = [], rd_selected = (\<lambda>_. False), rd_armedOrderId = None, rd_busyOrderId = None,
     rd_reloads = 0, rd_failures = 0\<rparr>"

definition toggleTicket :: "id \<Rightarrow> refund_desk \<Rightarrow> refund_desk" where
  "toggleTicket i d = d\<lparr>rd_armedOrderId := None, rd_selected := (rd_selected d)(i := \<not> rd_selected d i)\<rparr>"

definition chosen :: "refund_desk \<Rightarrow> ticket \<times> string \<times> string option \<times> satang \<Rightarrow> bool" where
  "chosen d = (\<lambda>(t, _). t_status t = Issued \<and> rd_selected d (t_id t))"

definition selectedTicketIds :: "order_row \<Rightarrow> refund_desk \<Rightarrow> id list" where
  "selectedTicketIds row d = map (\<lambda>(t, _). t_id t) (filter (chosen d) (or_tickets row))"

definition selectedAmount :: "order_row \<Rightarrow> refund_desk \<Rightarrow> satang" where
  "selectedAmount row d = sum_by (\<lambda>(t, name, seat, price). price) (filter (chosen d) (or_tickets row))"

text \<open>A click on the button of an order; \<open>key\<close> is the random idempotency key of the request.\<close>

definition refund_click :: "id \<Rightarrow> order_row \<Rightarrow> string \<Rightarrow> refund_desk \<Rightarrow> refund_desk \<times> (refund_route \<times> string) option" where
  "refund_click ev row key d =
     (let ticketIds = selectedTicketIds row d; i = o_id (or_order row) in
      if ticketIds = [] then (d, None)
      else if rd_armedOrderId d \<noteq> Some i then (d\<lparr>rd_armedOrderId := Some i\<rparr>, None)
      else (d\<lparr>rd_busyOrderId := Some i, rd_armedOrderId := None\<rparr>, Some (Refund_create ev i ticketIds, key)))"

definition refund_answered :: "(error + response) option \<Rightarrow> refund_desk \<Rightarrow> refund_desk" where
  "refund_answered ans d =
     (case ans of
        Some (Inr _) \<Rightarrow> d\<lparr>rd_selected := (\<lambda>_. False), rd_reloads := rd_reloads d + 1\<rparr>
      | _ \<Rightarrow> d\<lparr>rd_failures := rd_failures d + 1\<rparr>)\<lparr>rd_busyOrderId := None\<rparr>"

definition retry_click :: "order_row \<Rightarrow> id \<Rightarrow> refund_desk \<Rightarrow> refund_desk \<times> refund_route" where
  "retry_click row rid d = (d\<lparr>rd_busyOrderId := Some (o_id (or_order row))\<rparr>, Refund_retry rid)"

definition retry_answered :: "(error + response) option \<Rightarrow> refund_desk \<Rightarrow> refund_desk" where
  "retry_answered ans d =
     (case ans of
        Some (Inr _) \<Rightarrow> d\<lparr>rd_reloads := rd_reloads d + 1\<rparr>
      | _ \<Rightarrow> d\<lparr>rd_failures := rd_failures d + 1\<rparr>)\<lparr>rd_busyOrderId := None\<rparr>"

text \<open>What happens on the page, in any order; the button of an order is disabled while it is busy.\<close>

datatype desk_event =
    Ticket_toggled id
  | Refund_clicked id string
  | Refund_answered "(error + response) option"
  | Retry_clicked id id
  | Retry_answered "(error + response) option"
  | Orders_loaded "order_row list"

definition row_of :: "id \<Rightarrow> refund_desk \<Rightarrow> order_row option" where
  "row_of i d = List.find (\<lambda>row. o_id (or_order row) = i) (rd_orders d)"

fun desk_step :: "id \<Rightarrow> desk_event \<Rightarrow> refund_desk \<Rightarrow> refund_desk" where
  "desk_step ev (Ticket_toggled i) d = toggleTicket i d"
| "desk_step ev (Refund_clicked i key) d =
     (case row_of i d of
        None \<Rightarrow> d
      | Some row \<Rightarrow> if rd_busyOrderId d = Some i then d else fst (refund_click ev row key d))"
| "desk_step ev (Refund_answered ans) d = refund_answered ans d"
| "desk_step ev (Retry_clicked i rid) d =
     (case row_of i d of None \<Rightarrow> d | Some row \<Rightarrow> fst (retry_click row rid d))"
| "desk_step ev (Retry_answered ans) d = retry_answered ans d"
| "desk_step ev (Orders_loaded rows) d = d\<lparr>rd_orders := rows\<rparr>"

section \<open>Two clicks\<close>

text \<open>
  The button of an order was armed by an earlier click, on a selection that has not changed since, or
  was cleared.
\<close>

definition was_armed :: "id \<Rightarrow> desk_event list \<Rightarrow> id \<Rightarrow> refund_desk \<Rightarrow> bool" where
  "was_armed ev es i d \<longleftrightarrow> (\<exists>es1 key es2. es = es1 @ Refund_clicked i key # es2 \<and>
     (rd_selected d = rd_selected (fold (desk_step ev) es1 start_desk) \<or> rd_selected d = (\<lambda>_. False)))"

lemma was_armed_later: "was_armed ev es i d \<Longrightarrow> rd_selected d' = rd_selected d \<or> rd_selected d' = (\<lambda>_. False) \<Longrightarrow>
    was_armed ev (es @ [e]) i d'"
  unfolding was_armed_def by (metis append.assoc append_Cons)

lemma armed_by_click:
  "rd_armedOrderId (fold (desk_step ev) es start_desk) = Some i \<Longrightarrow> was_armed ev es i (fold (desk_step ev) es start_desk)"
proof (induction es rule: rev_induct)
  case Nil
  then show ?case by (simp add: start_desk_def)
next
  case (snoc e es)
  let ?d = "fold (desk_step ev) es start_desk"
  have "rd_armedOrderId ?d = Some i \<and> (rd_selected (desk_step ev e ?d) = rd_selected ?d \<or> rd_selected (desk_step ev e ?d) = (\<lambda>_. False))
      \<or> (\<exists>key. e = Refund_clicked i key) \<and> rd_selected (desk_step ev e ?d) = rd_selected ?d"
    using snoc.prems
    by (cases e) (auto simp: toggleTicket_def refund_click_def refund_answered_def retry_click_def retry_answered_def
        row_of_def Let_def dest!: find_SomeD split: option.splits sum.splits if_splits)
  then show ?case
  proof (elim disjE conjE exE)
    assume "rd_armedOrderId ?d = Some i" "rd_selected (desk_step ev e ?d) = rd_selected ?d"
    with snoc.IH was_armed_later show ?thesis by simp
  next
    assume "rd_armedOrderId ?d = Some i" "rd_selected (desk_step ev e ?d) = (\<lambda>_. False)"
    with snoc.IH was_armed_later show ?thesis by simp
  next
    fix key assume "e = Refund_clicked i key" "rd_selected (desk_step ev e ?d) = rd_selected ?d"
    then show ?thesis by (auto simp: was_armed_def)
  qed
qed

section \<open>The refund that is made\<close>

abbreviation amounts :: "db \<Rightarrow> (id \<times> satang) list" where
  "amounts s \<equiv> map (\<lambda>q. (r_id q, r_amountSatang q)) (refunds s)"

lemma rest_of_refund:
  "keepsT (\<lambda>s. amounts s = A \<and> tickets s = K) (for_eachT (\<lambda>(tid, n). add_remaining tid n) xs)"
  "keepsT (\<lambda>s. amounts s = A \<and> tickets s = K) (announce_refund clk rp)"
proof -
  have stock: "keepsT (\<lambda>s. amounts s = A \<and> tickets s = K) (add_remaining t x)" for t x
    by (auto simp: keepsT_def add_remaining_Inr)
  then show "keepsT (\<lambda>s. amounts s = A \<and> tickets s = K) (for_eachT (\<lambda>(tid, n). add_remaining tid n) xs)"
    by (intro keeps) (simp split: prod.split)
  have outbox: "keepsT (\<lambda>s. amounts s = A \<and> tickets s = K) (writeInTx now p)" for now p
    by (auto simp: keepsT_def writeInTx_Inr)
  have writes: "keepsT (\<lambda>s. amounts s = A \<and> tickets s = K) (writeT (add_refunded i x))"
    "keepsT (\<lambda>s. amounts s = A \<and> tickets s = K) (writeT (set_status i st))" for i x st
    by (auto simp: keepsT_def writeT_Inr add_refunded_def set_status_def)
  show "keepsT (\<lambda>s. amounts s = A \<and> tickets s = K) (announce_refund clk rp)"
    unfolding announce_refund_def settleInTx_def
    by (intro keeps outbox writes | simp only: split: if_split | intro conjI impI)+
qed

lemma refund_tx_row:
  assumes "refund_tx clk rp s = Inr (rid, s')"
  shows "rid = next_id s" and "amounts s' = amounts s @ [(next_id s, rp_amount rp)]"
    and "tickets s' = update_where (voidable rp) (void_ticket (next_id s)) (tickets s)"
proof -
  let ?rest = "bindT (for_eachT (\<lambda>(tid, n). add_remaining tid n) (restored rp)) (\<lambda>_.
     bindT (announce_refund clk rp) (\<lambda>_. returnT (next_id s)))"
  let ?s2 = "s\<lparr>next_id := Suc (next_id s), refunds := refunds s @ [new_refund clk rp (next_id s)],
    tickets := update_where (voidable rp) (void_ticket (next_id s)) (tickets s)\<rparr>"
  from assms have rest: "?rest ?s2 = Inr (rid, s')"
    unfolding refund_tx_def bindT_fresh bindT_refund_Inr void_tickets_def
    by (auto simp: bindT_Inr readT_Inr writeT_Inr guardT_Inr)
  show "rid = next_id s" using rest by (auto simp: bindT_Inr returnT_Inr)
  have "keepsT (\<lambda>s. amounts s = amounts ?s2 \<and> tickets s = tickets ?s2) ?rest"
    by (intro keeps rest_of_refund)
  from keepsTD [OF this _ rest]
  show "amounts s' = amounts s @ [(next_id s, rp_amount rp)]"
    "tickets s' = update_where (voidable rp) (void_ticket (next_id s)) (tickets s)"
    by (simp_all add: new_refund_def)
qed

lemma money_leg_row:
  "keepsR (\<lambda>w. amounts (w_db w) = A \<and> tickets (w_db w) = K) (sendMoneyLeg ans rid intent x)"
proof -
  have "keepsT (\<lambda>s. amounts s = A \<and> tickets s = K) (set_provider_refund rid prov)"
    "keepsT (\<lambda>s. amounts s = A \<and> tickets s = K) (fail_refund rid)" for prov
    by (auto simp: keepsT_def set_provider_refund_def fail_refund_def writeT_Inr split: option.splits)
  then show ?thesis
    unfolding sendMoneyLeg_def by (intro keeps createRefund_keeps)
qed

lemma find_amount:
  assumes "\<forall>q \<in> set (refunds s0). r_id q < n" and "amounts s = amounts s0 @ [(n, x)]" and "find_refund n s = Some f"
  shows "r_amountSatang f = x"
proof -
  from assms(3) have "(n, r_amountSatang f) \<in> set (amounts s)"
    unfolding find_refund_def by (force dest: find_SomeD)
  with assms(1,2) show ?thesis by auto
qed

lemma tried_once:
  assumes "tryR (bindR (commit m) (\<lambda>i. returnR (Inl i)))
      (\<lambda>e. if c e then bindR (queryR g) (\<lambda>again. case again of Some r \<Rightarrow> returnR (Inr r) | None \<Rightarrow> throwR e)
           else throwR e) w = (Inr out, w1)" and "g (w_db w) = None"
  shows "\<exists>i s1. out = Inl i \<and> m (w_db w) = Inr (i, s1) \<and> w1 = w\<lparr>w_db := s1\<rparr>"
  using assms by (auto simp: handler_defs split: sum.splits if_splits)

lemma bindR_Inr: "bindR m f w = (Inr b, w2) \<longleftrightarrow> (\<exists>a w1. m w = (Inr a, w1) \<and> f a w1 = (Inr b, w2))"
  by (auto simp: bindR_def split: prod.splits sum.splits)

lemma bind_ask: "bindR (askR g) F w = (Inr r, w') \<Longrightarrow> \<exists>a. g (w_db w) = Inr a \<and> F a w = (Inr r, w')"
  by (auto simp: bindR_def askR_def split: sum.splits)

lemma bind_query: "bindR (queryR h) F w = F (h (w_db w)) w"
  by (simp add: bindR_def queryR_def)

lemma create_refund_row:
  assumes run: "create_refund clk ans ri w = (Inr ((f, ts), b), w')" and new: "replay_refund ri (w_db w) = None"
    and ids: "\<forall>q \<in> set (refunds (w_db w)). r_id q < next_id (w_db w)"
  obtains rp where "plan_refund ri (w_db w) = Inr rp" and "r_amountSatang f = rp_amount rp"
    and "tickets (w_db w') = update_where (voidable rp) (void_ticket (next_id (w_db w))) (tickets (w_db w))"
proof -
  let ?s = "w_db w"
  let ?leg = "\<lambda>rp rid. if rp_free rp then returnR () else case rp_intent rp of
      None \<Rightarrow> returnR () | Some intent \<Rightarrow> sendMoneyLeg ans rid intent (rp_amount rp)"
  let ?attempt = "\<lambda>rp. tryR (bindR (commit (refund_tx clk rp)) (\<lambda>i. returnR (Inl i)))
      (\<lambda>e. if truthy (ri_key ri) \<and> e = Prisma P2002 then
             bindR (queryR (replay_refund ri)) (\<lambda>again.
             case again of Some r \<Rightarrow> returnR (Inr r) | None \<Rightarrow> throwR e)
           else throwR e)"
  let ?rest = "\<lambda>rp out. case out of
      Inr r \<Rightarrow> bindR (queryR (refund_view r)) (\<lambda>v. returnR (v, True))
    | Inl rid \<Rightarrow> bindR (?leg rp rid) (\<lambda>_. bindR (getRefund rid) (\<lambda>v. returnR (v, False)))"
  from bind_ask [OF run [unfolded create_refund_def]]
  have "bindR (askR (plan_refund ri)) (\<lambda>rp. bindR (?attempt rp) (?rest rp)) w = (Inr ((f, ts), b), w')"
    by (simp add: bind_query new)
  from bind_ask [OF this] obtain rp out w1 where plan: "plan_refund ri ?s = Inr rp"
    and attempt: "?attempt rp w = (Inr out, w1)" and rest: "?rest rp out w1 = (Inr ((f, ts), b), w')"
    by (auto simp: bindR_Inr)
  from tried_once [OF attempt new] obtain rid s1 where tx: "refund_tx clk rp ?s = Inr (rid, s1)"
    and out: "out = Inl rid" "w1 = w\<lparr>w_db := s1\<rparr>" by blast
  from rest obtain u w2 where leg: "?leg rp rid (w\<lparr>w_db := s1\<rparr>) = (Inr u, w2)"
    and get: "getRefund rid w2 = (Inr (f, ts), w')"
    by (auto simp: out bindR_Inr returnR_def)
  note row = refund_tx_row [OF tx]
  have "keepsR (\<lambda>w. amounts (w_db w) = amounts s1 \<and> tickets (w_db w) = tickets s1) (?leg rp rid)"
    by (intro keeps money_leg_row | simp only: split: if_split option.split | intro conjI impI allI)+
  from keepsRD [OF this _ leg] have w2: "amounts (w_db w2) = amounts s1" "tickets (w_db w2) = tickets s1" by simp_all
  from get have "find_refund rid (w_db w2) = Some f" "w' = w2"
    by (auto simp: getRefund_def handler_defs refund_view_def split: option.splits)
  with find_amount [OF ids _ this(1) [unfolded row(1)]] w2 row plan show thesis by (intro that) simp_all
qed

section \<open>The amount that is shown\<close>

definition picked :: "order \<Rightarrow> refund_desk \<Rightarrow> ticket \<Rightarrow> bool" where
  "picked r d t \<longleftrightarrow> t_orderId t = o_id r \<and> t_status t = Issued \<and> rd_selected d (t_id t)"

lemma chosen_rows:
  "filter (chosen d) (or_tickets (order_row_of s r)) =
     map (\<lambda>t. (t, tier_name s t, ticket_seat s t, price_by_type (o_items r) (t_ticketTypeId t)))
       (sort_key t_createdAt (filter (picked r d) (tickets s)))"
proof -
  have "filter (picked r d) (tickets s) =
      filter (\<lambda>t. t_status t = Issued \<and> rd_selected d (t_id t)) (filter (\<lambda>t. t_orderId t = o_id r) (tickets s))"
    by (auto simp: picked_def intro!: filter_cong)
  then show ?thesis
    by (simp add: order_row_of_def filter_map comp_def chosen_def filter_sort)
qed

lemma shown_ids: "set (selectedTicketIds (order_row_of s r) d) = t_id ` {t \<in> set (tickets s). picked r d t}"
  by (auto simp: selectedTicketIds_def chosen_rows)

lemma sum_by_mset: "mset xs = mset ys \<Longrightarrow> sum_by f xs = sum_by f ys"
  unfolding sum_by_def by (metis mset_map sum_mset_sum_list)

lemma shown_amount: "selectedAmount (order_row_of s r) d =
    sum_by (\<lambda>t. price_by_type (o_items r) (t_ticketTypeId t)) (filter (picked r d) (tickets s))"
  unfolding selectedAmount_def chosen_rows
  by (simp add: sum_by_map comp_def) (rule sum_by_mset, simp)

lemma plan_of_shown:
  assumes ids: "ids_ok s" and r: "r \<in> set (orders s)" and plan: "plan_refund ri s = Inr rp"
    and asked: "ri_orderId ri = o_id r" "ri_ticketIds ri = selectedTicketIds (order_row_of s r) d"
  shows "rp_amount rp = selectedAmount (order_row_of s r) d"
    and "t \<in> set (tickets s) \<Longrightarrow> picked r d t \<Longrightarrow> voidable rp t"
proof -
  from plan obtain q where q: "List.find (\<lambda>q. o_id q = ri_orderId ri \<and> o_eventId q = ri_eventId ri) (orders s) = Some q"
    and rp: "rp_amount rp = sum_by (\<lambda>t. price_by_type (o_items q) (t_ticketTypeId t))
       (filter (\<lambda>t. t_orderId t = o_id q \<and> t_id t \<in> set (ri_ticketIds ri)) (tickets s))"
      "rp_orderId rp = o_id r" "rp_ticketIds rp = selectedTicketIds (order_row_of s r) d"
    by (auto simp: plan_refund_def Let_def asked split: option.splits if_splits)
  have "q = r" using find_SomeD [OF q] r ids asked(1) by (auto simp: ids_ok_def dest: distinct_map_key_eq)
  have tickets_distinct: "distinct (map t_id (tickets s))" using ids by (simp add: ids_ok_def)
  have "filter (\<lambda>t. t_orderId t = o_id q \<and> t_id t \<in> set (ri_ticketIds ri)) (tickets s) = filter (picked r d) (tickets s)"
    by (rule filter_cong [OF refl])
      (auto simp: asked(2) shown_ids \<open>q = r\<close> picked_def dest: distinct_map_key_eq [OF tickets_distinct])
  then show "rp_amount rp = selectedAmount (order_row_of s r) d" by (simp add: rp shown_amount \<open>q = r\<close>)
  show "voidable rp t" if "t \<in> set (tickets s)" "picked r d t"
    using that by (auto simp: voidable_def rp shown_ids picked_def)
qed

lemma shown_order:
  assumes "eventOrders ev u n s = Inr rows" and "row \<in> set rows"
  shows "\<exists>r \<in> set (orders s). row = order_row_of s r"
proof -
  have "rows = map (order_row_of s) (take (page_size n 500)
      (sort_key (\<lambda>r. - o_createdAt r) (filter (\<lambda>r. o_eventId r = ev \<and> paid r) (orders s))))"
    using assms(1) by (auto simp: eventOrders_def split: sum.splits)
  with assms(2) show ?thesis by (fastforce dest: in_set_takeD)
qed

lemma refund_request_made:
  assumes "reachable y" and "y_db y = w_db w" and "\<forall>q \<in> set (refunds (w_db w)). r_idempotencyKey q \<noteq> Some (take 120 key)"
    and "api env (rq\<lparr>rq_user := Some u, rq_idempotencyKey := Some key\<rparr>) (Refund_routes (Refund_create ev i xs)) w =
      (Inr (Refund_body (f, ts)), w')"
  obtains rp where "plan_refund (refund_request ev i xs u (Some key)) (w_db w) = Inr rp" and "r_amountSatang f = rp_amount rp"
    and "tickets (w_db w') = update_where (voidable rp) (void_ticket (next_id (w_db w))) (tickets (w_db w))"
proof -
  let ?ri = "refund_request ev i xs u (Some key)"
  from assms(4) obtain b where run: "create_refund (env_clock env) (env_refund env) ?ri w = (Inr ((f, ts), b), w')"
    by (auto simp: signed_in answerR_def bindR_Inr validationPipe_def guardR_def returnR_def split: if_splits)
  have "replay_refund ?ri (w_db w) = None"
    using assms(3) by (auto simp: replay_refund_def find_refund_by_key_def find_None_iff refund_request_def)
  moreover have "\<forall>q \<in> set (refunds (w_db w)). r_id q < next_id (w_db w)"
    using reachable_books [OF assms(1)] assms(2) by (auto simp: books_ok_def backed_def)
  ultimately show thesis using create_refund_row [OF run] that by blast
qed

section \<open>Properties\<close>

text \<open>
  C14: A refund is what the organizer confirmed. Whatever was clicked on the orders page, a refund
  request is sent only by a click on a button that an earlier click on the same order had armed, with
  the same tickets ticked; and when the page showed the orders as they are and the API answers, the
  refund it made is to the satang the amount on the button, and every ticket it named is void.
\<close>

theorem refund_as_confirmed:
  assumes "d = fold (desk_step ev) es start_desk" and "refund_click ev row key d = (d', Some (route, key))"
    and "reachable y" and "y_db y = w_db w" and "row \<in> set (rd_orders d)" and "eventOrders ev u n (w_db w) = Inr (rd_orders d)"
    and "\<forall>q \<in> set (refunds (w_db w)). r_idempotencyKey q \<noteq> Some (take 120 key)"
    and "api env (rq\<lparr>rq_user := Some u, rq_idempotencyKey := Some key\<rparr>) (Refund_routes route) w = (Inr (Refund_body (f, ts)), w')"
  shows "(\<exists>es1 key1 es2. es = es1 @ Refund_clicked (o_id (or_order row)) key1 # es2 \<and>
      rd_selected (fold (desk_step ev) es1 start_desk) = rd_selected d) \<and>
    r_amountSatang f = selectedAmount row d \<and>
    (\<forall>t \<in> set (tickets (w_db w')). t_id t \<in> set (selectedTicketIds row d) \<longrightarrow> t_status t = Void)"
proof (intro conjI)
  let ?i = "o_id (or_order row)" and ?s = "w_db w"
  from assms(2) have armed: "rd_armedOrderId d = Some ?i" and some: "selectedTicketIds row d \<noteq> []"
    and route: "route = Refund_create ev ?i (selectedTicketIds row d)"
    by (auto simp: refund_click_def Let_def split: if_splits)
  have "rd_selected d \<noteq> (\<lambda>_. False)"
    using some by (auto simp: selectedTicketIds_def filter_empty_conv chosen_def)
  with armed_by_click [of ev es ?i] armed assms(1)
  show "\<exists>es1 key1 es2. es = es1 @ Refund_clicked ?i key1 # es2 \<and>
      rd_selected (fold (desk_step ev) es1 start_desk) = rd_selected d"
    by (fastforce simp: was_armed_def)
  have ids: "ids_ok ?s" using reachable_ids [OF assms(3)] assms(4) by simp
  obtain r where r: "r \<in> set (orders ?s)" "row = order_row_of ?s r"
    using shown_order [OF assms(6,5)] by blast
  have i: "?i = o_id r" by (simp add: r order_row_of_def)
  let ?ri = "refund_request ev (o_id r) (selectedTicketIds row d) u (Some key)"
  obtain rp where plan: "plan_refund ?ri ?s = Inr rp" and amount: "r_amountSatang f = rp_amount rp"
    and voided: "tickets (w_db w') = update_where (voidable rp) (void_ticket (next_id ?s)) (tickets ?s)"
    using refund_request_made [OF assms(3,4,7) assms(8) [unfolded route i]] by blast
  have "ri_orderId ?ri = o_id r" "ri_ticketIds ?ri = selectedTicketIds (order_row_of ?s r) d"
    by (simp_all add: refund_request_def r)
  note shown = plan_of_shown [OF ids r(1) plan this]
  show "r_amountSatang f = selectedAmount row d" by (simp add: amount shown(1) r(2))
  show "\<forall>t \<in> set (tickets (w_db w')). t_id t \<in> set (selectedTicketIds row d) \<longrightarrow> t_status t = Void"
  proof (intro ballI impI)
    fix t assume t: "t \<in> set (tickets (w_db w'))" "t_id t \<in> set (selectedTicketIds row d)"
    from t(1) obtain t0 where t0: "t0 \<in> set (tickets ?s)" "t = (if voidable rp t0 then void_ticket (next_id ?s) t0 else t0)"
      unfolding voided by (blast dest: in_update_where)
    from t0(2) have "t_id t0 = t_id t" by (simp add: void_ticket_def)
    with t(2) obtain t1 where "t1 \<in> set (tickets ?s)" "picked r d t1" "t_id t1 = t_id t0"
      by (auto simp: r(2) shown_ids)
    with t0(1) ids have "picked r d t0" by (auto simp: ids_ok_def dest: distinct_map_key_eq)
    with shown(2) [OF t0(1)] t0(2) show "t_status t = Void" by (simp add: void_ticket_def)
  qed
qed

text \<open>The paid order of the example run: one of its two tickets is ticked, and the button clicked twice.\<close>

definition desk_clicks :: "desk_event list" where
  "desk_clicks = [Orders_loaded (projr (eventOrders 1 2 200 run_paid)), Ticket_toggled 13, Refund_clicked 8 ''u1'']"

definition desk_now :: refund_desk where
  "desk_now = fold (desk_step 1) desk_clicks start_desk"

definition desk_row :: order_row where
  "desk_row = the (row_of 8 desk_now)"

definition desk_request :: request where
  "desk_request = (day_request None)\<lparr>rq_user := Some 2, rq_idempotencyKey := Some ''u2''\<rparr>"

definition desk_answer :: "(error + response) \<times> world" where
  "desk_answer = api (day_env 9000) desk_request (Refund_routes (Refund_create 1 8 [13])) (demo_world run_paid)"

definition desk_refund :: "refund \<times> id list" where
  "desk_refund = (case fst desk_answer of Inr (Refund_body v) \<Rightarrow> v | _ \<Rightarrow> undefined)"

lemma desk_answered: "desk_answer = (Inr (Refund_body (fst desk_refund, snd desk_refund)), snd desk_answer)"
proof -
  have "case fst desk_answer of Inr (Refund_body v) \<Rightarrow> True | _ \<Rightarrow> False" by code_simp
  then have "fst desk_answer = Inr (Refund_body desk_refund)"
    by (auto simp: desk_refund_def split: sum.splits response.splits)
  then show ?thesis by (simp add: prod_eq_iff)
qed

lemma desk_click: "refund_click 1 desk_row ''u2'' desk_now =
    (fst (refund_click 1 desk_row ''u2'' desk_now), Some (Refund_create 1 8 [13], ''u2''))"
proof -
  have "snd (refund_click 1 desk_row ''u2'' desk_now) = Some (Refund_create 1 8 [13], ''u2'')" by code_simp
  then show ?thesis by (simp add: prod_eq_iff)
qed

lemma desk_facts:
  "y_db (run_system run_paid []) = w_db (demo_world run_paid)"
  "desk_row \<in> set (rd_orders desk_now)"
  "eventOrders 1 2 200 (w_db (demo_world run_paid)) = Inr (rd_orders desk_now)"
  "\<forall>q \<in> set (refunds (w_db (demo_world run_paid))). r_idempotencyKey q \<noteq> Some (take 120 ''u2'')"
  "selectedAmount desk_row desk_now = 500" "selectedTicketIds desk_row desk_now = [13]"
  by code_simp+

theorem refund_as_confirmed_witness:
  "(\<exists>es1 key1 es2. desk_clicks = es1 @ Refund_clicked (o_id (or_order desk_row)) key1 # es2 \<and>
      rd_selected (fold (desk_step 1) es1 start_desk) = rd_selected desk_now) \<and>
    r_amountSatang (fst desk_refund) = 500 \<and>
    list_all (\<lambda>t. t_status t = Void)
      (filter (\<lambda>t. t_id t \<in> set [13]) (tickets (w_db (snd desk_answer))))"
  using refund_as_confirmed [OF desk_now_def desk_click run_paid_reachable desk_facts(1-4)
      desk_answered [unfolded desk_answer_def desk_request_def], folded desk_request_def, folded desk_answer_def]
  by (simp add: desk_facts(5,6) list_all_iff)

end
