(* ===== verification/Ticket_Form.thy ===== *)
theory Ticket_Form
  imports Seat_Picker Complex_Main
begin

text \<open>
  The other forms of the web client that write to the API: the ticket form of an event without seats,
  \<^verbatim>\<open>app/events/[slug]/rsvp-card.tsx\<close>; the form of a new event, \<^verbatim>\<open>app/organizer/new/page.tsx\<close>; and
  the buyer's order page, \<^verbatim>\<open>app/orders/[id]/page.tsx\<close>. Handlers are split at their \<^verbatim>\<open>await\<close>s; an
  answer of \<open>None\<close> is a request that failed on the network.
\<close>

section \<open>Choosing tickets\<close>

record rsvp =
  rs_quantities :: "(id \<times> int) list"
  rs_buyerName :: string
  rs_buyerEmail :: string
  rs_busy :: bool
  rs_idempotencyKey :: string
  rs_refreshes :: nat

definition start_rsvp :: "string \<Rightarrow> rsvp" where
  "start_rsvp key = \<lparr>rs_quantities = [], rs_buyerName = [], rs_buyerEmail = [], rs_busy = False,
     rs_idempotencyKey = key, rs_refreshes = 0\<rparr>"

definition totalSelected :: "rsvp \<Rightarrow> int" where
  "totalSelected f = sum_by snd (rs_quantities f)"

definition adjust :: "id \<Rightarrow> int \<Rightarrow> int \<Rightarrow> rsvp \<Rightarrow> rsvp" where
  "adjust typeId delta limit f =
     (let cur = (case map_of (rs_quantities f) typeId of None \<Rightarrow> 0 | Some n \<Rightarrow> n)
      in f\<lparr>rs_quantities := AList.update typeId (max 0 (min limit (cur + delta))) (rs_quantities f)\<rparr>)"

definition claim_items :: "rsvp \<Rightarrow> order_item_input list" where
  "claim_items f = map (\<lambda>(i, n). \<lparr>oi_ticketTypeId = i, oi_quantity = n\<rparr>)
     (filter (\<lambda>(i, n). n > 0) (rs_quantities f))"

definition rsvp_start :: "(string \<times> string) option \<Rightarrow> request \<Rightarrow> rsvp \<Rightarrow> (rsvp \<times> create_order_dto \<times> request) option" where
  "rsvp_start user rq f =
     (if claim_items f = [] then None
      else Some (f\<lparr>rs_busy := True\<rparr>,
        \<lparr>d_items = Some (claim_items f), d_seatIds = None,
         d_buyerEmail = (case user of None \<Rightarrow> rs_buyerEmail f | Some (email, displayName) \<Rightarrow> email),
         d_buyerName = (case user of None \<Rightarrow> rs_buyerName f | Some (email, displayName) \<Rightarrow> displayName)\<rparr>,
        rq\<lparr>rq_idempotencyKey := Some (rs_idempotencyKey f)\<rparr>))"

definition rsvp_finish :: "string \<Rightarrow> (error + order \<times> string option) option \<Rightarrow> rsvp \<Rightarrow> rsvp \<times> next_page" where
  "rsvp_finish fresh ans f =
     (let f' = f\<lparr>rs_busy := False\<rparr> in
      case ans of
        None \<Rightarrow> (f', Stay)
      | Some (Inl e) \<Rightarrow>
          (f'\<lparr>rs_idempotencyKey := fresh, rs_refreshes := rs_refreshes f + (if status_409 e then 1 else 0)\<rparr>, Stay)
      | Some (Inr (r, url)) \<Rightarrow>
          if o_status r = Awaiting_payment \<and> truthy url then (f', Checkout (the url))
          else (f', Order_page (o_id r) (o_guestToken r)))"

text \<open>Every tier appears once, with no more tickets than the buttons allowed.\<close>

definition choice_ok :: "(id \<Rightarrow> int) \<Rightarrow> rsvp \<Rightarrow> bool" where
  "choice_ok limit f \<longleftrightarrow> distinct (map fst (rs_quantities f)) \<and>
     (\<forall>(i, n) \<in> set (rs_quantities f). 0 \<le> n \<and> n \<le> max 0 (limit i))"

lemma adjust_ok: "choice_ok limit f \<Longrightarrow> choice_ok limit (adjust i delta (limit i) f)"
proof -
  have "set (AList.update i n xs) \<subseteq> insert (i, n) (set xs)" for n :: int and xs
    by (induction xs) auto
  then show "choice_ok limit f \<Longrightarrow> choice_ok limit (adjust i delta (limit i) f)"
    unfolding choice_ok_def adjust_def Let_def by (fastforce simp: distinct_update)
qed

lemma chosen_ok:
  "choice_ok limit (fold (\<lambda>(i, delta). adjust i delta (limit i)) clicks (start_rsvp key))"
proof -
  have "choice_ok limit f \<Longrightarrow> choice_ok limit (fold (\<lambda>(i, delta). adjust i delta (limit i)) clicks f)" for f
    by (induction clicks arbitrary: f) (auto intro: adjust_ok)
  moreover have "choice_ok limit (start_rsvp key)" by (simp add: choice_ok_def start_rsvp_def)
  ultimately show ?thesis by blast
qed

text \<open>
  So an order from the form names every tier once, each with at least one ticket: what the API refuses
  as a duplicate or an empty position never comes from here.
\<close>

lemma claimed_items:
  assumes "choice_ok limit f" and "rsvp_start user rq f = Some (f', dto, rq')"
  shows "\<exists>its. d_items dto = Some its \<and> its \<noteq> [] \<and> distinct (map oi_ticketTypeId its) \<and>
    (\<forall>it \<in> set its. 1 \<le> oi_quantity it \<and> oi_quantity it \<le> limit (oi_ticketTypeId it))"
proof -
  have "map oi_ticketTypeId (claim_items f) = map fst (filter (\<lambda>(i, n). n > 0) (rs_quantities f))"
    by (auto simp: claim_items_def)
  moreover have "distinct (map fst (filter p xs))" if "distinct (map fst xs)" for p and xs :: "(id \<times> int) list"
    using that by (induction xs) auto
  ultimately have "distinct (map oi_ticketTypeId (claim_items f))" using assms(1) by (simp add: choice_ok_def)
  moreover have "\<forall>it \<in> set (claim_items f). 1 \<le> oi_quantity it \<and> oi_quantity it \<le> limit (oi_ticketTypeId it)"
    using assms(1) by (force simp: choice_ok_def claim_items_def)
  ultimately show ?thesis using assms(2) by (auto simp: rsvp_start_def split: if_splits)
qed

section \<open>A lost answer\<close>

text \<open>
  When the answer of a purchase is lost, the form keeps its idempotency key, so claiming again answers
  with the order already made and buys nothing more: also when the visitor has changed the quantities
  or the name in between, in which case the new choice is silently ignored.
\<close>

lemma lost_claim_replays:
  assumes "rsvp_start user rq f = Some (f1, dto, rq1)" and "rs_idempotencyKey f \<noteq> []"
    and "api env rq1 (Order_routes (Order_create ev dto)) w = (Inr (Order_body r), w1)"
    and "rs_idempotencyKey f2 = rs_idempotencyKey (fst (rsvp_finish fresh None f1))"
    and "rsvp_start user2 rq2 f2 = Some (f3, dto2, rq3)"
    and "key_of (order_params rq1 ev) (w_db w2) = key_of (order_params rq1 ev) (w_db w1)"
    and "api env2 rq3 (Order_routes (Order_create ev dto2)) w2 = (Inr (Order_body r2), w3)"
  shows "o_id r2 = o_id r \<and> w3 = w2"
proof -
  have key: "rq_idempotencyKey rq1 = Some (rs_idempotencyKey f)" "rq_idempotencyKey rq3 = Some (rs_idempotencyKey f)"
    using assms(1,4,5) by (auto simp: rsvp_start_def rsvp_finish_def Let_def split: if_splits)
  have bought: "\<exists>b. create (env_clock env) (env_intent env) dto (order_params rq ev) w = (Inr (r, b), w')"
    if "api env rq (Order_routes (Order_create ev dto)) w = (Inr (Order_body r), w')" for env rq dto w r w'
    using that by (auto simp: answerR_def admissionGuard_def validationPipe_def handler_defs
        split: prod.splits sum.splits if_splits)
  from bought [OF assms(3)] bought [OF assms(7)] obtain b b2
    where 1: "create (env_clock env) (env_intent env) dto (order_params rq1 ev) w = (Inr (r, b), w1)"
      and 2: "create (env_clock env2) (env_intent env2) dto2 (order_params rq3 ev) w2 = (Inr (r2, b2), w3)" by blast
  have "truthy (cp_idempotencyKey (order_params rq1 ev))"
    using assms(2) by (simp add: order_params_def key truthy_def)
  from create_files [OF 1 this] assms(6) obtain q where q: "key_of (order_params rq1 ev) (w_db w2) = Some q" "o_id q = o_id r"
    by auto
  have "key_of (order_params rq3 ev) s = key_of (order_params rq1 ev) s" for s
    by (simp add: order_params_def key)
  with create_replays [OF create_asked [OF 2]] q 2 show ?thesis by simp
qed

section \<open>A new event\<close>

record event_form_row =
  fr_name :: string
  fr_quantity :: int
  fr_priceBaht :: rat

record event_form =
  ef_title :: string
  ef_venueName :: string
  ef_startsAt :: millis
  ef_description :: string
  ef_ticketTypes :: "event_form_row list"
  ef_busy :: bool

definition start_form :: event_form where
  "start_form = \<lparr>ef_title = [], ef_venueName = [], ef_startsAt = 0, ef_description = [],
     ef_ticketTypes = [\<lparr>fr_name = ''General admission'', fr_quantity = 50, fr_priceBaht = 0\<rparr>], ef_busy = False\<rparr>"

definition updateRow :: "nat \<Rightarrow> (event_form_row \<Rightarrow> event_form_row) \<Rightarrow> event_form \<Rightarrow> event_form" where
  "updateRow index patch f = f\<lparr>ef_ticketTypes :=
     map (\<lambda>(k, row). if k = index then patch row else row) (enumerate 0 (ef_ticketTypes f))\<rparr>"

text \<open>The buttons, with the condition that disables them.\<close>

definition add_row :: "event_form \<Rightarrow> event_form" where
  "add_row f = (if length (ef_ticketTypes f) \<ge> 10 then f
     else f\<lparr>ef_ticketTypes := ef_ticketTypes f @ [\<lparr>fr_name = [], fr_quantity = 50, fr_priceBaht = 0\<rparr>]\<rparr>)"

definition remove_row :: "nat \<Rightarrow> event_form \<Rightarrow> event_form" where
  "remove_row index f = (if length (ef_ticketTypes f) = 1 then f
     else f\<lparr>ef_ticketTypes := map snd (filter (\<lambda>(k, row). k \<noteq> index) (enumerate 0 (ef_ticketTypes f)))\<rparr>)"

text \<open>\<^verbatim>\<open>Math.round\<close> rounds halves up.\<close>

definition Math_round :: "rat \<Rightarrow> int" where
  "Math_round x = \<lfloor>x + 1 / 2\<rfloor>"

definition form_body :: "event_form \<Rightarrow> create_event_dto" where
  "form_body f = \<lparr>ce_title = ef_title f, ce_description = Some (ef_description f),
     ce_venueName = ef_venueName f, ce_startsAt = ef_startsAt f, ce_endsAt = None,
     ce_ticketTypes = map (\<lambda>row. \<lparr>ct_name = fr_name row, ct_quantity = fr_quantity row,
       ct_priceSatang = Math_round (fr_priceBaht row * 100), ct_maxPerOrder = None\<rparr>) (ef_ticketTypes f)\<rparr>"

text \<open>What the browser checks before it submits: the attributes of the inputs.\<close>

definition row_fields_ok :: "event_form_row \<Rightarrow> bool" where
  "row_fields_ok row \<longleftrightarrow> fr_name row \<noteq> [] \<and> length (fr_name row) \<le> 80 \<and>
     1 \<le> fr_quantity row \<and> fr_quantity row \<le> 100000 \<and>
     0 \<le> fr_priceBaht row \<and> fr_priceBaht row \<le> 1000000 \<and> fr_priceBaht row * 4 \<in> \<int>"

definition fields_ok :: "event_form \<Rightarrow> bool" where
  "fields_ok f \<longleftrightarrow> 3 \<le> length (ef_title f) \<and> length (ef_title f) \<le> 120 \<and>
     ef_venueName f \<noteq> [] \<and> length (ef_venueName f) \<le> 160 \<and> length (ef_description f) \<le> 5000 \<and>
     list_all row_fields_ok (ef_ticketTypes f)"

definition new_event_start :: "event_form \<Rightarrow> (event_form \<times> event_route) option" where
  "new_event_start f = (if ef_busy f \<or> \<not> fields_ok f then None
     else Some (f\<lparr>ef_busy := True\<rparr>, Event_create (form_body f)))"

definition new_event_finish :: "(error + response) option \<Rightarrow> event_form \<Rightarrow> event_form \<times> id option" where
  "new_event_finish ans f =
     (case ans of
        Some (Inr (Event_body e)) \<Rightarrow> (f, Some (ev_id (pe_event e)))
      | _ \<Rightarrow> (f\<lparr>ef_busy := False\<rparr>, None))"

definition rows_ok :: "event_form \<Rightarrow> bool" where
  "rows_ok f \<longleftrightarrow> 1 \<le> length (ef_ticketTypes f) \<and> length (ef_ticketTypes f) \<le> 10"

lemma rows_stay_ok:
  "rows_ok start_form" "rows_ok f \<Longrightarrow> rows_ok (updateRow i patch f)" "rows_ok f \<Longrightarrow> rows_ok (add_row f)"
  by (auto simp: rows_ok_def start_form_def updateRow_def add_row_def)

text \<open>A form the browser lets through passes the server's validation, at the prices typed.\<close>

lemma form_accepted:
  assumes "rows_ok f" and "new_event_start f = Some (f', Event_create d)"
  shows "valid_event_dto d \<and> map ct_priceSatang (ce_ticketTypes d) = map (\<lambda>row. \<lfloor>fr_priceBaht row * 100\<rfloor>) (ef_ticketTypes f) \<and>
    (\<forall>row \<in> set (ef_ticketTypes f). of_int \<lfloor>fr_priceBaht row * 100\<rfloor> = fr_priceBaht row * 100)"
proof -
  have d: "d = form_body f" and fields: "fields_ok f" using assms(2) by (auto simp: new_event_start_def split: if_splits)
  have exact: "of_int \<lfloor>fr_priceBaht row * 100\<rfloor> = fr_priceBaht row * 100 \<and>
      Math_round (fr_priceBaht row * 100) = \<lfloor>fr_priceBaht row * 100\<rfloor> \<and>
      0 \<le> \<lfloor>fr_priceBaht row * 100\<rfloor> \<and> \<lfloor>fr_priceBaht row * 100\<rfloor> \<le> 100000000"
    if "row_fields_ok row" for row
  proof -
    from that obtain k where "fr_priceBaht row * 4 = of_int k" by (auto simp: row_fields_ok_def Ints_def)
    then have k: "fr_priceBaht row * 100 = of_int (25 * k)" by simp
    moreover have "0 \<le> fr_priceBaht row * 100" "fr_priceBaht row * 100 \<le> of_int 100000000"
      using that by (auto simp: row_fields_ok_def)
    ultimately have "0 \<le> 25 * k" "25 * k \<le> 100000000" by (simp_all only: of_int_le_iff of_int_0_le_iff)
    moreover have "Math_round (of_int (25 * k)) = 25 * k" unfolding Math_round_def by (rule floor_unique) simp_all
    ultimately show ?thesis unfolding k by (simp only: floor_of_int simp_thms)
  qed
  then have "list_all valid_ticket_type (ce_ticketTypes d)"
    using fields by (auto simp: d form_body_def fields_ok_def list_all_iff valid_ticket_type_def row_fields_ok_def Suc_le_eq)
  with assms(1) fields exact show ?thesis
    by (auto simp: d form_body_def fields_ok_def valid_event_dto_def rows_ok_def list_all_iff Suc_le_eq)
qed

section \<open>The order page\<close>

datatype order_page_state = Order_loading | Order_ready | Order_missing

record order_page =
  op_state :: order_page_state
  op_order :: "order option"
  op_reloadKey :: nat

definition start_order_page :: order_page where
  "start_order_page = \<lparr>op_state = Order_loading, op_order = None, op_reloadKey = 0\<rparr>"

definition order_loaded :: "nat \<Rightarrow> error + response \<Rightarrow> order_page \<Rightarrow> order_page" where
  "order_loaded k ans p =
     (if k \<noteq> op_reloadKey p then p
      else case ans of
        Inr (Order_body r) \<Rightarrow> p\<lparr>op_order := Some r, op_state := Order_ready\<rparr>
      | _ \<Rightarrow> p\<lparr>op_state := Order_missing\<rparr>)"

definition isLive :: "order_page \<Rightarrow> bool" where
  "isLive p \<longleftrightarrow> (case op_order p of None \<Rightarrow> False
     | Some r \<Rightarrow> o_status r = Awaiting_payment \<or> o_status r = Paid \<or> o_status r = Partially_refunded)"

text \<open>A socket message about the order or the ten-second poll, both only while the order is live.\<close>

definition order_poll :: "order_page \<Rightarrow> order_page" where
  "order_poll p = (if isLive p then p\<lparr>op_reloadKey := op_reloadKey p + 1\<rparr> else p)"

definition order_route_of :: "id \<Rightarrow> id option \<Rightarrow> order_route" where
  "order_route_of i guestToken = Order_get i guestToken"

definition payment_countdown :: "millis \<Rightarrow> millis \<Rightarrow> string" where
  "payment_countdown expiresAt now = formatCountdown (max 0 (expiresAt - now))"

text \<open>A page that has seen its order end stops asking.\<close>

lemma ended_order_is_quiet: "op_order p = Some r \<Longrightarrow> o_status r \<in> {Expired, Canceled, Refunded} \<Longrightarrow> order_poll p = p"
  by (auto simp: order_poll_def isLive_def)

end
