(* ===== verification/Waiting_Room.thy ===== *)
theory Waiting_Room
  imports Client_Session
begin

text \<open>
  The waiting room in the web client: \<^verbatim>\<open>app/events/[slug]/queue/page.tsx\<close>, the store of admission
  tokens in \<^verbatim>\<open>lib/api/admission.ts\<close>, and \<^verbatim>\<open>useAdmitted\<close> of \<^verbatim>\<open>app/events/[slug]/drop-sale.tsx\<close>. The gate
  that keeps the queue is a service of its own; its answers and messages are arguments here. The
  browser's \<^verbatim>\<open>sessionStorage\<close> is a map from event ids to tokens.
\<close>

record queue_event_info =
  qe_id :: string
  qe_dropMode :: bool

datatype queue_state = Queue_loading | Queuing | Queue_error

record queue_page =
  qp_state :: queue_state
  qp_event :: "string option"
  qp_position :: "nat option"
  qp_total :: "nat option"
  qp_left :: bool
  qp_streaming :: bool

definition start_queue :: queue_page where
  "start_queue = \<lparr>qp_state = Queue_loading, qp_event = None, qp_position = None, qp_total = None,
     qp_left = False, qp_streaming = False\<rparr>"

type_synonym token_store = "string \<Rightarrow> string option"

definition setAdmissionToken :: "string \<Rightarrow> string \<Rightarrow> token_store \<Rightarrow> token_store" where
  "setAdmissionToken ev token st = st(ev := Some token)"

definition clearAdmissionToken :: "string \<Rightarrow> token_store \<Rightarrow> token_store" where
  "clearAdmissionToken ev st = st(ev := None)"

definition useAdmitted :: "(string \<Rightarrow> admission_claims option) \<Rightarrow> millis \<Rightarrow> string \<Rightarrow> token_store \<Rightarrow> bool" where
  "useAdmitted claims_of now ev st = isAdmissionValid claims_of now (st ev)"

text \<open>\<^verbatim>\<open>JoinResult\<close>.\<close>

record join_result =
  jr_admitted :: bool
  jr_position :: "nat option"
  jr_total :: "nat option"
  jr_token :: "string option"

text \<open>The effect, split at its two \<^verbatim>\<open>await\<close>s; the second component says that the gate is asked.\<close>

definition queue_entered :: "(string \<Rightarrow> admission_claims option) \<Rightarrow> millis \<Rightarrow> queue_event_info option \<Rightarrow>
    queue_page \<times> token_store \<Rightarrow> (queue_page \<times> token_store) \<times> bool" where
  "queue_entered claims_of now detail ps =
     (let (p, st) = ps in
      case detail of
        None \<Rightarrow> ((p\<lparr>qp_state := Queue_error\<rparr>, st), False)
      | Some e \<Rightarrow>
          if \<not> qe_dropMode e \<or> isAdmissionValid claims_of now (st (qe_id e)) then ((p\<lparr>qp_left := True\<rparr>, st), False)
          else ((p\<lparr>qp_event := Some (qe_id e)\<rparr>, st), True))"

definition queue_joined :: "join_result \<Rightarrow> queue_page \<times> token_store \<Rightarrow> queue_page \<times> token_store" where
  "queue_joined jr ps =
     (let (p, st) = ps in
      case qp_event p of
        None \<Rightarrow> (p, st)
      | Some ev \<Rightarrow>
          if jr_admitted jr \<and> truthy (jr_token jr) then (p\<lparr>qp_left := True\<rparr>, setAdmissionToken ev (the (jr_token jr)) st)
          else (p\<lparr>qp_position := jr_position jr, qp_total := jr_total jr, qp_state := Queuing, qp_streaming := True\<rparr>, st))"

datatype gate_message = Position nat nat | Admitted string

fun on_gate_message :: "gate_message \<Rightarrow> queue_page \<times> token_store \<Rightarrow> queue_page \<times> token_store" where
  "on_gate_message (Position k n) (p, st) =
     (if qp_streaming p then (p\<lparr>qp_position := Some k, qp_total := Some n\<rparr>, st) else (p, st))"
| "on_gate_message (Admitted token) (p, st) =
     (case qp_event p of
        None \<Rightarrow> (p, st)
      | Some ev \<Rightarrow> if qp_streaming p
          then (p\<lparr>qp_streaming := False, qp_left := True\<rparr>, setAdmissionToken ev token st) else (p, st))"

section \<open>Through the gate\<close>

text \<open>A visit: entering, the answer to joining, then the stream's messages.\<close>

definition queue_visit :: "(string \<Rightarrow> admission_claims option) \<Rightarrow> millis \<Rightarrow> queue_event_info option \<Rightarrow> join_result \<Rightarrow>
    gate_message list \<Rightarrow> token_store \<Rightarrow> queue_page \<times> token_store" where
  "queue_visit claims_of now detail jr ms st =
     (let (ps, asked) = queue_entered claims_of now detail (start_queue, st)
      in if asked then fold on_gate_message ms (queue_joined jr ps) else ps)"

definition tokens_given :: "join_result \<Rightarrow> gate_message list \<Rightarrow> string list" where
  "tokens_given jr ms = (case jr_token jr of None \<Rightarrow> [] | Some t \<Rightarrow> [t]) @
     concat (map (\<lambda>m. case m of Admitted t \<Rightarrow> [t] | Position k n \<Rightarrow> []) ms)"

lemma messages_store:
  assumes "qp_event p = Some ev" and "qp_left p \<longrightarrow> (\<exists>t \<in> G. st ev = Some t)"
    and "\<forall>t. Admitted t \<in> set ms \<longrightarrow> t \<in> G" and "(p', st') = fold on_gate_message ms (p, st)" and "qp_left p'"
  shows "\<exists>t \<in> G. st' ev = Some t"
  using assms
proof (induction ms arbitrary: p st)
  case (Cons m ms)
  obtain p1 st1 where 1: "on_gate_message m (p, st) = (p1, st1)" by force
  have "qp_event p1 = Some ev" "qp_left p1 \<longrightarrow> (\<exists>t \<in> G. st1 ev = Some t)"
    using 1 Cons.prems(1-3) by (cases m; force simp: setAdmissionToken_def split: if_splits)+
  with Cons.IH [of p1 st1] Cons.prems(3-5) 1 show ?case by simp
qed simp

text \<open>
  A visitor who leaves the waiting room of a drop for its event page without having had a token before
  carries one the gate has given, so with a gate that signs with the secret of the API the form is
  shown, and the API's guard lets the order pass as long as the token lives.
\<close>

lemma admitted_visitor_passes:
  assumes "(p, st') = queue_visit claims_of now (Some e) jr ms st" and "qp_left p" and "qe_dropMode e"
    and "st (qe_id e) = None" and "length (qe_id e) > 0"
    and "\<forall>t \<in> set (tokens_given jr ms). t \<noteq> [] \<and> verifyAdmissionToken hmac claims_of secret t i later"
  shows "useAdmitted claims_of later (qe_id e) st' \<and>
    canActivate hmac claims_of secret (st' (qe_id e)) (Some i) later s = Inr ()"
proof -
  have asked: "queue_entered claims_of now (Some e) (start_queue, st) =
      ((start_queue\<lparr>qp_event := Some (qe_id e)\<rparr>, st), True)"
    using assms(3,4) by (simp add: queue_entered_def isAdmissionValid_def truthy_def)
  let ?p0 = "start_queue\<lparr>qp_event := Some (qe_id e)\<rparr>"
  obtain p1 st1 where 1: "queue_joined jr (?p0, st) = (p1, st1)" by force
  have joined: "qp_event p1 = Some (qe_id e)"
    "qp_left p1 \<longrightarrow> (\<exists>t \<in> set (tokens_given jr ms). st1 (qe_id e) = Some t)"
    using 1 by (auto simp: queue_joined_def start_queue_def setAdmissionToken_def tokens_given_def truthy_def
        split: if_splits option.splits)
  have streamed: "\<forall>t. Admitted t \<in> set ms \<longrightarrow> t \<in> set (tokens_given jr ms)"
    by (force simp: tokens_given_def)
  from assms(1) have "(p, st') = fold on_gate_message ms (p1, st1)" by (simp add: queue_visit_def asked 1)
  from messages_store [where st = st1, OF joined streamed this assms(2)] obtain t where "t \<in> set (tokens_given jr ms)" "st' (qe_id e) = Some t" by blast
  with assms(6) show ?thesis
    by (auto simp: useAdmitted_def canActivate_def truthy_def intro: admitted_is_valid split: option.splits)
qed

end
