(* ===== verification/Viewport.thy ===== *)
theory Viewport
  imports Complex_Main Prelude
begin

text \<open>
  \<^verbatim>\<open>apps/web/src/lib/seat-map-viewport.ts\<close>: where the seats of the map are drawn, and how the
  visitor zooms and drags it. Lengths are rational numbers. A handler that reads and writes a
  \<^verbatim>\<open>useRef\<close> or a \<^verbatim>\<open>useState\<close> is a step on a record; the callback of \<^verbatim>\<open>setTimeout(.., 0)\<close> is a step of
  its own, after the click that follows a pointer's release.
\<close>

section \<open>Geometry\<close>

definition CELL :: rat where "CELL = 34"
definition GAP :: rat where "GAP = 8"
definition PAD :: rat where "PAD = 44"
definition STEP :: rat where "STEP = CELL + GAP"
definition STAGE_BAND :: rat where "STAGE_BAND = 36"
definition MIN_ZOOM :: rat where "MIN_ZOOM = 1 / 2"
definition MAX_ZOOM :: rat where "MAX_ZOOM = 5 / 2"
definition ZOOM_STEP :: rat where "ZOOM_STEP = 1 / 4"
definition DRAG_THRESHOLD_PX :: rat where "DRAG_THRESHOLD_PX = 4"
definition MIN_SEAT_PX :: rat where "MIN_SEAT_PX = 40"

lemmas viewport_constants = CELL_def GAP_def PAD_def STEP_def STAGE_BAND_def MIN_ZOOM_def MAX_ZOOM_def
  ZOOM_STEP_def DRAG_THRESHOLD_PX_def MIN_SEAT_PX_def

definition mapWidth :: "nat \<Rightarrow> rat" where
  "mapWidth maxCols = PAD * 2 + of_nat maxCols * STEP - GAP"

definition mapHeight :: "nat \<Rightarrow> rat" where
  "mapHeight totalRows = PAD + STAGE_BAND + of_nat totalRows * STEP - GAP + PAD"

definition seatX :: "nat \<Rightarrow> rat" where
  "seatX column = PAD + of_nat column * STEP"

definition seatY :: "nat \<Rightarrow> rat" where
  "seatY row = STAGE_BAND + PAD + of_nat row * STEP"

definition clampZoom :: "rat \<Rightarrow> rat" where
  "clampZoom z = min MAX_ZOOM (max MIN_ZOOM z)"

definition seatPixelSize :: "rat \<Rightarrow> nat \<Rightarrow> rat" where
  "seatPixelSize containerWidth maxCols =
     (let width = mapWidth maxCols
      in if containerWidth \<le> 0 \<or> width \<le> 0 then 0 else containerWidth * CELL / width)"

definition fitZoom :: "rat \<Rightarrow> nat \<Rightarrow> rat option" where
  "fitZoom containerWidth maxCols =
     (let seatPx = seatPixelSize containerWidth maxCols
      in if seatPx \<le> 0 \<or> seatPx \<ge> CELL then None
         else let target = clampZoom (MIN_SEAT_PX / seatPx) in if target > 1 then Some target else None)"

text \<open>Every seat lies inside the map's margin, and two seats keep the gap.\<close>

lemma seat_inside: "c < n \<Longrightarrow> r < m \<Longrightarrow> PAD \<le> seatX c \<and> seatX c + CELL \<le> mapWidth n - PAD \<and>
    STAGE_BAND + PAD \<le> seatY r \<and> seatY r + CELL \<le> mapHeight m - PAD"
proof -
  assume "c < n" "r < m"
  then have "of_nat c + 1 \<le> (of_nat n :: rat)" "of_nat r + 1 \<le> (of_nat m :: rat)"
    by (simp_all flip: of_nat_Suc)
  then show ?thesis by (simp add: seatX_def seatY_def mapWidth_def mapHeight_def viewport_constants)
qed

lemma seats_apart: "c < c' \<Longrightarrow> seatX c + CELL + GAP \<le> seatX c' \<and> seatY c + CELL + GAP \<le> seatY c'"
proof -
  assume "c < c'"
  then have "of_nat c + 1 \<le> (of_nat c' :: rat)" by (simp flip: of_nat_Suc)
  then show ?thesis by (simp add: seatX_def seatY_def viewport_constants)
qed

lemma clampZoom_bounds [simp]: "MIN_ZOOM \<le> clampZoom z" "clampZoom z \<le> MAX_ZOOM"
  by (auto simp: clampZoom_def viewport_constants)

text \<open>The initial zoom makes a seat wide enough for a finger, unless even the largest zoom does not.\<close>

lemma fit_tappable: "fitZoom w n = Some z \<Longrightarrow>
    1 < z \<and> z \<le> MAX_ZOOM \<and> (z * seatPixelSize w n = MIN_SEAT_PX \<or> z = MAX_ZOOM \<and> z * seatPixelSize w n < MIN_SEAT_PX)"
proof -
  assume fit: "fitZoom w n = Some z"
  let ?s = "seatPixelSize w n"
  have s: "0 < ?s" "?s < 34" and z: "z = clampZoom (40 / ?s)" "1 < z"
    using fit by (auto simp: fitZoom_def Let_def viewport_constants split: if_splits)
  have "1 / 2 \<le> 40 / ?s" using s by (simp add: field_simps)
  then have z_min: "z = min (5 / 2) (40 / ?s)" by (simp add: z(1) clampZoom_def viewport_constants)
  show ?thesis
  proof (cases "?s < 16")
    case True
    then have "5 / 2 < 40 / ?s" using s by (simp add: field_simps)
    then have "z = 5 / 2" by (simp add: z_min)
    moreover have "5 / 2 * ?s < 40" using True by simp
    ultimately show ?thesis by (simp only: viewport_constants) simp
  next
    case False
    then have "40 / ?s \<le> 5 / 2" using s by (simp add: field_simps)
    then have "z = 40 / ?s" "z \<le> 5 / 2" by (simp_all add: z_min)
    with s z(2) show ?thesis by (simp add: viewport_constants)
  qed
qed

section \<open>Zooming and dragging\<close>

record drag_ref =
  dg_x :: rat
  dg_y :: rat
  dg_moved :: bool

record viewport =
  vp_zoom :: rat
  vp_panX :: rat
  vp_panY :: rat
  vp_drag :: "drag_ref option"
  vp_suppressClick :: bool
  vp_captures :: nat
  vp_timeouts :: nat

definition start_viewport :: viewport where
  "start_viewport = \<lparr>vp_zoom = 1, vp_panX = 0, vp_panY = 0, vp_drag = None, vp_suppressClick = False,
     vp_captures = 0, vp_timeouts = 0\<rparr>"

definition zoomIn :: "viewport \<Rightarrow> viewport" where
  "zoomIn v = v\<lparr>vp_zoom := clampZoom (vp_zoom v + ZOOM_STEP)\<rparr>"

definition zoomOut :: "viewport \<Rightarrow> viewport" where
  "zoomOut v = v\<lparr>vp_zoom := clampZoom (vp_zoom v - ZOOM_STEP)\<rparr>"

definition reset_view :: "viewport \<Rightarrow> viewport" where
  "reset_view v = v\<lparr>vp_zoom := 1, vp_panX := 0, vp_panY := 0\<rparr>"

definition fitToWidth :: "rat \<Rightarrow> nat \<Rightarrow> viewport \<Rightarrow> viewport" where
  "fitToWidth containerWidth maxCols v =
     (case fitZoom containerWidth maxCols of
        None \<Rightarrow> v
      | Some target \<Rightarrow> if vp_zoom v = 1 then v\<lparr>vp_zoom := target\<rparr> else v)"

definition onPointerDown :: "rat \<Rightarrow> rat \<Rightarrow> viewport \<Rightarrow> viewport" where
  "onPointerDown x y v = v\<lparr>vp_drag := Some \<lparr>dg_x = x, dg_y = y, dg_moved = False\<rparr>\<rparr>"

definition onPointerMove :: "rat \<Rightarrow> rat \<Rightarrow> viewport \<Rightarrow> viewport" where
  "onPointerMove x y v =
     (case vp_drag v of
        None \<Rightarrow> v
      | Some d \<Rightarrow>
          let dx = x - dg_x d; dy = y - dg_y d;
              starts = (\<not> dg_moved d \<and> \<bar>dx\<bar> + \<bar>dy\<bar> > DRAG_THRESHOLD_PX);
              v1 = (if starts then v\<lparr>vp_drag := Some (d\<lparr>dg_moved := True\<rparr>), vp_suppressClick := True,
                      vp_captures := vp_captures v + 1\<rparr> else v)
          in if dg_moved d \<or> starts
             then v1\<lparr>vp_panX := vp_panX v + dx, vp_panY := vp_panY v + dy,
                     vp_drag := Some \<lparr>dg_x = x, dg_y = y, dg_moved = True\<rparr>\<rparr>
             else v1)"

definition onPointerUp :: "viewport \<Rightarrow> viewport" where
  "onPointerUp v = v\<lparr>vp_drag := None, vp_timeouts := vp_timeouts v + 1\<rparr>"

definition timeout_fires :: "viewport \<Rightarrow> viewport" where
  "timeout_fires v = (if vp_timeouts v = 0 then v
     else v\<lparr>vp_timeouts := vp_timeouts v - 1, vp_suppressClick := False\<rparr>)"

datatype viewport_event =
    Zoom_in | Zoom_out | Zoom_reset | Fit rat nat
  | Pointer_down rat rat | Pointer_move rat rat | Pointer_up | Timeout

fun viewport_step :: "viewport_event \<Rightarrow> viewport \<Rightarrow> viewport" where
  "viewport_step Zoom_in v = zoomIn v"
| "viewport_step Zoom_out v = zoomOut v"
| "viewport_step Zoom_reset v = reset_view v"
| "viewport_step (Fit w n) v = fitToWidth w n v"
| "viewport_step (Pointer_down x y) v = onPointerDown x y v"
| "viewport_step (Pointer_move x y) v = onPointerMove x y v"
| "viewport_step Pointer_up v = onPointerUp v"
| "viewport_step Timeout v = timeout_fires v"

definition zoom_ok :: "viewport \<Rightarrow> bool" where
  "zoom_ok v \<longleftrightarrow> MIN_ZOOM \<le> vp_zoom v \<and> vp_zoom v \<le> MAX_ZOOM"

lemma unzoomed [simp]: "MIN_ZOOM \<le> 1" "1 \<le> MAX_ZOOM"
  by (simp_all add: viewport_constants)

lemma fit_bounds: "fitZoom w n = Some z \<Longrightarrow> MIN_ZOOM \<le> z \<and> z \<le> MAX_ZOOM"
  using fit_tappable [of w n z] unzoomed(1) by linarith

lemma step_zoom: "zoom_ok v \<Longrightarrow> zoom_ok (viewport_step e v)"
  by (cases e) (auto simp: zoom_ok_def zoomIn_def zoomOut_def reset_view_def fitToWidth_def onPointerDown_def
      onPointerMove_def onPointerUp_def timeout_fires_def Let_def dest: fit_bounds split: option.splits)

lemma zoom_stays_in_bounds: "zoom_ok (fold viewport_step es start_viewport)"
proof -
  have "zoom_ok v \<Longrightarrow> zoom_ok (fold viewport_step es v)" for v
    by (induction es arbitrary: v) (auto intro: step_zoom)
  then show ?thesis by (simp add: zoom_ok_def start_viewport_def viewport_constants)
qed

section \<open>A drag follows the pointer\<close>

text \<open>The moves of one drag, from the press at \<open>(x0, y0)\<close>: the map has moved by what the pointer has.\<close>

definition moves :: "(rat \<times> rat) list \<Rightarrow> viewport \<Rightarrow> viewport" where
  "moves ps v = fold (\<lambda>(x, y). onPointerMove x y) ps v"

definition far :: "rat \<Rightarrow> rat \<Rightarrow> rat \<times> rat \<Rightarrow> bool" where
  "far x0 y0 = (\<lambda>(x, y). \<bar>x - x0\<bar> + \<bar>y - y0\<bar> > DRAG_THRESHOLD_PX)"

lemma moves_once_moved:
  assumes "vp_drag v = Some \<lparr>dg_x = x0, dg_y = y0, dg_moved = True\<rparr>"
  shows "let (x, y) = last ((x0, y0) # ps) in
    moves ps v = v\<lparr>vp_panX := vp_panX v + (x - x0), vp_panY := vp_panY v + (y - y0),
      vp_drag := Some \<lparr>dg_x = x, dg_y = y, dg_moved = True\<rparr>\<rparr>"
  using assms
proof (induction ps arbitrary: v x0 y0)
  case Nil
  then show ?case by (simp add: moves_def)
next
  case (Cons p ps)
  obtain x y where p: "p = (x, y)" by force
  let ?v = "onPointerMove x y v"
  have v: "?v = v\<lparr>vp_panX := vp_panX v + (x - x0), vp_panY := vp_panY v + (y - y0),
      vp_drag := Some \<lparr>dg_x = x, dg_y = y, dg_moved = True\<rparr>\<rparr>"
    using Cons.prems by (simp add: onPointerMove_def Let_def)
  have run: "moves (p # ps) v = moves ps ?v" by (simp add: moves_def p)
  have at: "vp_drag ?v = Some \<lparr>dg_x = x, dg_y = y, dg_moved = True\<rparr>" by (simp add: v)
  have "last ((x0, y0) # p # ps) = last ((x, y) # ps)" by (simp add: p)
  then show ?case
    unfolding run using Cons.IH [OF at] by (simp add: v Let_def split: prod.splits)
qed

lemma drag_follows_pointer:
  assumes "vp_drag v = Some \<lparr>dg_x = x0, dg_y = y0, dg_moved = False\<rparr>" and "ps \<noteq> []"
  shows "if list_ex (far x0 y0) ps
    then vp_suppressClick (moves ps v) \<and> vp_panX (moves ps v) = vp_panX v + (fst (last ps) - x0) \<and>
         vp_panY (moves ps v) = vp_panY v + (snd (last ps) - y0)
    else moves ps v = v"
  using assms
proof (induction ps)
  case (Cons p ps)
  obtain x y where p: "p = (x, y)" by force
  show ?case
  proof (cases "far x0 y0 p")
    case True
    then have v: "onPointerMove x y v = v\<lparr>vp_suppressClick := True, vp_captures := vp_captures v + 1,
        vp_panX := vp_panX v + (x - x0), vp_panY := vp_panY v + (y - y0),
        vp_drag := Some \<lparr>dg_x = x, dg_y = y, dg_moved = True\<rparr>\<rparr>"
      using Cons.prems(1) by (simp add: onPointerMove_def Let_def far_def p)
    have "moves (p # ps) v = moves ps (onPointerMove x y v)" by (simp add: moves_def p)
    with moves_once_moved [of "onPointerMove x y v" x y ps] True show ?thesis
      by (auto simp: v p Let_def split: prod.splits if_splits)
  next
    case False
    then have "onPointerMove x y v = v"
      using Cons.prems(1) by (simp add: onPointerMove_def Let_def far_def p)
    then have "moves (p # ps) v = moves ps v" by (simp add: moves_def p)
    with Cons False show ?thesis by (cases "ps = []") (auto simp: moves_def)
  qed
qed simp

text \<open>
  So the click that ends a drag is swallowed and the click of a still pointer is not: the timer of the
  release clears the mark only after the click.
\<close>

lemma click_after_drag:
  assumes "\<not> vp_suppressClick v" and "ps \<noteq> []"
  shows "vp_suppressClick (onPointerUp (moves ps (onPointerDown x0 y0 v))) \<longleftrightarrow> list_ex (far x0 y0) ps"
  using drag_follows_pointer [of "onPointerDown x0 y0 v" x0 y0 ps] assms
  by (auto simp: onPointerDown_def onPointerUp_def split: if_splits)

end
