(* ===== verification/Health.thy ===== *)
theory Health
  imports Prelude
begin

text \<open>
  \<^verbatim>\<open>apps/api/src/health/health.service.ts\<close>: the readiness report. A probe of a dependency settles
  after some milliseconds or never, which is all the service sees of it; \<^verbatim>\<open>Promise.race\<close> with the
  timer decides.
\<close>

definition CHECK_TIMEOUT_MS :: nat where "CHECK_TIMEOUT_MS = 2000"

datatype probe = Answers nat | Rejects nat | Hangs

datatype dependency_status = Dep_up | Dep_down | Dep_skipped

record dependency_check =
  dc_status :: dependency_status
  dc_latencyMs :: "nat option"

datatype readiness = Ready | Degraded

definition check :: "probe \<Rightarrow> dependency_check" where
  "check p = (case p of
     Answers t \<Rightarrow> if t < CHECK_TIMEOUT_MS then \<lparr>dc_status = Dep_up, dc_latencyMs = Some t\<rparr>
       else \<lparr>dc_status = Dep_down, dc_latencyMs = None\<rparr>
   | Rejects t \<Rightarrow> \<lparr>dc_status = Dep_down, dc_latencyMs = None\<rparr>
   | Hangs \<Rightarrow> \<lparr>dc_status = Dep_down, dc_latencyMs = None\<rparr>)"

definition check_time :: "probe \<Rightarrow> nat" where
  "check_time p = (case p of Answers t \<Rightarrow> min t CHECK_TIMEOUT_MS | Rejects t \<Rightarrow> min t CHECK_TIMEOUT_MS | Hangs \<Rightarrow> CHECK_TIMEOUT_MS)"

text \<open>No client without a \<^verbatim>\<open>REDIS_URL\<close>.\<close>

definition checkRedis :: "probe option \<Rightarrow> dependency_check" where
  "checkRedis client = (case client of None \<Rightarrow> \<lparr>dc_status = Dep_skipped, dc_latencyMs = None\<rparr> | Some p \<Rightarrow> check p)"

definition report :: "probe \<Rightarrow> probe option \<Rightarrow> readiness \<times> dependency_check \<times> dependency_check" where
  "report database redis =
     (let checks = [check database, checkRedis redis];
          down = list_ex (\<lambda>c. dc_status c = Dep_down) checks
      in (if down then Degraded else Ready, checks ! 0, checks ! 1))"

text \<open>\<^verbatim>\<open>Promise.all\<close> is there when both are.\<close>

definition report_time :: "probe \<Rightarrow> probe option \<Rightarrow> nat" where
  "report_time database redis = max (check_time database) (case redis of None \<Rightarrow> 0 | Some p \<Rightarrow> check_time p)"

text \<open>The report is ready exactly when everything configured answers in time, and is never late.\<close>

lemma ready_iff:
  "fst (report database redis) = Ready \<longleftrightarrow>
     (\<forall>p \<in> insert database (set_option redis). \<exists>t < CHECK_TIMEOUT_MS. p = Answers t)"
proof -
  have "dc_status (check p) = Dep_down \<longleftrightarrow> \<not> (\<exists>t < CHECK_TIMEOUT_MS. p = Answers t)" for p
    by (cases p) (auto simp: check_def)
  then show ?thesis by (cases redis) (auto simp: report_def checkRedis_def Let_def)
qed

lemma report_in_time: "report_time database redis \<le> CHECK_TIMEOUT_MS"
  by (auto simp: report_time_def check_time_def split: probe.splits option.splits)

end
