(* ===== verification/Spec2Isabelle.thy ===== *)
theory Spec2Isabelle
  imports Drain Refusals Webhooks Mail Service Draft Live_Map Scanner Client_Session Console Refund_Desk Ticket_Form
    Waiting_Room Viewport Health
begin

text \<open>
  A model of OpenSeat: event ticketing with seat holds, orders, payments, refunds and check-in. This
  is the root theory; it imports the others and documents the whole.

  \<^bold>\<open>The program.\<close> The API (\<^verbatim>\<open>apps/api\<close>, NestJS over Postgres through Prisma) is the one place that
  decides. A visitor taps seats and gets holds of seven minutes; an order turns holds and counted
  tickets into a reservation in one transaction, and a payment is set up with an external provider
  afterwards; the provider's signed webhooks settle it, jobs on a queue release what was never paid,
  and organizers refund tickets, edit the event and admit people at the door. Whatever the outside is
  to hear of (mails, socket messages) is written to an outbox in the transaction that causes it and
  dispatched later by any number of workers. The web client (\<^verbatim>\<open>apps/web\<close>, React) shows the seat map
  kept up to date by socket messages, sells, and gives organizers an editor, a console and a scanner.

  \<^bold>\<open>How the code is modelled.\<close> A table is a list of rows, a record per row (theory Schema), and the
  database \<open>db\<close> the record of all tables. The callback of \<^verbatim>\<open>prisma.$transaction\<close> is a \<open>tx\<close>: it throws
  and changes nothing, or returns a value with the new tables. A handler is a \<open>req\<close>: it may throw
  after some of its transactions are committed, so an error comes with a state. Exceptions are the
  constructors of \<open>error\<close>. The state of a process (\<open>world\<close>) is the database with the pending batch
  of seat changes, what was emitted, mailed and sent to the provider, and the queued jobs. A handler
  of the client is a function on a record of its \<^verbatim>\<open>useState\<close> and \<^verbatim>\<open>useRef\<close> cells, split in two where
  it awaits an answer. Everything but the step relations is executable, and every hypothesis of a
  property is discharged on a concrete run in its witness.

  \<^bold>\<open>Foundations.\<close>
  \<^item> Prelude: \<open>tx\<close> and \<open>req\<close> with their rules (collections \<open>tx_simps\<close>, \<open>keeps\<close>, \<open>row_simps\<close>), tables,
    JavaScript's string helpers, and two interfaces: \<open>claim\<close>, an update whose condition its own write
    makes false, which is how the code makes every step happen once, and \<open>invariant_system\<close>.
  \<^item> Schema: \<^verbatim>\<open>prisma/schema.prisma\<close>, \<^verbatim>\<open>orders/order-status.ts\<close>, unique indexes and checks as
    branches of the inserts. Samples: small concrete data.

  \<^bold>\<open>The API, one theory per component\<close> (paths under \<^verbatim>\<open>apps/api/src\<close>).
  \<^item> Realtime (\<^verbatim>\<open>realtime/realtime.service.ts\<close>): seat changes coalesced per event; locale
    \<open>seat_notifier\<close> says that the last change of a seat wins, and is interpreted on the batch.
    Gateway (\<^verbatim>\<open>realtime.gateway.ts\<close>, \<^verbatim>\<open>admission/\<close>): rooms, admission tokens and their guard.
  \<^item> Outbox (\<^verbatim>\<open>outbox/outbox.service.ts\<close>): the claim by attempt count, dispatch, and racing
    dispatchers as a step relation, an \<open>invariant_system\<close>. Mail (\<^verbatim>\<open>notifications/mail.service.ts\<close>).
  \<^item> Holds (\<^verbatim>\<open>holds/\<close>), Orders (\<^verbatim>\<open>orders/\<close>, \<^verbatim>\<open>queues/orders-expiry.worker.ts\<close>), Paymock_Client
    (\<^verbatim>\<open>paymock-client/\<close>), Payments (\<^verbatim>\<open>payments/\<close>), Refunds (\<^verbatim>\<open>refunds/\<close>): the sale. What a handler
    reads before its transaction is a plan (\<open>order_plan\<close>, \<open>refund_plan\<close>) that the transaction executes
    later. Every conditional update is an instance of \<open>claim\<close>.
  \<^item> Access (\<^verbatim>\<open>access/access.service.ts\<close>, locale \<open>role_gate\<close>), Team (\<^verbatim>\<open>team/\<close>), Events (\<^verbatim>\<open>events/\<close>),
    Seatmaps (\<^verbatim>\<open>seatmaps/\<close>), Checkin (\<^verbatim>\<open>checkin/\<close>), Dashboard (\<^verbatim>\<open>dashboard/\<close>), Auth (\<^verbatim>\<open>auth/\<close>),
    Health (\<^verbatim>\<open>health/health.service.ts\<close>).
  \<^item> Api: every route of the controllers and the resolver with its guards, validation and service
    call, in the order NestJS runs them, and the demo login.

  \<^bold>\<open>The sale as a system.\<close>
  \<^item> Writes: the kinds of write the transactions are made of, as locales that extend one another
    (\<open>quiet_invariant\<close>, \<open>settle_invariant\<close>, \<open>void_invariant\<close>, \<open>write_invariant\<close>): a predicate that
    survives the writes survives the transactions.
  \<^item> Inventory and Stock (the balance of a tier's stock), Integrity (foreign keys a plan relies on),
    Exclusion (a seat is held or sold or neither), Plans (what the reads establish).
  \<^item> System: \<open>sys_step\<close>, one committed transaction of any request, with the plans other requests still
    carry; its invariant \<open>core\<close> is proved once, through \<open>invariant_system\<close>. Run: an example run.
  \<^item> Lifecycle (locale \<open>run_invariant\<close>: what survives every run of the system; rows keep their
    identity and move forward; a purchase sent again finds its order), Ledger (the books of refunds), Sale (what
    follows in every reachable state), Webhooks (redelivery, late payments, delivery).
  \<^item> Service: the process as it runs, requests, webhooks, jobs, sweeps and outbox runs in sequence,
    refines \<open>sys_step\<close>; so what holds of reachable states holds of the running service. Undo (a
    failed purchase leaves nothing behind), Drain (reconciliation), Refusals (organizer routes).

  \<^bold>\<open>The web client\<close> (paths under \<^verbatim>\<open>apps/web/src\<close>).
  \<^item> Draft: the seat-map editor (\<^verbatim>\<open>lib/use-seat-map-draft.ts\<close>, the inspector and the editor page);
    locale \<open>edit_history\<close> is the abstract undo history it implements.
  \<^item> Seat_Picker (\<^verbatim>\<open>lib/use-seat-holds.ts\<close>, \<^verbatim>\<open>seat-picker.tsx\<close>), Hold_Effects and Live_Map: the picker
    against the API and the other buyers, matched with a run whose taps are answered at once. Viewport (\<^verbatim>\<open>lib/seat-map-viewport.ts\<close>): zooming and dragging.
  \<^item> Scanner (\<^verbatim>\<open>lib/use-door-scanner.ts\<close>): several devices at one door.
  \<^item> Client_Session (\<^verbatim>\<open>lib/api/client.ts\<close>, \<^verbatim>\<open>graphql.ts\<close>, \<^verbatim>\<open>admission.ts\<close>, \<^verbatim>\<open>auth-provider.tsx\<close>): sharing
    one refresh among all callers, over a network with delays. Waiting_Room (the queue page,
    \<^verbatim>\<open>drop-sale.tsx\<close>): how a token of the gate comes to the guard.
  \<^item> Console (\<^verbatim>\<open>lib/use-console-gate.ts\<close>, \<^verbatim>\<open>use-event-console.ts\<close>, \<^verbatim>\<open>team-panel.tsx\<close>), Refund_Desk (the
    orders page: what is confirmed is what is refunded), Ticket_Form (the ticket form without seats,
    the form of a new event, the buyer's order page).

  \<^bold>\<open>Bounds.\<close> They are the code's constants: eight attempts per outbox event and batches of 50; a
  reconciliation takes 100 orders, so as many runs as hundreds of stranded orders are enough, which is
  proved; holds of seven minutes, at most eight per key; a payment window of fifteen minutes; webhook
  signatures valid for five minutes; refresh tokens for thirty days; 45 days of sales chart; a scanner
  that ignores the same code for 2.5 seconds and keeps 25 entries; two seconds for a health probe. No
  definition uses fuel: the loops of the code run over lists or a batch read beforehand.
\<close>

text \<open>
  \<^bold>\<open>What is assumed.\<close>
  \<^item> Transactions are atomic and one after the other: where the code relies on row locks or a
    conditional update this is what the database gives; where it reads, computes and writes back
    without either, the findings of the manifest say what can go wrong.
  \<^item> Ids and tokens that the database or \<^verbatim>\<open>crypto\<close> draws at random are fresh numbers from a counter;
    random text of the client is an argument. The two clocks (\<^verbatim>\<open>Date.now()\<close> and Postgres' \<^verbatim>\<open>now()\<close>) are
    arguments of every handler and need not agree.
  \<^item> Strings are lists of ASCII characters (a dash in a ticket's name is a hyphen, a signature's
    timestamp is a decimal integer); numbers of the client are integers or, where fractions
    can be typed, rationals; money is an integer of satang.
  \<^item> The provider's answers, mail delivery, digests, password hashes, Google's check, the JSON reader,
    the e-mail check, the collation of the database and the gate are arguments: a property that needs
    something of them says so as a hypothesis (that a digest is in hexadecimal, that fresh tokens have
    fresh hashes), and its witness has a concrete function.
  \<^item> In Service the nudge of a dispatcher after a commit is a run of its own, and a crash between a
    commit and what the code does next is not a step, except that any answer may be lost.
  \<^item> In Live_Map a tap, the handling of its request and the arrival of the answer are steps of their
    own, with anything in between, under conditions checked along the run: no hold lapses (a lapse
    shows only after a reload, as in the code), a flush's messages arrive when the timer fires, a seat
    is not tapped again before its answer, and no flush brings news of a seat before the refusal that
    will overwrite it. Without the last one the map goes wrong, which is a lemma there and a finding
    of the manifest. In Draft every event of the page is
    followed by its render. In Refund_Desk the rows shown are compared with the database at the moment
    of the request; the selection may be older.

  \<^bold>\<open>Not modelled.\<close>
  \<^item> The framework's wiring: \<^verbatim>\<open>main.ts\<close>, modules, throttling, the pipes that check the form of an id,
    HTTP status codes, telemetry, and the connections to Redis, BullMQ and the mail server.
  \<^item> \<^verbatim>\<open>prisma/database-pool.ts\<close> and \<^verbatim>\<open>scripts/seed-target.ts\<close>, which read settings with the language's
    parsers of numbers and URLs; the seed script and tooling.
  \<^item> Rendering, styling and translations of the web client, its formatting of dates and amounts, the
    camera, and pages that only show what they fetch.
  \<^item> \<^verbatim>\<open>packages/contracts\<close>, which is generated, and the Go services \<^verbatim>\<open>services/gate\<close> and
    \<^verbatim>\<open>services/paymock\<close>, separate programs of which only what the API sees appears.
\<close>

end
